(* ===== verification/Swarm_Prelude.thy ===== *)
theory Swarm_Prelude
  imports Main "HOL-Library.Word" "HOL-Library.Multiset"
begin

text \<open>
  What every component of the library shares: the machine integers and byte strings of the
  source, the error values its exceptions become, the parts of the C++ standard library it
  calls (decimal output, \<^verbatim>\<open>std::from_chars\<close>, \<^verbatim>\<open>std::getline\<close>, \<^verbatim>\<open>std::istream::read\<close>,
  \<^verbatim>\<open>std::filesystem\<close> on a map from paths to files), and the generic lemmas on strings,
  separators and decimal numbers.

  A C++ \<^verbatim>\<open>std::string\<close>, \<^verbatim>\<open>std::string_view\<close> or \<^verbatim>\<open>std::vector<std::byte>\<close> is a
  list of \<^typ>\<open>char\<close>, the 8-bit characters of HOL; \<^verbatim>\<open>static_cast<unsigned char>\<close> is
  \<open>of_char\<close>. A \<^verbatim>\<open>char\<close> compared without a cast is signed in the source, but it is only
  ever compared from below with an ASCII character, where both readings agree.
\<close>

section \<open>Types\<close>

type_synonym u16 = "16 word"
type_synonym u32 = "32 word"
type_synonym u64 = "64 word"
type_synonym bytes = string
type_synonym path = string

text \<open>
  A thrown \<^verbatim>\<open>swarmsync::Error\<close> carries its message; a \<^verbatim>\<open>std::filesystem_error\<close> is a
  different exception, which \<^verbatim>\<open>catch (const Error&)\<close> does not catch.
\<close>

datatype exc = Error string | Filesystem_error string

type_synonym 'a result = "exc + 'a"

abbreviation throw :: "string \<Rightarrow> 'a result" where
  "throw msg \<equiv> Inl (Error msg)"

text \<open>Sequencing of calls that may throw: the first exception leaves the function.\<close>

definition rbind :: "'a result \<Rightarrow> ('a \<Rightarrow> 'b result) \<Rightarrow> 'b result" where
  "rbind r f = (case r of Inl e \<Rightarrow> Inl e | Inr x \<Rightarrow> f x)"

text \<open>A loop over a list whose body may throw.\<close>

primrec rfold :: "('a \<Rightarrow> 's \<Rightarrow> 's result) \<Rightarrow> 'a list \<Rightarrow> 's \<Rightarrow> 's result" where
  "rfold body [] s = Inr s"
| "rfold body (x # xs) s = rbind (body x s) (rfold body xs)"

named_theorems result_simps \<open>evaluation and inversion of sequenced results\<close>
named_theorems byte_simps \<open>unfolding of the byte classes\<close>

section \<open>Decimal output and \<^verbatim>\<open>std::from_chars\<close>\<close>

definition is_digit :: "char \<Rightarrow> bool" where
  "is_digit c \<longleftrightarrow> (48::nat) \<le> of_char c \<and> of_char c \<le> (57::nat)"

definition digit :: "nat \<Rightarrow> char" where
  "digit n = char_of (48 + n)"

text \<open>\<^verbatim>\<open>std::to_string\<close> and \<^verbatim>\<open>operator<<\<close> of an unsigned number.\<close>

fun dec :: "nat \<Rightarrow> string" where
  "dec n = (if n < 10 then [digit n] else dec (n div 10) @ [digit (n mod 10)])"

declare dec.simps [simp del]

definition digit_value :: "char \<Rightarrow> nat" where
  "digit_value c = of_char c - 48"

definition dec_value :: "string \<Rightarrow> nat" where
  "dec_value s = foldl (\<lambda>n c. 10 * n + digit_value c) 0 s"

datatype errc = Errc_ok | Invalid_argument | Result_out_of_range

text \<open>
  \<^verbatim>\<open>std::from_chars\<close> on an unsigned type of \<open>LENGTH('w)\<close> bits: it reads the longest
  run of digits (no sign, no blank), fails on an empty run, and reports a run whose value
  does not fit. The result is the unread rest, the error code and the value.
\<close>

definition from_chars :: "string \<Rightarrow> string \<times> errc \<times> 'w::len word" where
  "from_chars s =
     (let ds = takeWhile is_digit s; rest = dropWhile is_digit s
      in if ds = [] then (s, Invalid_argument, 0)
         else if dec_value ds < 2 ^ LENGTH('w) then (rest, Errc_ok, of_nat (dec_value ds))
         else (rest, Result_out_of_range, 0))"

section \<open>Strings with separators\<close>

fun join_with :: "char \<Rightarrow> string list \<Rightarrow> string" where
  "join_with sep [] = []"
| "join_with sep [x] = x"
| "join_with sep (x # y # zs) = x @ sep # join_with sep (y # zs)"

text \<open>The part of a string before the first separator and the part behind it.\<close>

definition before :: "char \<Rightarrow> string \<Rightarrow> string" where
  "before sep s = takeWhile (\<lambda>c. c \<noteq> sep) s"

definition behind :: "char \<Rightarrow> string \<Rightarrow> string" where
  "behind sep s = tl (dropWhile (\<lambda>c. c \<noteq> sep) s)"

abbreviation nl :: char where "nl \<equiv> CHR 0x0A"
abbreviation cr :: char where "cr \<equiv> CHR 0x0D"

definition starts_with :: "string \<Rightarrow> string \<Rightarrow> bool" where
  "starts_with s p \<longleftrightarrow> take (length p) s = p"

section \<open>Input streams\<close>

text \<open>
  A \<^verbatim>\<open>std::ifstream\<close>: the bytes not read yet, whether the device fails behind them
  instead of reporting the end of the file, and the stream's state bits.
\<close>

record ifstream =
  in_data :: bytes
  in_fault :: bool
  eofbit :: bool
  failbit :: bool
  badbit :: bool

text \<open>\<^verbatim>\<open>operator bool\<close> of a stream.\<close>

definition stream_ok :: "ifstream \<Rightarrow> bool" where
  "stream_ok i \<longleftrightarrow> \<not> failbit i \<and> \<not> badbit i"

definition stream_good :: "ifstream \<Rightarrow> bool" where
  "stream_good i \<longleftrightarrow> stream_ok i \<and> \<not> eofbit i"

text \<open>
  \<^verbatim>\<open>istream::read(buffer, n)\<close>: the bytes stored (their number is \<^verbatim>\<open>gcount\<close>) and the
  stream after the call. A short read sets the end-of-file and fail bits, a device error the
  bad bit; on a stream that is not good nothing is read and the fail bit is set.
\<close>

definition stream_read :: "ifstream \<Rightarrow> nat \<Rightarrow> bytes \<times> ifstream" where
  "stream_read i n =
     (if \<not> stream_good i then ([], i\<lparr>failbit := True\<rparr>)
      else if n \<le> length (in_data i) then (take n (in_data i), i\<lparr>in_data := drop n (in_data i)\<rparr>)
      else (in_data i,
            if in_fault i then i\<lparr>in_data := [], badbit := True\<rparr>
            else i\<lparr>in_data := [], eofbit := True, failbit := True\<rparr>))"

text \<open>
  \<^verbatim>\<open>std::getline\<close>: the line (\<open>None\<close> where the stream converts to false afterwards) and
  the stream after the call.
\<close>

definition stream_getline :: "ifstream \<Rightarrow> string option \<times> ifstream" where
  "stream_getline i =
     (if \<not> stream_good i then (None, i\<lparr>failbit := True\<rparr>)
      else if nl \<in> set (in_data i)
        then (Some (before nl (in_data i)), i\<lparr>in_data := behind nl (in_data i)\<rparr>)
      else if in_fault i then (None, i\<lparr>in_data := [], badbit := True\<rparr>)
      else if in_data i = [] then (None, i\<lparr>eofbit := True, failbit := True\<rparr>)
      else (Some (in_data i), i\<lparr>in_data := [], eofbit := True\<rparr>))"

text \<open>
  \<^verbatim>\<open>istream::seekg\<close> to an absolute position of a stream that was just opened or cleared; the
  position is a \<^verbatim>\<open>std::streamoff\<close>, a signed 64-bit number, and a negative one fails.
\<close>

definition stream_seek :: "ifstream \<Rightarrow> u64 \<Rightarrow> ifstream" where
  "stream_seek i offset =
     (if unat offset \<ge> 2 ^ 63 then i\<lparr>failbit := True\<rparr> else i\<lparr>in_data := drop (unat offset) (in_data i)\<rparr>)"

definition stream_of :: "bytes \<Rightarrow> ifstream" where
  "stream_of d = \<lparr>in_data = d, in_fault = False, eofbit = False, failbit = False, badbit = False\<rparr>"

section \<open>Files\<close>

text \<open>
  The file system is a map from paths to nodes, with the paths that cannot be opened for
  reading and the offset at which reading a file fails, where the device is faulty. For each
  file, \<open>unsynced\<close> has the positions of the bytes that were changed since the last \<^verbatim>\<open>fsync\<close>: the
  process reads them back, but they are lost when the power fails.
\<close>

datatype node = Regular bytes | Directory | Special

record fs =
  nodes :: "path \<Rightarrow> node option"
  unreadable :: "path \<Rightarrow> bool"
  fault_at :: "path \<Rightarrow> nat option"
  unsynced :: "path \<Rightarrow> nat set"

definition fs_exists :: "fs \<Rightarrow> path \<Rightarrow> bool" where
  "fs_exists f p \<longleftrightarrow> nodes f p \<noteq> None"

definition is_regular_file :: "fs \<Rightarrow> path \<Rightarrow> bool" where
  "is_regular_file f p \<longleftrightarrow> (\<exists>d. nodes f p = Some (Regular d))"

definition file_data :: "fs \<Rightarrow> path \<Rightarrow> bytes" where
  "file_data f p = (case nodes f p of Some (Regular d) \<Rightarrow> d | _ \<Rightarrow> [])"

text \<open>\<^verbatim>\<open>std::filesystem::file_size\<close> of a regular file, a \<^verbatim>\<open>std::uintmax_t\<close>.\<close>

definition file_size :: "fs \<Rightarrow> path \<Rightarrow> u64" where
  "file_size f p = of_nat (length (file_data f p))"

text \<open>
  Opening an input stream fails on a missing or unreadable path. A directory can be opened,
  but reading it fails.
\<close>

definition open_in :: "fs \<Rightarrow> path \<Rightarrow> ifstream option" where
  "open_in f p =
     (case nodes f p of
        None \<Rightarrow> None
      | Some (Regular d) \<Rightarrow>
          if unreadable f p then None
          else (case fault_at f p of
                  None \<Rightarrow> Some (stream_of d)
                | Some k \<Rightarrow> Some ((stream_of (take k d))\<lparr>in_fault := True\<rparr>))
      | Some Directory \<Rightarrow> if unreadable f p then None else Some ((stream_of [])\<lparr>in_fault := True\<rparr>)
      | Some Special \<Rightarrow> None)"

text \<open>\<^verbatim>\<open>path::filename\<close> and \<^verbatim>\<open>operator/\<close> of a relative right operand.\<close>

definition path_filename :: "path \<Rightarrow> string" where
  "path_filename p = rev (takeWhile (\<lambda>c. c \<noteq> CHR ''/'') (rev p))"

definition path_append :: "path \<Rightarrow> string \<Rightarrow> path" where
  "path_append p s = (if path_filename p = [] then p @ s else p @ CHR ''/'' # s)"

text \<open>\<^verbatim>\<open>path::parent_path\<close> and \<^verbatim>\<open>create_directories\<close>, which makes every missing prefix a directory.\<close>

definition path_parent :: "path \<Rightarrow> path" where
  "path_parent p =
     (let d = take (length p - length (path_filename p)) p;
          stem = rev (dropWhile (\<lambda>c. c = CHR ''/'') (rev d))
      in if stem = [] \<and> d \<noteq> [] then ''/'' else stem)"

definition dir_prefixes :: "path \<Rightarrow> path list" where
  "dir_prefixes p =
     filter (\<lambda>q. length q = length p \<or> p ! length q = CHR ''/'')
       (map (\<lambda>k. take k p) [1 ..< Suc (length p)])"

definition create_directories :: "fs \<Rightarrow> path \<Rightarrow> fs" where
  "create_directories f p =
     f\<lparr>nodes := (\<lambda>q. if nodes f q = None \<and> q \<in> set (dir_prefixes p) then Some Directory else nodes f q)\<rparr>"

text \<open>The positions at which two contents differ, those past the end of the shorter one included.\<close>

definition changed_bytes :: "bytes \<Rightarrow> bytes \<Rightarrow> nat set" where
  "changed_bytes d d' =
     set (filter (\<lambda>k. length d \<le> k \<or> length d' \<le> k \<or> d ! k \<noteq> d' ! k) [0 ..< max (length d) (length d')])"

text \<open>The contents of a file replaced, and \<^verbatim>\<open>fsync\<close> of it.\<close>

definition write_node :: "fs \<Rightarrow> path \<Rightarrow> bytes \<Rightarrow> fs" where
  "write_node f p d =
     f\<lparr>nodes := (nodes f)(p \<mapsto> Regular d),
       unsynced := (unsynced f)(p := unsynced f p \<union> changed_bytes (file_data f p) d)\<rparr>"

definition sync_node :: "fs \<Rightarrow> path \<Rightarrow> fs" where
  "sync_node f p = f\<lparr>unsynced := (unsynced f)(p := {})\<rparr>"

text \<open>The line terminator of text files: one carriage return at the end of a line is dropped.\<close>

definition strip_cr :: "string \<Rightarrow> string" where
  "strip_cr line = (if line \<noteq> [] \<and> last line = cr then butlast line else line)"

section \<open>Lemmas on results\<close>

lemma rbind_Inl [simp, result_simps]: "rbind (Inl e) f = Inl e"
  by (simp add: rbind_def)

lemma rbind_Inr [simp, result_simps]: "rbind (Inr x) f = f x"
  by (simp add: rbind_def)

lemma rbind_eq_Inr [result_simps]: "rbind r f = Inr y \<longleftrightarrow> (\<exists>x. r = Inr x \<and> f x = Inr y)"
  by (cases r) simp_all

lemma rbind_eq_Inl [result_simps]:
  "rbind r f = Inl e \<longleftrightarrow> r = Inl e \<or> (\<exists>x. r = Inr x \<and> f x = Inl e)"
  by (cases r) simp_all

lemma rbind_assoc: "rbind (rbind r f) g = rbind r (\<lambda>x. rbind (f x) g)"
  by (cases r) simp_all

lemma rfold_append: "rfold body (xs @ ys) s = rbind (rfold body xs s) (rfold body ys)"
proof (induction xs arbitrary: s)
  case (Cons x xs)
  then show ?case by (cases "body x s") simp_all
qed simp

section \<open>Lemmas on indexes\<close>

lemma map_unat_of_nat: "\<forall>k\<in>set ks. k < 2 ^ 32 \<Longrightarrow> map unat (map of_nat ks :: u32 list) = ks"
  by (induction ks) (simp_all add: unat_of_nat take_bit_nat_eq_self)

lemma sorted_map_unat: "sorted (map unat ws) \<longleftrightarrow> sorted (ws :: 'w::len word list)"
  by (induction ws) (auto simp: word_le_nat_alt)

lemma inj_unat: "inj (unat :: 'w::len word \<Rightarrow> nat)"
  by (auto simp: inj_def word_unat_eq_iff)

lemma distinct_map_unat: "distinct (map unat ws) \<longleftrightarrow> distinct (ws :: 'w::len word list)"
  by (auto simp: distinct_map inj_on_def word_unat_eq_iff)

section \<open>Lemmas on decimal numbers\<close>

lemma of_char_digit [simp]: "n < 10 \<Longrightarrow> of_char (digit n) = (48 + n :: nat)"
  by (simp add: digit_def)

lemma digit_simps:
  "digit 0 = CHR ''0''" "digit (Suc 0) = CHR ''1''" "digit 1 = CHR ''1''" "digit 2 = CHR ''2''"
  "digit 3 = CHR ''3''" "digit 4 = CHR ''4''" "digit 5 = CHR ''5''" "digit 6 = CHR ''6''"
  "digit 7 = CHR ''7''" "digit 8 = CHR ''8''" "digit 9 = CHR ''9''"
  by code_simp+

lemma is_digit_digit [simp]: "n < 10 \<Longrightarrow> is_digit (digit n)"
  by (simp add: is_digit_def)

lemma digit_value_digit [simp]: "n < 10 \<Longrightarrow> digit_value (digit n) = n"
  by (simp add: digit_value_def)

lemma dec_value_Nil [simp]: "dec_value [] = 0"
  by (simp add: dec_value_def)

lemma dec_value_snoc [simp]: "dec_value (s @ [c]) = 10 * dec_value s + digit_value c"
  by (simp add: dec_value_def)

lemma dec_nonempty [simp]: "dec n \<noteq> []"
  by (subst dec.simps) simp

lemma dec_digits [simp]: "list_all is_digit (dec n)"
proof (induction n rule: dec.induct)
  case (1 n)
  then show ?case by (subst dec.simps) (simp add: list_all_append)
qed

lemma dec_value_dec [simp]: "dec_value (dec n) = n"
proof (induction n rule: dec.induct)
  case (1 n)
  show ?case
  proof (cases "n < 10")
    case True
    then show ?thesis
      using dec_value_snoc [of "[]" "digit n"] by (subst dec.simps) simp
  next
    case False
    with 1 show ?thesis by (subst dec.simps) simp
  qed
qed

lemma dec_inject [simp]: "dec m = dec n \<longleftrightarrow> m = n"
  by (metis dec_value_dec)

lemma is_digit_not_sep [simp]:
  "\<not> is_digit CHR '',''" "\<not> is_digit CHR '' ''" "\<not> is_digit nl" "\<not> is_digit cr"
  "\<not> is_digit CHR ''n''" "\<not> is_digit CHR ''a''"
  by (simp_all add: is_digit_def)

lemma list_all_not_in: "list_all P s \<Longrightarrow> \<not> P c \<Longrightarrow> c \<notin> set s"
  by (auto simp: list_all_iff)

lemma dec_no_sep [simp]:
  "CHR '','' \<notin> set (dec n)" "CHR '' '' \<notin> set (dec n)" "nl \<notin> set (dec n)" "cr \<notin> set (dec n)"
  by (rule list_all_not_in [OF dec_digits]; simp)+

lemma from_chars_complete:
  "from_chars s = ([], Errc_ok, w :: 'w::len word) \<longleftrightarrow>
     s \<noteq> [] \<and> list_all is_digit s \<and> dec_value s = unat w"
  (is "?L \<longleftrightarrow> ?R")
proof
  assume L: ?L
  then have rest: "dropWhile is_digit s = []" and ne: "takeWhile is_digit s \<noteq> []"
    and val: "dec_value (takeWhile is_digit s) < 2 ^ LENGTH('w)"
      "w = of_nat (dec_value (takeWhile is_digit s))"
    by (auto simp: from_chars_def Let_def split: if_splits)
  from rest have all: "list_all is_digit s" by (simp add: list_all_iff)
  then have "takeWhile is_digit s = s" by (simp add: list_all_iff)
  with ne val all show ?R by (simp add: unat_of_nat take_bit_nat_eq_self)
next
  assume R: ?R
  then have tw: "takeWhile is_digit s = s" and dw: "dropWhile is_digit s = []"
    by (simp_all add: list_all_iff)
  have "unat w < 2 ^ LENGTH('w)" by (rule unsigned_less)
  with R show ?L unfolding from_chars_def Let_def tw dw by simp
qed

section \<open>The contract of the number parsers\<close>

text \<open>
  The source has four copies of the same parser of an unsigned decimal number (manifest,
  resume state, wire protocol, command line), each with its own messages. What their
  clients rely on: a string parses to \<open>w\<close> exactly if it is a non-empty run of digits
  whose value is \<open>w\<close>; it is an error otherwise.
\<close>

locale unsigned_parser =
  fixes parse :: "string \<Rightarrow> string \<Rightarrow> 'w::len word result"
  assumes parse_Inr: "parse s field = Inr w \<longleftrightarrow> s \<noteq> [] \<and> list_all is_digit s \<and> dec_value s = unat w"
begin

lemma parse_dec_unat [simp]: "parse (dec (unat w)) field = Inr w"
  by (simp add: parse_Inr)

lemma parse_dec: "n < 2 ^ LENGTH('w) \<Longrightarrow> parse (dec n) field = Inr (of_nat n)"
  by (simp add: parse_Inr unat_of_nat take_bit_nat_eq_self)

lemma parse_no_sep: "parse s field = Inr w \<Longrightarrow> \<not> is_digit c \<Longrightarrow> c \<notin> set s"
  by (auto simp: parse_Inr list_all_iff)

lemma parse_rejects: "\<not> list_all is_digit s \<or> s = [] \<Longrightarrow> \<exists>e. parse s field = Inl e"
  using parse_Inr by (cases "parse s field") blast+

lemma parse_overflow: "2 ^ LENGTH('w) \<le> dec_value s \<Longrightarrow> \<exists>e. parse s field = Inl e"
proof (cases "parse s field")
  case (Inr w)
  then have "dec_value s = unat w" by (simp add: parse_Inr)
  also have "\<dots> < 2 ^ LENGTH('w)" by (rule unsigned_less)
  finally show "2 ^ LENGTH('w) \<le> dec_value s \<Longrightarrow> ?thesis" by simp
qed blast

end

section \<open>Lemmas on separators and lines\<close>

lemma before_append [simp]: "sep \<notin> set x \<Longrightarrow> before sep (x @ sep # y) = x"
  by (induction x) (auto simp: before_def)

lemma before_none [simp]: "sep \<notin> set x \<Longrightarrow> before sep x = x"
  by (auto simp: before_def)

lemma behind_append [simp]: "sep \<notin> set x \<Longrightarrow> behind sep (x @ sep # y) = y"
  by (induction x) (auto simp: behind_def)

lemma before_behind: "sep \<in> set s \<Longrightarrow> s = before sep s @ sep # behind sep s"
proof -
  assume "sep \<in> set s"
  then have ne: "dropWhile (\<lambda>c. c \<noteq> sep) s \<noteq> []" by auto
  then have "hd (dropWhile (\<lambda>c. c \<noteq> sep) s) = sep" using hd_dropWhile [OF ne] by simp
  with ne have "dropWhile (\<lambda>c. c \<noteq> sep) s = sep # behind sep s"
    by (metis behind_def list.collapse)
  then show ?thesis by (metis before_def takeWhile_dropWhile_id)
qed

lemma before_no_sep [simp]: "sep \<notin> set (before sep s)"
  by (auto simp: before_def dest: set_takeWhileD)

lemma length_behind: "sep \<in> set s \<Longrightarrow> length (behind sep s) < length s"
  by (subst (2) before_behind) auto

lemma join_with_Cons: "xs \<noteq> [] \<Longrightarrow> join_with sep (x # xs) = x @ sep # join_with sep xs"
  by (cases xs) simp_all

lemma join_with_snoc: "xs \<noteq> [] \<Longrightarrow> join_with sep (xs @ [x]) = join_with sep xs @ sep # x"
  by (induction sep xs rule: join_with.induct) simp_all

lemma join_with_nonempty: "xs \<noteq> [] \<Longrightarrow> [] \<notin> set xs \<Longrightarrow> join_with sep xs \<noteq> []"
  by (induction sep xs rule: join_with.induct) auto

lemma set_join_with: "set (join_with sep xs) \<subseteq> insert sep (\<Union> (set ` set xs))"
  by (induction sep xs rule: join_with.induct) auto

lemma join_with_append:
  "xs \<noteq> [] \<Longrightarrow> ys \<noteq> [] \<Longrightarrow> join_with sep (xs @ ys) = join_with sep xs @ sep # join_with sep ys"
  by (induction sep xs rule: join_with.induct) (auto simp: join_with_Cons)

text \<open>A line of an input stream whose next newline is known.\<close>

lemma stream_getline_line [simp]:
  "stream_good i \<Longrightarrow> in_data i = l @ nl # rest \<Longrightarrow> nl \<notin> set l \<Longrightarrow>
     stream_getline i = (Some l, i\<lparr>in_data := rest\<rparr>)"
  by (simp add: stream_getline_def)

lemma stream_good_of [simp]: "stream_good (stream_of d)"
  by (simp add: stream_good_def stream_ok_def stream_of_def)

lemma stream_good_data [simp]: "stream_good (i\<lparr>in_data := d\<rparr>) \<longleftrightarrow> stream_good i"
  by (simp add: stream_good_def stream_ok_def)

lemma in_data_stream_of [simp]: "in_data (stream_of d) = d"
  by (simp add: stream_of_def)

lemma in_fault_stream_of [simp]: "\<not> in_fault (stream_of d)"
  by (simp add: stream_of_def)

lemma rbind_cong [fundef_cong]:
  "r = r' \<Longrightarrow> (\<And>x. r' = Inr x \<Longrightarrow> f x = g x) \<Longrightarrow> rbind r f = rbind r' g"
  by (cases r') simp_all

lemma starts_with_append [simp]: "starts_with (p @ s) p"
  by (simp add: starts_with_def)

lemma starts_with_field:
  "(let prefix = field @ ''='' in if \<not> starts_with line prefix then throw m else Inr (drop (length prefix) line))
     = Inr v \<longleftrightarrow> line = field @ CHR ''='' # v"
  by (auto simp: Let_def starts_with_def) (metis append.assoc append_Cons append_Nil append_take_drop_id)

section \<open>The contract of the record readers\<close>

text \<open>
  The manifest and the resume state are text files of lines \<open>field=value\<close>, each read by its
  own copy of two functions. Their contract, and the lemma its clients use: reading a
  required field from a stream that starts with its line.
\<close>

locale record_reader =
  fixes read_line :: "ifstream \<Rightarrow> path \<Rightarrow> (string \<times> ifstream) result"
    and require_field :: "string \<Rightarrow> string \<Rightarrow> string result"
  assumes read_line_Inr: "stream_getline i = (Some l, i') \<Longrightarrow> read_line i p = Inr (strip_cr l, i')"
    and read_line_Inl: "stream_getline i = (None, i') \<Longrightarrow> \<exists>e. read_line i p = Inl e"
    and require_field_Inr: "require_field line field = Inr v \<longleftrightarrow> line = field @ CHR ''='' # v"
begin

lemma read_whole_line:
  "stream_good i \<Longrightarrow> in_data i = l @ nl # rest \<Longrightarrow> nl \<notin> set l \<Longrightarrow> cr \<notin> set l \<Longrightarrow>
     read_line i p = Inr (l, i\<lparr>in_data := rest\<rparr>)"
  by (subst read_line_Inr [OF stream_getline_line]) (auto simp: strip_cr_def dest: last_in_set)

lemma read_required_field:
  assumes "stream_good i" and "in_data i = field @ CHR ''='' # v @ nl # rest"
    and "nl \<notin> set field \<union> set v" and "cr \<notin> set field \<union> set v"
  shows "rbind (read_line i p) (\<lambda>(line, i). rbind (require_field line field) (\<lambda>v. Inr (v, i))) =
    Inr (v, i\<lparr>in_data := rest\<rparr>)"
proof -
  have "read_line i p = Inr (field @ CHR ''='' # v, i\<lparr>in_data := rest\<rparr>)"
    using assms by (intro read_whole_line) auto
  moreover have "require_field (field @ CHR ''='' # v) field = Inr v"
    by (simp add: require_field_Inr)
  ultimately show ?thesis by simp
qed

lemma read_at_end: "stream_good i \<Longrightarrow> in_data i = [] \<Longrightarrow> \<exists>e. read_line i p = Inl e"
  by (cases "stream_getline i") (auto simp: stream_getline_def intro!: read_line_Inl split: if_splits)

end

section \<open>Lists of numbers as text\<close>

text \<open>The text of a chunk list: its members in decimal, separated by commas.\<close>

definition chunk_text :: "u32 list \<Rightarrow> string" where
  "chunk_text cs = join_with CHR '','' (map (\<lambda>c. dec (unat c)) cs)"

lemma chunk_text_simps [simp]:
  "chunk_text [] = []" "chunk_text [c] = dec (unat c)"
  "cs \<noteq> [] \<Longrightarrow> chunk_text (c # cs) = dec (unat c) @ CHR '','' # chunk_text cs"
  by (simp_all add: chunk_text_def join_with_Cons)

lemma chunk_text_nonempty: "cs \<noteq> [] \<Longrightarrow> chunk_text cs \<noteq> []"
  unfolding chunk_text_def by (rule join_with_nonempty) (auto dest: sym)

lemma chunk_text_digit: "cs \<noteq> [] \<Longrightarrow> is_digit (hd (chunk_text cs))"
proof -
  have "is_digit (hd (dec n))" for n
    using dec_digits [of n] dec_nonempty [of n] by (cases "dec n") auto
  then show "cs \<noteq> [] \<Longrightarrow> ?thesis" by (induction cs rule: induct_list012) simp_all
qed

lemma chunk_text_not_word: "cs \<noteq> [] \<Longrightarrow> chunk_text cs \<noteq> ''all''" "cs \<noteq> [] \<Longrightarrow> chunk_text cs \<noteq> ''none''"
  using chunk_text_digit [of cs] by auto

end
