(* ===== verification/Crypto.thy ===== *)
theory Crypto
  imports Swarm_Prelude
begin

text \<open>
  The component \<^verbatim>\<open>src/crypto.cpp\<close>: hexadecimal text, digests and token comparison.
  OpenSSL is not part of the repository: its four message-digest calls are the fields of a
  parameter \<open>evp\<close>, and \<open>evp_computes evp H\<close> is what its documentation promises (the
  calls do not fail and the context absorbs the concatenation of its updates).
\<close>

unbundle bit_operations_syntax

section \<open>Hexadecimal text\<close>

definition kHex :: string where
  "kHex = ''0123456789abcdef''"

definition hex_pair :: "char \<Rightarrow> string" where
  "hex_pair c = [kHex ! (drop_bit 4 (of_char c)), kHex ! (of_char c AND 0x0F)]"

definition hex_encode :: "bytes \<Rightarrow> string" where
  "hex_encode s = concat (map hex_pair s)"

definition nibble :: "char \<Rightarrow> int" where
  "nibble c =
     (if (48 :: int) \<le> of_char c \<and> of_char c \<le> (57 :: int) then of_char c - 48
      else if (97 :: int) \<le> of_char c \<and> of_char c \<le> (102 :: int) then of_char c - 97 + 10
      else if (65 :: int) \<le> of_char c \<and> of_char c \<le> (70 :: int) then of_char c - 65 + 10
      else - 1)"

text \<open>The loop of \<^verbatim>\<open>hex_decode\<close>; the length is even, so a last odd character does not occur.\<close>

fun hex_decode_loop :: "string \<Rightarrow> bytes \<Rightarrow> bytes result" where
  "hex_decode_loop (x # y # rest) decoded =
     (let high = nibble x; low = nibble y
      in if high < 0 \<or> low < 0 then throw ''Hex value contains an invalid character''
         else hex_decode_loop rest (decoded @ [char_of ((push_bit 4 high) OR low)]))"
| "hex_decode_loop _ decoded = Inr decoded"

definition hex_decode :: "string \<Rightarrow> bytes result" where
  "hex_decode s =
     (if length s mod 2 \<noteq> 0 then throw ''Hex value must contain complete bytes''
      else hex_decode_loop s [])"

section \<open>SHA-256 over OpenSSL\<close>

record 'c evp =
  EVP_MD_CTX_new :: "'c option"
  EVP_DigestInit_ex :: "'c \<Rightarrow> 'c option"
  EVP_DigestUpdate :: "'c \<Rightarrow> bytes \<Rightarrow> 'c option"
  EVP_DigestFinal_ex :: "'c \<Rightarrow> bytes option"

definition new_digest_context :: "'c evp \<Rightarrow> 'c result" where
  "new_digest_context evp =
     (case EVP_MD_CTX_new evp of
        None \<Rightarrow> throw ''Unable to allocate SHA-256 context''
      | Some c \<Rightarrow>
          (case EVP_DigestInit_ex evp c of
             None \<Rightarrow> throw ''Unable to initialize SHA-256 context''
           | Some c' \<Rightarrow> Inr c'))"

definition update_digest :: "'c evp \<Rightarrow> 'c \<Rightarrow> bytes \<Rightarrow> 'c result" where
  "update_digest evp c b =
     (if length b \<noteq> 0
      then (case EVP_DigestUpdate evp c b of
              None \<Rightarrow> throw ''Unable to update SHA-256 digest''
            | Some c' \<Rightarrow> Inr c')
      else Inr c)"

definition finish_digest :: "'c evp \<Rightarrow> 'c \<Rightarrow> string result" where
  "finish_digest evp c =
     (case EVP_DigestFinal_ex evp c of
        None \<Rightarrow> throw ''Unable to finalize SHA-256 digest''
      | Some digest \<Rightarrow>
          if length digest \<noteq> 32 then throw ''Unable to finalize SHA-256 digest''
          else Inr (concat (map hex_pair digest)))"

definition sha256_hex :: "'c evp \<Rightarrow> bytes \<Rightarrow> string result" where
  "sha256_hex evp b =
     rbind (new_digest_context evp) (\<lambda>context.
     rbind (update_digest evp context b) (\<lambda>context.
     finish_digest evp context))"

definition hash_buffer_size :: nat where
  "hash_buffer_size = 64 * 1024"

text \<open>The read loop of \<^verbatim>\<open>sha256_file\<close>, from an open stream to the context and the stream at its end.\<close>

function hash_stream :: "'c evp \<Rightarrow> 'c \<Rightarrow> ifstream \<Rightarrow> ('c \<times> ifstream) result" where
  "hash_stream evp c i =
     (if \<not> stream_ok i then Inr (c, i)
      else let (buffer, i') = stream_read i hash_buffer_size
           in if length buffer > 0
              then rbind (update_digest evp c buffer) (\<lambda>c'. hash_stream evp c' i')
              else hash_stream evp c i')"
  by pat_completeness auto
termination
  by (relation "measure (\<lambda>(evp, c, i). length (in_data i) + (if stream_ok i then 1 else 0))")
    (auto simp: stream_read_def stream_ok_def stream_good_def hash_buffer_size_def split: if_splits)

declare hash_stream.simps [simp del]

definition sha256_file :: "'c evp \<Rightarrow> fs \<Rightarrow> path \<Rightarrow> string result" where
  "sha256_file evp f p =
     (case open_in f p of
        None \<Rightarrow> throw (''Unable to open file for hashing: '' @ p)
      | Some input \<Rightarrow>
          rbind (new_digest_context evp) (\<lambda>context.
          rbind (hash_stream evp context input) (\<lambda>(context, input).
          if \<not> eofbit input then throw (''Unable to read file while hashing: '' @ p)
          else finish_digest evp context)))"

definition is_lower_hex :: "char \<Rightarrow> bool" where
  "is_lower_hex c \<longleftrightarrow>
     ((48::nat) \<le> of_char c \<and> of_char c \<le> (57::nat)) \<or> ((97::nat) \<le> of_char c \<and> of_char c \<le> (102::nat))"

definition is_sha256_hex :: "string \<Rightarrow> bool" where
  "is_sha256_hex s \<longleftrightarrow> length s = 64 \<and> list_all is_lower_hex s"

section \<open>Token comparison\<close>

text \<open>\<^verbatim>\<open>std::size_t\<close> is a 64-bit word; \<open>token_byte s i\<close> is the byte the loop reads at \<open>i\<close>.\<close>

definition token_byte :: "string \<Rightarrow> nat \<Rightarrow> 8 word" where
  "token_byte s i = (if i < length s then of_char (s ! i) else 0)"

fun token_difference :: "string \<Rightarrow> string \<Rightarrow> nat list \<Rightarrow> u64 \<Rightarrow> u64" where
  "token_difference expected supplied [] difference = difference"
| "token_difference expected supplied (index # rest) difference =
     token_difference expected supplied rest
       (difference OR ucast (token_byte expected index XOR token_byte supplied index))"

definition secure_token_equal :: "string \<Rightarrow> string \<Rightarrow> bool" where
  "secure_token_equal expected supplied \<longleftrightarrow>
     token_difference expected supplied [0 ..< max (length expected) (length supplied)]
       (of_nat (length expected) XOR of_nat (length supplied)) = 0"

section \<open>What OpenSSL promises\<close>

text \<open>
  \<open>R c m\<close> relates a context to the bytes it has absorbed. The digest \<open>H\<close> is a
  function of the whole message and has 32 bytes.
\<close>

definition absorbs :: "'c evp \<Rightarrow> (bytes \<Rightarrow> bytes) \<Rightarrow> ('c \<Rightarrow> bytes \<Rightarrow> bool) \<Rightarrow> bool" where
  "absorbs evp H R \<longleftrightarrow>
     (\<forall>c m b. R c m \<longrightarrow> (\<exists>c'. EVP_DigestUpdate evp c b = Some c' \<and> R c' (m @ b))) \<and>
     (\<forall>c m. R c m \<longrightarrow> EVP_DigestFinal_ex evp c = Some (H m))"

definition evp_computes :: "'c evp \<Rightarrow> (bytes \<Rightarrow> bytes) \<Rightarrow> bool" where
  "evp_computes evp H \<longleftrightarrow>
     (\<forall>m. length (H m) = 32) \<and>
     (\<exists>R c0 c1. EVP_MD_CTX_new evp = Some c0 \<and> EVP_DigestInit_ex evp c0 = Some c1 \<and>
        R c1 [] \<and> absorbs evp H R)"

text \<open>
  A concrete instance, for evaluating the definitions on examples: the context is the message
  and the digest the first 32 bytes of the message padded with its length (not a cryptographic hash).
\<close>

definition sample_digest :: "bytes \<Rightarrow> bytes" where
  "sample_digest m = take 32 (m @ replicate 32 (char_of (length m)))"

definition sample_evp :: "bytes evp" where
  "sample_evp = \<lparr>EVP_MD_CTX_new = Some [], EVP_DigestInit_ex = Some,
     EVP_DigestUpdate = (\<lambda>c b. Some (c @ b)), EVP_DigestFinal_ex = (\<lambda>c. Some (sample_digest c))\<rparr>"

lemma sample_evp_computes: "evp_computes sample_evp sample_digest"
  by (auto simp: evp_computes_def absorbs_def sample_evp_def sample_digest_def
      intro!: exI [of _ "\<lambda>c m. c = m"])

section \<open>Lemmas on hexadecimal text\<close>

lemma kHex_table:
  "list_all (\<lambda>n. nibble (kHex ! n) = int n \<and> is_lower_hex (kHex ! n)) [0..<16]"
  by code_simp

lemma nibble_table:
  "list_all (\<lambda>h. list_all (\<lambda>l. (push_bit 4 h) OR l = 16 * h + (l::int)) [0..15]) [0..15]"
  by code_simp

lemma nibble_kHex [simp]: "n < 16 \<Longrightarrow> nibble (kHex ! n) = int n"
  using kHex_table by (simp add: list_all_iff del: upt_rec_numeral)

lemma is_lower_hex_kHex [simp]: "n < 16 \<Longrightarrow> is_lower_hex (kHex ! n)"
  using kHex_table by (simp add: list_all_iff del: upt_rec_numeral)

lemma nibble_combine:
  "0 \<le> h \<Longrightarrow> h < 16 \<Longrightarrow> 0 \<le> l \<Longrightarrow> l < 16 \<Longrightarrow> (push_bit 4 h) OR l = 16 * h + (l::int)"
proof -
  assume "0 \<le> h" "h < 16" "0 \<le> l" "l < 16"
  then have "h \<in> set [0..15]" "l \<in> set [0..15]"
    by (simp_all del: upto_rec_numeral)
  with nibble_table show ?thesis unfolding list_all_iff by blast
qed

lemma hex_pair_eq: "hex_pair c = [kHex ! (of_char c div 16), kHex ! (of_char c mod 16)]"
proof -
  have "(of_char c :: nat) AND 15 = take_bit 4 (of_char c)"
    by (simp add: take_bit_eq_mask mask_eq_exp_minus_1)
  then show ?thesis
    by (simp add: hex_pair_def drop_bit_eq_div take_bit_eq_mod)
qed

lemma hex_pair_lower [simp]: "list_all is_lower_hex (hex_pair c)"
  by (simp add: hex_pair_eq less_mult_imp_div_less)

lemma length_hex_pair [simp]: "length (hex_pair c) = 2"
  by (simp add: hex_pair_def)

lemma hex_encode_simps [simp]:
  "hex_encode [] = []" "hex_encode (c # s) = hex_pair c @ hex_encode s"
  by (simp_all add: hex_encode_def)

lemma length_hex_encode [simp]: "length (hex_encode s) = 2 * length s"
  by (induction s) simp_all

lemma hex_encode_lower [simp]: "list_all is_lower_hex (hex_encode s)"
  by (induction s) (simp_all add: list_all_append)

lemma hex_decode_loop_pair:
  "hex_decode_loop (hex_pair c @ rest) decoded = hex_decode_loop rest (decoded @ [c])"
proof -
  define n where "n = (of_char c :: nat)"
  have n: "n < 256" "n div 16 < 16" "n mod 16 < 16"
    by (simp_all add: n_def less_mult_imp_div_less)
  then have "push_bit 4 (int (n div 16)) OR int (n mod 16) = 16 * int (n div 16) + int (n mod 16)"
    by (intro nibble_combine) simp_all
  also have "\<dots> = int n"
    by (metis mult_div_mod_eq of_nat_add of_nat_mult of_nat_numeral)
  finally have "push_bit 4 (int (n div 16)) OR int (n mod 16) = of_char c"
    by (simp add: n_def of_nat_of_char)
  with n show ?thesis
    by (simp add: hex_pair_eq Let_def flip: n_def)
qed

lemma hex_decode_loop_encode: "hex_decode_loop (hex_encode s) decoded = Inr (decoded @ s)"
  by (induction s arbitrary: decoded) (simp_all add: hex_decode_loop_pair)

lemma hex_encode_inject: "hex_encode a = hex_encode b \<longleftrightarrow> a = b"
  by (metis append_Nil hex_decode_loop_encode sum.inject(2))

lemma is_lower_hex_not_sep [simp]:
  "\<not> is_lower_hex CHR '',''" "\<not> is_lower_hex CHR '' ''" "\<not> is_lower_hex nl" "\<not> is_lower_hex cr"
  by (simp_all add: is_lower_hex_def)

lemma nibble_bounds: "- 1 \<le> nibble c" "nibble c < 16"
  by (simp_all add: nibble_def)

lemma kHex_nibble: "is_lower_hex c \<Longrightarrow> 0 \<le> nibble c \<and> kHex ! nat (nibble c) = c"
proof -
  have tab: "list_all (\<lambda>n. 0 \<le> nibble (char_of n) \<and> kHex ! nat (nibble (char_of n)) = char_of n)
      ([48..<58] @ [97..<103] :: nat list)"
    by code_simp
  assume "is_lower_hex c"
  then have "(of_char c :: nat) \<in> set ([48..<58] @ [97..<103])"
    by (auto simp: is_lower_hex_def simp del: upt_rec_numeral)
  with tab have "0 \<le> nibble (char_of (of_char c :: nat)) \<and>
      kHex ! nat (nibble (char_of (of_char c :: nat))) = char_of (of_char c :: nat)"
    unfolding list_all_iff by blast
  then show ?thesis by simp
qed

lemma hex_pair_combine:
  "is_lower_hex x \<Longrightarrow> is_lower_hex y \<Longrightarrow> hex_pair (char_of (push_bit 4 (nibble x) OR nibble y)) = [x, y]"
proof -
  assume lower: "is_lower_hex x" "is_lower_hex y"
  then have b: "0 \<le> nibble x" "nibble x < 16" "0 \<le> nibble y" "nibble y < 16"
    using kHex_nibble nibble_bounds by auto
  define n where "n = nat (16 * nibble x + nibble y)"
  with b have "push_bit 4 (nibble x) OR nibble y = int n"
    by (simp add: nibble_combine)
  moreover have "n < 256" "n div 16 = nat (nibble x)" "n mod 16 = nat (nibble y)"
    using b by (auto simp: n_def nat_add_distrib nat_mult_distrib)
  ultimately show ?thesis
    using lower kHex_nibble by (simp add: hex_pair_eq)
qed

lemma hex_decode_loop_total:
  "even (length s) \<Longrightarrow>
     (\<exists>d. hex_decode_loop s decoded = Inr d) \<longleftrightarrow> list_all (\<lambda>c. 0 \<le> nibble c) s"
  by (induction s decoded rule: hex_decode_loop.induct) (auto simp: Let_def)

lemma hex_decode_loop_canonical:
  "even (length s) \<Longrightarrow> list_all is_lower_hex s \<Longrightarrow>
     \<exists>d. hex_decode_loop s decoded = Inr (decoded @ d) \<and> hex_encode d = s"
proof (induction s decoded rule: hex_decode_loop.induct)
  case (1 x y rest decoded)
  then have "0 \<le> nibble x" "0 \<le> nibble y" using kHex_nibble by auto
  let ?c = "char_of (push_bit 4 (nibble x) OR nibble y)"
  from 1 obtain d where "hex_decode_loop rest (decoded @ [?c]) = Inr ((decoded @ [?c]) @ d)"
    and "hex_encode d = rest" using \<open>0 \<le> nibble x\<close> \<open>0 \<le> nibble y\<close> by fastforce
  with 1 \<open>0 \<le> nibble x\<close> \<open>0 \<le> nibble y\<close> show ?case using hex_pair_combine [of x y]
    by (auto simp: Let_def intro!: exI [of _ "?c # d"])
qed auto

section \<open>Properties of hexadecimal text\<close>

text \<open>Every byte string survives encoding to hexadecimal text and decoding it again.\<close>

theorem hex_decode_encode: "hex_decode (hex_encode s) = Inr s"
  by (simp add: hex_decode_def hex_decode_loop_encode)

text \<open>
  The decoder accepts exactly the strings of even length made of hexadecimal digits of
  either case, and lower-case text of even length is the encoding of what it decodes to.
\<close>

theorem hex_decode_domain:
  "((\<exists>d. hex_decode s = Inr d) \<longleftrightarrow> even (length s) \<and> list_all (\<lambda>c. 0 \<le> nibble c) s) \<and>
   ((\<exists>d. hex_decode s = Inr d \<and> hex_encode d = s) \<longleftrightarrow> even (length s) \<and> list_all is_lower_hex s)"
proof
  show "(\<exists>d. hex_decode s = Inr d) \<longleftrightarrow> even (length s) \<and> list_all (\<lambda>c. 0 \<le> nibble c) s"
    by (auto simp: hex_decode_def hex_decode_loop_total even_iff_mod_2_eq_zero)
  have "even (length (hex_encode d)) \<and> list_all is_lower_hex (hex_encode d)" for d by simp
  then show "(\<exists>d. hex_decode s = Inr d \<and> hex_encode d = s) \<longleftrightarrow> even (length s) \<and> list_all is_lower_hex s"
    using hex_decode_loop_canonical [of s "[]"]
    by (auto simp: hex_decode_def even_iff_mod_2_eq_zero)
qed

section \<open>Properties of the token comparison\<close>

lemma word_xor_eq_0: "x XOR y = 0 \<longleftrightarrow> x = (y :: 'w::len word)"
  by (metis xor.assoc xor.left_neutral xor_self_eq xor.right_neutral)

lemma ucast_byte_eq_0: "(ucast (w :: 8 word) :: u64) = 0 \<longleftrightarrow> w = 0"
proof -
  have "unat w < 2 ^ 8" using unsigned_less [of w] by simp
  then have "unat (ucast w :: u64) = unat w"
    by (simp add: unsigned_ucast_eq take_bit_nat_eq_self)
  then show ?thesis by (metis unsigned_0 unsigned_word_eqI)
qed

lemma token_difference_zero:
  "token_difference e s is d = 0 \<longleftrightarrow> d = 0 \<and> (\<forall>i \<in> set is. token_byte e i = token_byte s i)"
proof (induction "is" arbitrary: d)
  case (Cons i "is")
  have "(ucast (token_byte e i XOR token_byte s i) :: u64) = 0 \<longleftrightarrow> token_byte e i = token_byte s i"
    by (simp only: ucast_byte_eq_0 word_xor_eq_0)
  with Cons show ?case by (auto simp: or_eq_0_iff)
qed simp

lemma token_byte_eq_iff:
  "i < length e \<Longrightarrow> i < length s \<Longrightarrow> token_byte e i = token_byte s i \<longleftrightarrow> e ! i = s ! i"
proof -
  have "unat (of_char c :: 8 word) = of_char c" for c :: char
    by (subst of_nat_of_char [symmetric]) (simp add: unat_of_nat take_bit_nat_eq_self)
  then have "(of_char c :: 8 word) = of_char d \<longleftrightarrow> c = d" for c d :: char
    by (metis of_char_eq_iff)
  then show "i < length e \<Longrightarrow> i < length s \<Longrightarrow> ?thesis" by (simp add: token_byte_def)
qed

lemma secure_token_equal_iff:
  assumes "length expected < 2 ^ 64" and "length supplied < 2 ^ 64"
  shows "secure_token_equal expected supplied \<longleftrightarrow> expected = supplied"
proof -
  have len: "(of_nat (length expected) XOR of_nat (length supplied) :: u64) = 0 \<longleftrightarrow>
      length expected = length supplied"
    using assms by (simp add: word_xor_eq_0 word_of_nat_eq_iff take_bit_nat_eq_self)
  show ?thesis
  proof
    assume "secure_token_equal expected supplied"
    then have "length expected = length supplied"
      and "\<forall>i < length expected. token_byte expected i = token_byte supplied i"
      using len by (auto simp: secure_token_equal_def token_difference_zero)
    then show "expected = supplied"
      by (auto simp: list_eq_iff_nth_eq token_byte_eq_iff)
  qed (simp add: secure_token_equal_def token_difference_zero)
qed

text \<open>
  The comparison that reads every byte of the longer token is equality: it accepts the
  supplied token exactly if it is the expected one. Lengths are below \<open>2 ^ 64\<close>, as every
  \<^verbatim>\<open>std::string\<close> of the platform is.
\<close>

theorem secure_token_equal_correct:
  assumes "length expected < 2 ^ 64" and "length supplied < 2 ^ 64"
  shows "secure_token_equal expected supplied \<longleftrightarrow> expected = supplied"
  using assms by (rule secure_token_equal_iff)

theorem secure_token_equal_correct_witness:
  "length ''private-token'' < 2 ^ 64 \<and> length ''private-token-2'' < 2 ^ 64 \<and>
   (secure_token_equal ''private-token'' ''private-token-2'' \<longleftrightarrow> ''private-token'' = ''private-token-2'')"
  using secure_token_equal_correct [of "''private-token''" "''private-token-2''"] by simp

section \<open>Properties of the digests\<close>

lemma finish_digest_is_sha256_hex: "finish_digest evp c = Inr h \<Longrightarrow> is_sha256_hex h"
  using hex_encode_lower length_hex_encode
  by (auto simp: finish_digest_def is_sha256_hex_def simp flip: hex_encode_def
      split: option.splits if_splits)

text \<open>
  C31. Whatever OpenSSL returns, a digest the program computes (of bytes in memory or of a
  file) is 64 lower-case hexadecimal digits, the form the manifest and the wire protocol
  require; anything else is an error.
\<close>

theorem digest_is_sha256_hex:
  "(\<forall>h. sha256_hex evp b = Inr h \<longrightarrow> is_sha256_hex h) \<and>
   (\<forall>h. sha256_file evp f p = Inr h \<longrightarrow> is_sha256_hex h)"
  by (auto simp: sha256_hex_def sha256_file_def result_simps finish_digest_is_sha256_hex
      split: option.splits if_splits)

theorem digest_is_sha256_hex_witness:
  "sha256_hex sample_evp ''abc'' = Inr (hex_encode (sample_digest ''abc'')) \<and>
   is_sha256_hex (hex_encode (sample_digest ''abc''))"
proof -
  have "sha256_hex sample_evp ''abc'' = Inr (hex_encode (sample_digest ''abc''))"
    by (simp add: sha256_hex_def new_digest_context_def update_digest_def finish_digest_def
        sample_evp_def sample_digest_def hex_encode_def)
  then show ?thesis using digest_is_sha256_hex [of sample_evp "''abc''"] by blast
qed

lemma update_digest_computes:
  assumes R: "absorbs evp H R" and c: "R c m"
  shows "\<exists>c'. update_digest evp c b = Inr c' \<and> R c' (m @ b)"
proof (cases "length b = 0")
  case True
  with c show ?thesis by (simp add: update_digest_def)
next
  case False
  from R c obtain c' where "EVP_DigestUpdate evp c b = Some c'" "R c' (m @ b)"
    unfolding absorbs_def by blast
  with False show ?thesis by (simp add: update_digest_def)
qed

lemma finish_digest_computes:
  "absorbs evp H R \<Longrightarrow> R c m \<Longrightarrow> length (H m) = 32 \<Longrightarrow> finish_digest evp c = Inr (hex_encode (H m))"
  by (simp add: finish_digest_def absorbs_def hex_encode_def)

lemma evp_computesE:
  assumes "evp_computes evp H"
  obtains R c where "new_digest_context evp = Inr c" "R c []" "absorbs evp H R"
    "\<forall>m. length (H m) = 32"
  using assms by (auto simp: evp_computes_def new_digest_context_def)

lemma hash_stream_stop: "\<not> stream_ok i \<Longrightarrow> hash_stream evp c i = Inr (c, i)"
  by (simp add: hash_stream.simps)

lemma hash_stream_last:
  assumes "stream_good i" and "length (in_data i) < hash_buffer_size"
  shows "hash_stream evp c i =
    rbind (update_digest evp c (in_data i)) (\<lambda>c'. Inr (c',
      if in_fault i then i\<lparr>in_data := [], badbit := True\<rparr>
      else i\<lparr>in_data := [], eofbit := True, failbit := True\<rparr>))"
  using assms
  by (subst hash_stream.simps)
    (auto simp: stream_read_def hash_stream_stop stream_ok_def stream_good_def update_digest_def)

lemma hash_stream_block:
  assumes "stream_good i" and "hash_buffer_size \<le> length (in_data i)"
  shows "hash_stream evp c i =
    rbind (update_digest evp c (take hash_buffer_size (in_data i))) (\<lambda>c'.
      hash_stream evp c' (i\<lparr>in_data := drop hash_buffer_size (in_data i)\<rparr>))"
  using assms
  by (subst hash_stream.simps)
    (auto simp: stream_read_def stream_good_def hash_buffer_size_def)

text \<open>At the end of the read loop everything has been absorbed and end of file was seen.\<close>

lemma hash_stream_computes:
  assumes upd: "absorbs evp H R"
  shows "stream_good i \<Longrightarrow> \<not> in_fault i \<Longrightarrow> R c m \<Longrightarrow>
    \<exists>c' i'. hash_stream evp c i = Inr (c', i') \<and> eofbit i' \<and> R c' (m @ in_data i)"
proof (induction "length (in_data i)" arbitrary: i c m rule: less_induct)
  case less
  let ?n = hash_buffer_size and ?d = "in_data i"
  show ?case
  proof (cases "?n \<le> length ?d")
    case True
    let ?i = "i\<lparr>in_data := drop ?n ?d\<rparr>"
    obtain c1 where c1: "update_digest evp c (take ?n ?d) = Inr c1" "R c1 (m @ take ?n ?d)"
      using update_digest_computes [OF upd \<open>R c m\<close>] by blast
    have "length (in_data ?i) < length ?d" using True by (simp add: hash_buffer_size_def)
    then obtain c' i' where "hash_stream evp c1 ?i = Inr (c', i')" "eofbit i'"
        "R c' ((m @ take ?n ?d) @ drop ?n ?d)"
      using less.hyps [of ?i c1 "m @ take ?n ?d"] less.prems c1 by auto
    with True c1 less.prems show ?thesis by (simp add: hash_stream_block)
  next
    case False
    obtain c1 where "update_digest evp c ?d = Inr c1" "R c1 (m @ ?d)"
      using update_digest_computes [OF upd \<open>R c m\<close>] by blast
    with False less.prems show ?thesis by (simp add: hash_stream_last)
  qed
qed

lemma hash_stream_total:
  assumes R: "absorbs evp H R"
  shows "stream_good i \<Longrightarrow> R c m \<Longrightarrow> \<exists>c' i'. hash_stream evp c i = Inr (c', i')"
proof (induction "length (in_data i)" arbitrary: i c m rule: less_induct)
  case less
  obtain c1 where c1: "update_digest evp c (take hash_buffer_size (in_data i)) = Inr c1"
      "R c1 (m @ take hash_buffer_size (in_data i))"
    using update_digest_computes [OF R less.prems(2)] by blast
  show ?case
  proof (cases "hash_buffer_size \<le> length (in_data i)")
    case True
    then have "length (in_data (i\<lparr>in_data := drop hash_buffer_size (in_data i)\<rparr>)) < length (in_data i)"
      by (simp add: hash_buffer_size_def)
    with less.hyps [OF this] less.prems c1 True show ?thesis
      by (auto simp: hash_stream_block)
  next
    case False
    with c1 less.prems show ?thesis by (simp add: hash_stream_last)
  qed
qed

lemma hash_stream_fault:
  "stream_good i \<Longrightarrow> in_fault i \<Longrightarrow> hash_stream evp c i = Inr (c', i') \<Longrightarrow> \<not> eofbit i'"
proof (induction "length (in_data i)" arbitrary: i c rule: less_induct)
  case less
  show ?case
  proof (cases "hash_buffer_size \<le> length (in_data i)")
    case True
    with less.prems obtain c1 where
      "hash_stream evp c1 (i\<lparr>in_data := drop hash_buffer_size (in_data i)\<rparr>) = Inr (c', i')"
      by (auto simp: hash_stream_block result_simps)
    moreover have "length (in_data (i\<lparr>in_data := drop hash_buffer_size (in_data i)\<rparr>)) < length (in_data i)"
      using True by (simp add: hash_buffer_size_def)
    ultimately show ?thesis using less.hyps less.prems by fastforce
  next
    case False
    with less.prems show ?thesis
      by (auto simp: hash_stream_last result_simps stream_good_def)
  qed
qed

lemma sha256_hex_computes:
  assumes evp: "evp_computes evp H"
  shows "sha256_hex evp b = Inr (hex_encode (H b))"
proof -
  obtain R c where c: "new_digest_context evp = Inr c" "R c []" and R: "absorbs evp H R"
    and len: "\<forall>m. length (H m) = 32" by (rule evp_computesE [OF evp])
  obtain c' where "update_digest evp c b = Inr c'" "R c' b"
    using update_digest_computes [OF R c(2)] by auto
  with c R len show ?thesis
    by (simp add: sha256_hex_def finish_digest_computes)
qed

lemma open_in_plain:
  "nodes f p = Some (Regular d) \<Longrightarrow> \<not> unreadable f p \<Longrightarrow> fault_at f p = None \<Longrightarrow>
     open_in f p = Some (stream_of d)"
  by (simp add: open_in_def)

lemma sha256_file_plain:
  assumes evp: "evp_computes evp H"
    and node: "nodes f p = Some (Regular d)" "\<not> unreadable f p" "fault_at f p = None"
  shows "sha256_file evp f p = sha256_hex evp d"
proof -
  obtain R c where c: "new_digest_context evp = Inr c" "R c []" and R: "absorbs evp H R"
    and len: "\<forall>m. length (H m) = 32" by (rule evp_computesE [OF evp])
  obtain c' i' where "hash_stream evp c (stream_of d) = Inr (c', i')" "eofbit i'" "R c' d"
    using hash_stream_computes [OF R, of "stream_of d" c "[]"] c by auto
  then show ?thesis using c R len node evp
    by (simp add: sha256_file_def open_in_plain finish_digest_computes sha256_hex_computes)
qed

text \<open>
  Hashing a file block by block is hashing its contents: for a readable file without
  device errors the digest is that of all its bytes, whatever its size against the 64 KiB
  buffer; a device error is an exception, never the digest of a prefix.
\<close>

theorem sha256_file_correct:
  assumes evp: "evp_computes evp H" and node: "nodes f p = Some (Regular d)" "\<not> unreadable f p"
  shows "(fault_at f p = None \<longrightarrow> sha256_file evp f p = sha256_hex evp d) \<and>
    (fault_at f p \<noteq> None \<longrightarrow>
       sha256_file evp f p = throw (''Unable to read file while hashing: '' @ p))"
proof (intro conjI impI)
  obtain R c where c: "new_digest_context evp = Inr c" "R c []" and R: "absorbs evp H R"
    and len: "\<forall>m. length (H m) = 32" by (rule evp_computesE [OF evp])
  show "fault_at f p = None \<Longrightarrow> sha256_file evp f p = sha256_hex evp d"
    using sha256_file_plain [OF evp node] .
  assume "fault_at f p \<noteq> None"
  then obtain i where i: "open_in f p = Some i" "stream_good i" "in_fault i"
    using node by (auto simp: open_in_def stream_good_def stream_ok_def stream_of_def)
  obtain c' i' where "hash_stream evp c i = Inr (c', i')"
    using hash_stream_total [OF R i(2) c(2)] by blast
  with i c show "sha256_file evp f p = throw (''Unable to read file while hashing: '' @ p)"
    using hash_stream_fault by (fastforce simp: sha256_file_def)
qed

theorem sha256_file_correct_witness:
  "let f = \<lparr>nodes = [''a.bin'' \<mapsto> Regular ''abc''], unreadable = (\<lambda>_. False), fault_at = (\<lambda>_. None), unsynced = (\<lambda>_. {})\<rparr>
   in evp_computes sample_evp sample_digest \<and> sha256_file sample_evp f ''a.bin'' = sha256_hex sample_evp ''abc''"
  using sample_evp_computes
    sha256_file_correct [OF sample_evp_computes,
      of "\<lparr>nodes = [''a.bin'' \<mapsto> Regular ''abc''], unreadable = (\<lambda>_. False), fault_at = (\<lambda>_. None), unsynced = (\<lambda>_. {})\<rparr>"
        "''a.bin''" "''abc''"]
  by (simp add: Let_def)

end
