(* ===== verification/Manifest.thy ===== *)
theory Manifest
  imports Crypto
begin

text \<open>
  The component \<^verbatim>\<open>src/manifest.cpp\<close>: the immutable description of one file version
  (name, size, chunk size, whole-file digest, one digest per chunk), its text format, the
  identifier of its swarm and the geometry of its chunks.
\<close>

section \<open>The manifest\<close>

record manifest =
  file_name :: string
  file_size_bytes :: u64
  chunk_size_bytes :: u32
  file_sha256 :: string
  chunk_hashes :: "string list"

definition kMaxChunkSize :: u32 where
  "kMaxChunkSize = 4 * 1024 * 1024"

definition kMaxChunkCount :: nat where
  "kMaxChunkCount = 1000000"

definition manifest_parse_unsigned :: "string \<Rightarrow> string \<Rightarrow> 'w::len word result" where
  "manifest_parse_unsigned value field =
     (if value = [] then throw (''Manifest field is empty: '' @ field)
      else let (end', error, parsed) = from_chars value
           in if error \<noteq> Errc_ok \<or> end' \<noteq> []
              then throw (''Manifest field is not an unsigned integer: '' @ field)
              else Inr parsed)"

text \<open>Every caller has checked that the chunk size is not zero.\<close>

definition expected_chunk_count :: "u64 \<Rightarrow> u32 \<Rightarrow> u64" where
  "expected_chunk_count fsize chunk = (if fsize = 0 then 0 else (fsize - 1) div ucast chunk + 1)"

definition safe_file_name :: "string \<Rightarrow> bool" where
  "safe_file_name name \<longleftrightarrow>
     name \<noteq> [] \<and> name \<noteq> ''.'' \<and> name \<noteq> ''..'' \<and>
     CHR ''/'' \<notin> set name \<and> CHR 0x5C \<notin> set name \<and> CHR 0x00 \<notin> set name"

definition manifest_read_line :: "ifstream \<Rightarrow> path \<Rightarrow> (string \<times> ifstream) result" where
  "manifest_read_line input p =
     (case stream_getline input of
        (None, _) \<Rightarrow> throw (''Unexpected end of manifest: '' @ p)
      | (Some line, input) \<Rightarrow> Inr (strip_cr line, input))"

definition manifest_require_field :: "string \<Rightarrow> string \<Rightarrow> string result" where
  "manifest_require_field line field =
     (let prefix = field @ ''=''
      in if \<not> starts_with line prefix then throw (''Expected manifest field: '' @ field)
         else Inr (drop (length prefix) line))"

definition manifest_validate :: "manifest \<Rightarrow> unit result" where
  "manifest_validate m =
     (if \<not> safe_file_name (file_name m) then throw ''Manifest file name is not a safe basename''
      else if chunk_size_bytes m = 0 \<or> chunk_size_bytes m > kMaxChunkSize
        then throw ''Manifest chunk size is outside the allowed range''
      else if \<not> is_sha256_hex (file_sha256 m)
        then throw ''Manifest file hash is not a lowercase SHA-256 digest''
      else let expected = expected_chunk_count (file_size_bytes m) (chunk_size_bytes m)
           in if unat expected > kMaxChunkCount \<or> length (chunk_hashes m) \<noteq> unat expected
              then throw ''Manifest chunk count does not match file size''
              else if \<not> list_all is_sha256_hex (chunk_hashes m)
              then throw ''Manifest chunk hash is not a lowercase SHA-256 digest''
              else Inr ())"

section \<open>Creating a manifest\<close>

text \<open>
  The read loop of \<^verbatim>\<open>Manifest::from_file\<close> over a buffer of \<open>n\<close> bytes; \<open>n\<close> is the chunk
  size, which was checked to be positive (with an empty buffer the loop would not end).
\<close>

function hash_chunks :: "'c evp \<Rightarrow> nat \<Rightarrow> ifstream \<Rightarrow> string list \<Rightarrow> (string list \<times> ifstream) result" where
  "hash_chunks evp n input hashes =
     (if \<not> stream_ok input \<or> n = 0 then Inr (hashes, input)
      else let (buffer, input') = stream_read input n
           in if length buffer > 0
              then rbind (sha256_hex evp buffer) (\<lambda>h. hash_chunks evp n input' (hashes @ [h]))
              else hash_chunks evp n input' hashes)"
  by pat_completeness auto
termination
  by (relation "measure (\<lambda>(evp, n, i, hs). length (in_data i) + (if stream_ok i then 1 else 0))")
    (auto simp: stream_read_def stream_ok_def stream_good_def split: if_splits)

declare hash_chunks.simps [simp del]

definition manifest_from_file :: "'c evp \<Rightarrow> fs \<Rightarrow> path \<Rightarrow> u32 \<Rightarrow> manifest result" where
  "manifest_from_file evp f p chunk_size =
     (if chunk_size = 0 \<or> chunk_size > kMaxChunkSize
        then throw ''Chunk size must be between 1 and 4194304 bytes''
      else if \<not> is_regular_file f p
        then throw (''Manifest source must be a regular file: '' @ p)
      else
        let fsize = file_size f p; count = expected_chunk_count fsize chunk_size
        in if unat count > kMaxChunkCount
             then throw ''File creates more chunks than the configured manifest limit''
           else (case open_in f p of
             None \<Rightarrow> throw (''Unable to open manifest source: '' @ p)
           | Some input \<Rightarrow>
               rbind (sha256_file evp f p) (\<lambda>digest.
               rbind (hash_chunks evp (unat chunk_size) input []) (\<lambda>(hashes, input).
               if \<not> eofbit input then throw (''Unable to read manifest source: '' @ p)
               else
                 let m = \<lparr>file_name = path_filename p, file_size_bytes = fsize,
                          chunk_size_bytes = chunk_size, file_sha256 = digest, chunk_hashes = hashes\<rparr>
                 in rbind (manifest_validate m) (\<lambda>_. Inr m)))))"

section \<open>Reading a manifest\<close>

text \<open>\<^verbatim>\<open>require_field(read_line(input, path), field)\<close>.\<close>

definition manifest_field :: "ifstream \<Rightarrow> path \<Rightarrow> string \<Rightarrow> (string \<times> ifstream) result" where
  "manifest_field input p field =
     rbind (manifest_read_line input p) (\<lambda>(line, input).
     rbind (manifest_require_field line field) (\<lambda>value. Inr (value, input)))"

text \<open>The loop over the chunk entries; \<open>n\<close> entries are still to be read.\<close>

fun manifest_entries ::
  "nat \<Rightarrow> ifstream \<Rightarrow> path \<Rightarrow> (u32 \<rightharpoonup> string) \<Rightarrow> ((u32 \<rightharpoonup> string) \<times> ifstream) result" where
  "manifest_entries 0 input p chunks = Inr (chunks, input)"
| "manifest_entries (Suc n) input p chunks =
     rbind (manifest_field input p ''chunk'') (\<lambda>(entry, input).
     if CHR '','' \<notin> set entry then throw ''Manifest chunk entry is missing a comma''
     else rbind (manifest_parse_unsigned (before CHR '','' entry) ''chunk index'') (\<lambda>index.
       let hash = behind CHR '','' entry
       in if chunks index \<noteq> None then throw ''Manifest contains a duplicate chunk index''
          else manifest_entries n input p (chunks(index \<mapsto> hash))))"

fun manifest_collect :: "(u32 \<rightharpoonup> string) \<Rightarrow> nat list \<Rightarrow> string list \<Rightarrow> string list result" where
  "manifest_collect chunks [] hashes = Inr hashes"
| "manifest_collect chunks (index # rest) hashes =
     (case chunks (of_nat index) of
        None \<Rightarrow> throw ''Manifest chunk indexes are not contiguous''
      | Some hash \<Rightarrow> manifest_collect chunks rest (hashes @ [hash]))"

definition manifest_parse :: "ifstream \<Rightarrow> path \<Rightarrow> manifest result" where
  "manifest_parse input p =
     rbind (manifest_read_line input p) (\<lambda>(line, input).
     if line \<noteq> ''SWARMSYNC_MANIFEST_V1'' then throw ''Unsupported manifest format''
     else
       rbind (manifest_field input p ''file_name'') (\<lambda>(value, input).
       rbind (hex_decode value) (\<lambda>name.
       rbind (manifest_field input p ''file_size'') (\<lambda>(value, input).
       rbind (manifest_parse_unsigned value ''file_size'') (\<lambda>fsize.
       rbind (manifest_field input p ''chunk_size'') (\<lambda>(value, input).
       rbind (manifest_parse_unsigned value ''chunk_size'') (\<lambda>chunk_size.
       rbind (manifest_field input p ''file_sha256'') (\<lambda>(digest, input).
       rbind (manifest_field input p ''chunk_count'') (\<lambda>(value, input).
       rbind (manifest_parse_unsigned value ''chunk_count'') (\<lambda>declared :: u32.
       if unat declared > kMaxChunkCount then throw ''Manifest declares too many chunks''
       else
         rbind (manifest_entries (unat declared) input p Map.empty) (\<lambda>(chunks, input).
         if fst (stream_getline input) \<noteq> None then throw ''Manifest contains unexpected trailing data''
         else
           rbind (manifest_collect chunks [0 ..< unat declared] []) (\<lambda>hashes.
           let m = \<lparr>file_name = name, file_size_bytes = fsize, chunk_size_bytes = chunk_size,
                    file_sha256 = digest, chunk_hashes = hashes\<rparr>
           in rbind (manifest_validate m) (\<lambda>_. Inr m)))))))))))))"

definition manifest_load :: "fs \<Rightarrow> path \<Rightarrow> manifest result" where
  "manifest_load f p =
     (case open_in f p of
        None \<Rightarrow> throw (''Unable to open manifest: '' @ p)
      | Some input \<Rightarrow> manifest_parse input p)"

section \<open>Writing a manifest\<close>

definition chunk_line :: "nat \<Rightarrow> string \<Rightarrow> string" where
  "chunk_line index hash = ''chunk='' @ dec index @ '','' @ hash @ [nl]"

definition manifest_text :: "manifest \<Rightarrow> string" where
  "manifest_text m =
     ''SWARMSYNC_MANIFEST_V1'' @ [nl] @
     ''file_name='' @ hex_encode (file_name m) @ [nl] @
     ''file_size='' @ dec (unat (file_size_bytes m)) @ [nl] @
     ''chunk_size='' @ dec (unat (chunk_size_bytes m)) @ [nl] @
     ''file_sha256='' @ file_sha256 m @ [nl] @
     ''chunk_count='' @ dec (length (chunk_hashes m)) @ [nl] @
     concat (map (\<lambda>index. chunk_line index (chunk_hashes m ! index)) [0 ..< length (chunk_hashes m)])"

definition manifest_serialize :: "manifest \<Rightarrow> string result" where
  "manifest_serialize m = rbind (manifest_validate m) (\<lambda>_. Inr (manifest_text m))"

definition manifest_swarm_id :: "'c evp \<Rightarrow> manifest \<Rightarrow> string result" where
  "manifest_swarm_id evp m = rbind (manifest_serialize m) (sha256_hex evp)"

text \<open>
  What the operating system does during \<^verbatim>\<open>Manifest::save\<close>: whether the parent directory can
  be made, whether the output file opens, whether the stream is still good after the text was
  put into it, and how many bytes reach the file in the end (the stream is flushed by its
  destructor, after the last test of its state).
\<close>

record save_env =
  mkdir_error :: "string option"
  out_opens :: bool
  out_good :: bool
  out_stored :: nat

definition manifest_save :: "save_env \<Rightarrow> manifest \<Rightarrow> fs \<Rightarrow> path \<Rightarrow> unit result \<times> fs" where
  "manifest_save env m f p =
     (let parent = path_parent p
      in if parent \<noteq> [] \<and> mkdir_error env \<noteq> None
         then (Inl (Filesystem_error (the (mkdir_error env))), f)
         else
           let f = (if parent \<noteq> [] then create_directories f parent else f)
           in if \<not> out_opens env then (throw (''Unable to write manifest: '' @ p), f)
              else
                (case manifest_serialize m of
                   Inl e \<Rightarrow> (Inl e, write_node f p [])
                 | Inr text \<Rightarrow>
                     (if \<not> out_good env then throw (''Unable to finish manifest write: '' @ p) else Inr (),
                      write_node f p (take (out_stored env) text))))"

section \<open>Chunk geometry\<close>

definition manifest_chunk_size :: "manifest \<Rightarrow> u32 \<Rightarrow> u32 result" where
  "manifest_chunk_size m index =
     rbind (manifest_validate m) (\<lambda>_.
     if unat index \<ge> length (chunk_hashes m) then throw ''Chunk index is outside the manifest''
     else
       let offset = ucast index * ucast (chunk_size_bytes m) :: u64;
           remaining = file_size_bytes m - offset
       in Inr (ucast (min remaining (ucast (chunk_size_bytes m)))))"

definition manifest_chunk_offset :: "manifest \<Rightarrow> u32 \<Rightarrow> u64 result" where
  "manifest_chunk_offset m index =
     (if unat index \<ge> length (chunk_hashes m) then throw ''Chunk index is outside the manifest''
      else Inr (ucast index * ucast (chunk_size_bytes m)))"

section \<open>The parsers keep their contracts\<close>

interpretation mp: unsigned_parser manifest_parse_unsigned
proof
  show "manifest_parse_unsigned s field = Inr w \<longleftrightarrow> s \<noteq> [] \<and> list_all is_digit s \<and> dec_value s = unat w"
    for s field and w :: "'w::len word"
    using from_chars_complete [of s w]
    by (auto simp: manifest_parse_unsigned_def split: prod.splits)
qed

interpretation mr: record_reader manifest_read_line manifest_require_field
proof
  show "stream_getline i = (Some l, i') \<Longrightarrow> manifest_read_line i p = Inr (strip_cr l, i')" for i l i' p
    by (simp add: manifest_read_line_def)
  show "stream_getline i = (None, i') \<Longrightarrow> \<exists>e. manifest_read_line i p = Inl e" for i i' p
    by (simp add: manifest_read_line_def)
  show "manifest_require_field line field = Inr v \<longleftrightarrow> line = field @ CHR ''='' # v" for line field v
    by (simp add: manifest_require_field_def starts_with_field)
qed

section \<open>Lemmas on the text format\<close>

lemma unat_ucast_u32 [simp]: "unat (ucast (w :: u32) :: u64) = unat w"
proof -
  have "unat w < 2 ^ 32" using unsigned_less [of w, where 'a = nat] by simp
  then show ?thesis by (simp add: unsigned_ucast_eq take_bit_nat_eq_self)
qed

lemma stream_of_data [simp]: "(stream_of d)\<lparr>in_data := d'\<rparr> = stream_of d'"
  by (simp add: stream_of_def)

lemma unat_expected_chunk_count:
  assumes "chunk \<noteq> 0"
  shows "unat (expected_chunk_count n chunk) = (if n = 0 then 0 else (unat n - 1) div unat chunk + 1)"
proof (cases "n = 0")
  case False
  then have n: "unat (n - 1) = unat n - 1" "0 < unat n"
    by (simp_all add: unat_minus_one word_greater_zero_iff unat_gt_0)
  have "(unat n - 1) div unat chunk + 1 \<le> unat n"
    using n by (metis Suc_pred' Suc_eq_plus1 div_le_dividend Suc_le_mono)
  also have "\<dots> < 2 ^ 64" using unsigned_less [of n] by simp
  finally have "(unat n - 1) div unat chunk + 1 < 2 ^ 64" .
  with False n show ?thesis
    by (simp add: expected_chunk_count_def unat_word_ariths unat_div_distrib)
qed (simp add: expected_chunk_count_def)

lemma manifest_validate_Inr:
  "manifest_validate m = Inr () \<longleftrightarrow>
     safe_file_name (file_name m) \<and> chunk_size_bytes m \<noteq> 0 \<and> chunk_size_bytes m \<le> kMaxChunkSize \<and>
     is_sha256_hex (file_sha256 m) \<and> length (chunk_hashes m) \<le> kMaxChunkCount \<and>
     length (chunk_hashes m) = unat (expected_chunk_count (file_size_bytes m) (chunk_size_bytes m)) \<and>
     list_all is_sha256_hex (chunk_hashes m)"
  by (auto simp: manifest_validate_def Let_def)

lemma sha256_hex_text:
  "is_sha256_hex h \<Longrightarrow> nl \<notin> set h \<and> cr \<notin> set h \<and> CHR '','' \<notin> set h"
  by (auto simp: is_sha256_hex_def list_all_iff)

lemma hex_encode_text [simp]: "nl \<notin> set (hex_encode s)" "cr \<notin> set (hex_encode s)"
  by (rule list_all_not_in [OF hex_encode_lower]; simp)+

lemma manifest_field_line:
  assumes "stream_good i" and "in_data i = field @ CHR ''='' # v @ nl # rest"
    and "nl \<notin> set field \<union> set v" and "cr \<notin> set field \<union> set v"
  shows "manifest_field i p field = Inr (v, i\<lparr>in_data := rest\<rparr>)"
  unfolding manifest_field_def by (rule mr.read_required_field [OF assms])

text \<open>The map the entry loop has built after the first \<open>k\<close> lines.\<close>

definition hash_map :: "string list \<Rightarrow> nat \<Rightarrow> u32 \<rightharpoonup> string" where
  "hash_map hs k = (\<lambda>w. if unat w < k then Some (hs ! unat w) else None)"

lemma hash_map_Suc:
  "k < 2 ^ 32 \<Longrightarrow> (hash_map hs k)(of_nat k \<mapsto> hs ! k) = hash_map hs (Suc k)"
  by (auto simp: hash_map_def fun_eq_iff unat_of_nat take_bit_nat_eq_self less_Suc_eq)
     

lemma manifest_entries_lines:
  assumes hs: "list_all is_sha256_hex hs" "length hs \<le> kMaxChunkCount"
  shows "k + n = length hs \<Longrightarrow> stream_good i \<Longrightarrow>
    in_data i = concat (map (\<lambda>j. chunk_line j (hs ! j)) [k ..< length hs]) \<Longrightarrow>
    manifest_entries n i p (hash_map hs k) = Inr (hash_map hs (length hs), i\<lparr>in_data := []\<rparr>)"
proof (induction n arbitrary: k i)
  case (Suc n)
  let ?rest = "concat (map (\<lambda>j. chunk_line j (hs ! j)) [Suc k ..< length hs])"
  let ?i = "i\<lparr>in_data := ?rest\<rparr>"
  have "hs ! k \<in> set hs" using Suc.prems by (intro nth_mem) simp
  then have h: "nl \<notin> set (hs ! k)" "cr \<notin> set (hs ! k)" "CHR '','' \<notin> set (hs ! k)"
    using hs sha256_hex_text by (auto simp: list_all_iff)
  have k: "k < 2 ^ 32" using Suc.prems hs by (simp add: kMaxChunkCount_def)
  have "[k ..< length hs] = k # [Suc k ..< length hs]" using Suc.prems by (simp add: upt_conv_Cons)
  then have "in_data i = ''chunk'' @ CHR ''='' # (dec k @ '','' @ hs ! k) @ nl # ?rest"
    using Suc.prems by (simp add: chunk_line_def)
  then have "manifest_field i p ''chunk'' = Inr (dec k @ '','' @ hs ! k, ?i)"
    using Suc.prems h by (intro manifest_field_line) auto
  moreover have "manifest_parse_unsigned (dec k) ''chunk index'' = Inr (of_nat k :: u32)"
    using k by (intro mp.parse_dec) simp
  moreover have "hash_map hs k (of_nat k) = None"
    using k by (simp add: hash_map_def unat_of_nat take_bit_nat_eq_self)
  moreover have "manifest_entries n ?i p (hash_map hs (Suc k)) = Inr (hash_map hs (length hs), ?i\<lparr>in_data := []\<rparr>)"
    using Suc.prems by (intro Suc.IH) simp_all
  ultimately show ?case using k by (simp add: hash_map_Suc)
qed simp

lemma manifest_collect_map:
  "(\<And>j. j \<in> set js \<Longrightarrow> chunks (of_nat j) = Some (hs ! j)) \<Longrightarrow>
     manifest_collect chunks js acc = Inr (acc @ map (\<lambda>j. hs ! j) js)"
  by (induction js arbitrary: acc) auto

lemma manifest_eta [simp]:
  "\<lparr>file_name = file_name m, file_size_bytes = file_size_bytes m, chunk_size_bytes = chunk_size_bytes m,
    file_sha256 = file_sha256 m, chunk_hashes = chunk_hashes m\<rparr> = m"
  by simp

lemma manifest_parse_text:
  assumes valid: "manifest_validate m = Inr ()"
  shows "manifest_parse (stream_of (manifest_text m)) p = Inr m"
proof -
  let ?hs = "chunk_hashes m"
  let ?lines = "concat (map (\<lambda>j. chunk_line j (?hs ! j)) [0 ..< length ?hs])"
  have v: "is_sha256_hex (file_sha256 m)" "list_all is_sha256_hex ?hs" "length ?hs \<le> kMaxChunkCount"
    using valid by (auto simp: manifest_validate_Inr)
  then have n: "length ?hs < 2 ^ 32" by (simp add: kMaxChunkCount_def)
  note sha = sha256_hex_text [OF v(1)]
  have count: "manifest_parse_unsigned (dec (length ?hs)) ''chunk_count'' = Inr (of_nat (length ?hs) :: u32)"
    using n by (intro mp.parse_dec) simp
  have entries: "manifest_entries (length ?hs) i p Map.empty = Inr (hash_map ?hs (length ?hs), i\<lparr>in_data := []\<rparr>)"
    if "stream_good i" "in_data i = ?lines" for i
    using manifest_entries_lines [OF v(2,3), of 0 "length ?hs" i p] that
    by (simp add: hash_map_def)
  have collect: "manifest_collect (hash_map ?hs (length ?hs)) [0 ..< length ?hs] [] = Inr ?hs"
    by (subst manifest_collect_map [where hs = ?hs])
      (use n in \<open>auto simp: hash_map_def unat_of_nat take_bit_nat_eq_self map_nth\<close>)
  define t4 where "t4 = ''chunk_count='' @ dec (length ?hs) @ [nl] @ ?lines"
  define t3 where "t3 = ''file_sha256='' @ file_sha256 m @ [nl] @ t4"
  define t2 where "t2 = ''chunk_size='' @ dec (unat (chunk_size_bytes m)) @ [nl] @ t3"
  define t1 where "t1 = ''file_size='' @ dec (unat (file_size_bytes m)) @ [nl] @ t2"
  define t0 where "t0 = ''file_name='' @ hex_encode (file_name m) @ [nl] @ t1"
  have "manifest_text m = ''SWARMSYNC_MANIFEST_V1'' @ nl # t0"
    by (simp add: manifest_text_def t0_def t1_def t2_def t3_def t4_def)
  then have "manifest_read_line (stream_of (manifest_text m)) p = Inr (''SWARMSYNC_MANIFEST_V1'', stream_of t0)"
    using mr.read_whole_line [of "stream_of (manifest_text m)" "''SWARMSYNC_MANIFEST_V1''" t0 p] by simp
  moreover have "manifest_field (stream_of t0) p ''file_name'' = Inr (hex_encode (file_name m), stream_of t1)"
    by (subst manifest_field_line [where rest = t1]) (simp_all add: t0_def)
  moreover have "manifest_field (stream_of t1) p ''file_size'' = Inr (dec (unat (file_size_bytes m)), stream_of t2)"
    by (subst manifest_field_line [where rest = t2]) (simp_all add: t1_def)
  moreover have "manifest_field (stream_of t2) p ''chunk_size'' = Inr (dec (unat (chunk_size_bytes m)), stream_of t3)"
    by (subst manifest_field_line [where rest = t3]) (simp_all add: t2_def)
  moreover have "manifest_field (stream_of t3) p ''file_sha256'' = Inr (file_sha256 m, stream_of t4)"
    by (subst manifest_field_line [where rest = t4]) (use sha in \<open>simp_all add: t3_def\<close>)
  moreover have "manifest_field (stream_of t4) p ''chunk_count'' = Inr (dec (length ?hs), stream_of ?lines)"
    by (subst manifest_field_line [where rest = ?lines]) (simp_all add: t4_def)
  moreover have "stream_getline (stream_of []) = (None, stream_of []\<lparr>eofbit := True, failbit := True\<rparr>)"
    by (simp add: stream_getline_def)
  moreover note count entries [of "stream_of ?lines"] collect
  ultimately show ?thesis using n v(3) valid
    by (simp add: manifest_parse_def Let_def hex_decode_loop_encode hex_decode_def unat_of_nat take_bit_nat_eq_self)
qed

section \<open>Lemmas on reading a file in chunks\<close>

text \<open>The reference for the chunk loop: a file cut into blocks of \<open>n\<close> bytes.\<close>

function blocks :: "nat \<Rightarrow> bytes \<Rightarrow> bytes list" where
  "blocks n d = (if n = 0 \<or> d = [] then [] else take n d # blocks n (drop n d))"
  by pat_completeness auto
termination
  by (relation "measure (\<lambda>(n, d). length d)") (auto simp: neq_Nil_conv)

declare blocks.simps [simp del]

lemma blocks_Nil [simp]: "blocks n [] = []"
  by (simp add: blocks.simps)

lemma blocks_block: "0 < n \<Longrightarrow> d \<noteq> [] \<Longrightarrow> blocks n d = take n d # blocks n (drop n d)"
  by (subst blocks.simps) simp

lemma length_blocks: "0 < n \<Longrightarrow> d \<noteq> [] \<Longrightarrow> length (blocks n d) = (length d - 1) div n + 1"
proof (induction n d rule: blocks.induct)
  case (1 n d)
  show ?case
  proof (cases "length d \<le> n")
    case True
    with 1 show ?thesis by (simp add: blocks_block)
  next
    case False
    with 1 have "length (blocks n (drop n d)) = (length d - n - 1) div n + 1" by simp
    moreover have "(length d - n - 1) div n + 1 = (length d - 1) div n"
      using False "1.prems" le_div_geq [of n "length d - 1"] by (simp add: diff_commute)
    ultimately show ?thesis using 1 by (simp add: blocks_block)
  qed
qed

lemma concat_blocks: "0 < n \<Longrightarrow> concat (blocks n d) = d"
  by (induction n d rule: blocks.induct) (subst blocks.simps, simp)

lemma nth_blocks: "0 < n \<Longrightarrow> i < length (blocks n d) \<Longrightarrow> blocks n d ! i = take n (drop (i * n) d)"
proof (induction n d arbitrary: i rule: blocks.induct)
  case (1 n d)
  then have d: "d \<noteq> []" by auto
  show ?case
  proof (cases i)
    case 0
    with 1 d show ?thesis by (simp add: blocks_block)
  next
    case (Suc j)
    with 1 d show ?thesis by (simp add: blocks_block add.commute)
  qed
qed

lemma hash_chunks_stop: "\<not> stream_ok i \<Longrightarrow> hash_chunks evp n i hs = Inr (hs, i)"
  by (simp add: hash_chunks.simps)

lemma hash_chunks_blocks:
  assumes H: "\<And>b. sha256_hex evp b = Inr (h b)" and "0 < n"
  shows "stream_good i \<Longrightarrow> \<not> in_fault i \<Longrightarrow>
    \<exists>i'. hash_chunks evp n i hs = Inr (hs @ map h (blocks n (in_data i)), i') \<and> eofbit i'"
proof (induction "length (in_data i)" arbitrary: i hs rule: less_induct)
  case less
  let ?d = "in_data i" and ?i = "i\<lparr>in_data := drop n (in_data i)\<rparr>"
  show ?case
  proof (cases "n \<le> length ?d")
    case True
    then have ne: "?d \<noteq> []" using \<open>0 < n\<close> by auto
    have "length (in_data ?i) < length ?d" using True \<open>0 < n\<close> by simp
    from less.hyps [OF this, of "hs @ [h (take n ?d)]"] less.prems obtain i' where
      "hash_chunks evp n ?i (hs @ [h (take n ?d)]) = Inr ((hs @ [h (take n ?d)]) @ map h (blocks n (drop n ?d)), i')"
      "eofbit i'" by auto
    moreover have "hash_chunks evp n i hs = hash_chunks evp n ?i (hs @ [h (take n ?d)])"
      using True less.prems \<open>0 < n\<close> H ne
      by (subst hash_chunks.simps) (simp add: stream_read_def stream_good_def)
    ultimately show ?thesis using ne \<open>0 < n\<close> by (simp add: blocks_block)
  next
    case False
    then have "blocks n ?d = (if ?d = [] then [] else [?d])" using \<open>0 < n\<close> by (simp add: blocks_block)
    with False less.prems \<open>0 < n\<close> H show ?thesis
      by (subst hash_chunks.simps)
        (simp add: stream_read_def hash_chunks_stop stream_good_def stream_ok_def)
  qed
qed


section \<open>Properties of the manifest\<close>

text \<open>
  A valid manifest survives being written and read again: the text that \<^verbatim>\<open>serialize\<close>
  produces parses to the same manifest, and its swarm identifier is the same.
\<close>

theorem manifest_roundtrip:
  assumes "manifest_validate m = Inr ()"
  shows "\<exists>text. manifest_serialize m = Inr text \<and> manifest_parse (stream_of text) p = Inr m"
  using assms manifest_parse_text by (simp add: manifest_serialize_def)

lemma manifest_parse_valid: "manifest_parse i p = Inr m \<Longrightarrow> manifest_validate m = Inr ()"
  by (auto simp: manifest_parse_def result_simps Let_def split: if_splits prod.splits option.splits)

lemma manifest_from_file_valid: "manifest_from_file evp f p c = Inr m \<Longrightarrow> manifest_validate m = Inr ()"
  by (auto simp: manifest_from_file_def result_simps Let_def split: if_splits prod.splits option.splits)

lemma unat_word_min: "unat (min a b) = min (unat a) (unat (b :: 'w::len word))"
  by (simp add: min_def word_le_nat_alt)

lemma unat_chunk_size_le: "c \<le> kMaxChunkSize \<Longrightarrow> unat c \<le> 4194304"
  by (simp add: kMaxChunkSize_def word_le_nat_alt)

lemma manifest_last_offset:
  assumes "manifest_validate m = Inr ()" and "i < length (chunk_hashes m)"
  shows "i * unat (chunk_size_bytes m) < unat (file_size_bytes m)"
proof -
  let ?c = "unat (chunk_size_bytes m)" and ?n = "unat (file_size_bytes m)"
  have c: "0 < ?c" using assms(1) by (simp add: manifest_validate_Inr unat_gt_0)
  have "length (chunk_hashes m) = (if file_size_bytes m = 0 then 0 else (?n - 1) div ?c + 1)"
    using assms(1) by (simp add: manifest_validate_Inr unat_expected_chunk_count)
  with assms(2) have n: "0 < ?n" and "i \<le> (?n - 1) div ?c"
    by (auto simp: unat_gt_0 split: if_splits)
  then have "i * ?c \<le> (?n - 1) div ?c * ?c" by simp
  also have "\<dots> \<le> ?n - 1" by simp
  finally show ?thesis using n by linarith
qed

lemma manifest_chunk_offset_unat:
  assumes "manifest_validate m = Inr ()" and "unat i < length (chunk_hashes m)"
  obtains ofs where "manifest_chunk_offset m i = Inr ofs"
    "unat ofs = unat i * unat (chunk_size_bytes m)"
proof -
  have "unat i * unat (chunk_size_bytes m) < 2 ^ 64"
    using manifest_last_offset [OF assms] unsigned_less [of "file_size_bytes m", where 'a = nat] by simp
  then show thesis using assms(2) that
    by (simp add: manifest_chunk_offset_def unat_word_ariths)
qed

lemma manifest_chunk_size_unat:
  assumes "manifest_validate m = Inr ()" and "unat i < length (chunk_hashes m)"
  obtains sz where "manifest_chunk_size m i = Inr sz"
    "unat sz = min (unat (file_size_bytes m) - unat i * unat (chunk_size_bytes m)) (unat (chunk_size_bytes m))"
proof -
  let ?c = "chunk_size_bytes m"
  let ?o = "ucast i * ucast ?c :: u64"
  have last: "unat i * unat ?c < unat (file_size_bytes m)" by (rule manifest_last_offset [OF assms])
  then have o: "unat ?o = unat i * unat ?c"
    using unsigned_less [of "file_size_bytes m", where 'a = nat] by (simp add: unat_word_ariths)
  with last have "?o \<le> file_size_bytes m" by (simp add: word_le_nat_alt)
  then have r: "unat (file_size_bytes m - ?o) = unat (file_size_bytes m) - unat i * unat ?c"
    by (simp add: unat_sub o)
  let ?r = "min (file_size_bytes m - ?o) (ucast ?c)"
  have u: "unat ?r = min (unat (file_size_bytes m) - unat i * unat ?c) (unat ?c)"
    by (simp add: unat_word_min r)
  also have "\<dots> < 2 ^ 32" using unsigned_less [of ?c, where 'a = nat] by simp
  finally have "unat (ucast ?r :: u32) = unat ?r"
    by (simp add: unsigned_ucast_eq take_bit_nat_eq_self)
  with u show thesis using assms that
    by (simp add: manifest_chunk_size_def Let_def)
qed

text \<open>
  C29. The chunks of a valid manifest tile the file: chunk \<open>i\<close> starts at \<open>i\<close> times the chunk
  size, no 64-bit product or 32-bit result wraps around, and byte \<open>b\<close> of the file lies in
  chunk \<open>i\<close> exactly if \<open>i\<close> is \<open>b\<close> divided by the chunk size. Every chunk has between 1 and
  4194304 bytes.
\<close>

theorem manifest_chunks_tile:
  assumes "manifest_validate m = Inr ()" and "unat i < length (chunk_hashes m)"
  shows "\<exists>ofs sz. manifest_chunk_offset m i = Inr ofs \<and> manifest_chunk_size m i = Inr sz \<and>
    1 \<le> unat sz \<and> unat sz \<le> 4194304 \<and>
    (\<forall>b. unat ofs \<le> b \<and> b < unat ofs + unat sz \<longleftrightarrow>
         b < unat (file_size_bytes m) \<and> b div unat (chunk_size_bytes m) = unat i)"
proof -
  let ?c = "unat (chunk_size_bytes m)"
  obtain ofs where o: "manifest_chunk_offset m i = Inr ofs" "unat ofs = unat i * ?c"
    using assms by (rule manifest_chunk_offset_unat)
  obtain sz where s: "manifest_chunk_size m i = Inr sz"
      "unat sz = min (unat (file_size_bytes m) - unat i * ?c) ?c"
    using assms by (rule manifest_chunk_size_unat)
  have c: "0 < ?c" "?c \<le> 4194304"
    using assms(1) unat_chunk_size_le by (auto simp: manifest_validate_Inr unat_gt_0)
  have last: "unat i * ?c < unat (file_size_bytes m)" using assms by (rule manifest_last_offset)
  have "(unat ofs \<le> b \<and> b < unat ofs + unat sz) =
      (b < unat (file_size_bytes m) \<and> b div ?c = unat i)" for b
  proof -
    have "b div ?c = unat i \<longleftrightarrow> unat i * ?c \<le> b \<and> b < unat i * ?c + ?c"
      using c by (metis add.commute div_less_iff_less_mult less_eq_div_iff_mult_less_eq mult_Suc le_antisym less_Suc_eq_le order_refl)
    with o s last show ?thesis by auto
  qed
  with o s c last show ?thesis by (auto simp: Suc_le_eq)
qed

text \<open>A manifest and the operating system's answers for evaluating the definitions on an example.\<close>

definition sample_manifest :: manifest where
  "sample_manifest = \<lparr>file_name = ''sample.bin'', file_size_bytes = 8, chunk_size_bytes = 3,
     file_sha256 = replicate 64 CHR ''a'', chunk_hashes = replicate 3 (replicate 64 CHR ''b'')\<rparr>"

definition no_faults :: "path \<Rightarrow> bytes \<Rightarrow> fs" where
  "no_faults p d = \<lparr>nodes = [p \<mapsto> Regular d], unreadable = (\<lambda>_. False), fault_at = (\<lambda>_. None), unsynced = (\<lambda>_. {})\<rparr>"

definition save_ok :: save_env where
  "save_ok = \<lparr>mkdir_error = None, out_opens = True, out_good = True, out_stored = 10000\<rparr>"

lemma sample_manifest_valid: "manifest_validate sample_manifest = Inr ()"
  by (simp add: manifest_validate_Inr sample_manifest_def safe_file_name_def is_sha256_hex_def
      is_lower_hex_def kMaxChunkSize_def kMaxChunkCount_def expected_chunk_count_def list_all_iff)

theorem manifest_roundtrip_witness:
  "manifest_validate sample_manifest = Inr () \<and>
   (\<exists>text. manifest_serialize sample_manifest = Inr text \<and>
      manifest_parse (stream_of text) ''m'' = Inr sample_manifest)"
  using sample_manifest_valid manifest_roundtrip [OF sample_manifest_valid] by blast

theorem manifest_chunks_tile_witness:
  "\<exists>ofs sz. manifest_chunk_offset sample_manifest 2 = Inr ofs \<and> manifest_chunk_size sample_manifest 2 = Inr sz \<and>
    1 \<le> unat sz \<and> unat sz \<le> 4194304 \<and>
    (\<forall>b. unat ofs \<le> b \<and> b < unat ofs + unat sz \<longleftrightarrow>
         b < unat (file_size_bytes sample_manifest) \<and>
         b div unat (chunk_size_bytes sample_manifest) = unat (2 :: u32))"
  by (rule manifest_chunks_tile [OF sample_manifest_valid]) (simp add: sample_manifest_def)

lemma unreadable_create [simp]:
  "unreadable (create_directories f p) = unreadable f" "fault_at (create_directories f p) = fault_at f"
  "unreadable (write_node f p d) = unreadable f" "fault_at (write_node f p d) = fault_at f"
  "nodes (write_node f p d) = (nodes f)(p \<mapsto> Regular d)"
  by (simp_all add: create_directories_def write_node_def)

text \<open>
  C28. Saving a valid manifest and loading the file gives the manifest back, on a file system
  where the calls succeed and all bytes reach the file.
\<close>

theorem manifest_save_load:
  assumes "manifest_validate m = Inr ()" and "mkdir_error env = None" "out_opens env" "out_good env"
    and "length (manifest_text m) \<le> out_stored env" and "\<not> unreadable f p" "fault_at f p = None"
  shows "\<exists>f'. manifest_save env m f p = (Inr (), f') \<and> manifest_load f' p = Inr m"
proof -
  have "manifest_serialize m = Inr (manifest_text m)"
    using assms(1) by (simp add: manifest_serialize_def)
  then show ?thesis using assms
    by (simp add: manifest_save_def Let_def manifest_load_def open_in_def manifest_parse_text)
qed

theorem manifest_save_load_witness:
  "\<exists>f'. manifest_save save_ok sample_manifest (no_faults ''x'' []) ''out/m'' = (Inr (), f') \<and>
      manifest_load f' ''out/m'' = Inr sample_manifest"
proof (rule manifest_save_load [OF sample_manifest_valid])
  show "length (manifest_text sample_manifest) \<le> out_stored save_ok"
    by (simp add: sample_manifest_def save_ok_def manifest_text_def chunk_line_def dec.simps upt_conv_Cons)
qed (simp_all add: save_ok_def no_faults_def)

text \<open>
  Every manifest the program holds is valid: one made from a file or read from a file
  passed \<^verbatim>\<open>validate\<close>, and whatever text it was read from, its own text parses to it again.
\<close>

theorem manifest_sources_valid:
  assumes "manifest_from_file evp f p c = Inr m \<or> manifest_load f p = Inr m"
  shows "manifest_validate m = Inr () \<and>
    (\<exists>text. manifest_serialize m = Inr text \<and> manifest_parse (stream_of text) q = Inr m)"
proof -
  have "manifest_validate m = Inr ()"
    using assms manifest_from_file_valid manifest_parse_valid
    by (auto simp: manifest_load_def split: option.splits)
  then show ?thesis using manifest_parse_text by (simp add: manifest_serialize_def)
qed

lemma length_blocks_expected:
  assumes "c \<noteq> 0" and "length d < 2 ^ 64"
  shows "length (blocks (unat c) d) = unat (expected_chunk_count (of_nat (length d)) c)"
proof (cases "d = []")
  case True
  then show ?thesis by (simp add: expected_chunk_count_def)
next
  case False
  moreover have "0 < unat c" using assms(1) by (simp add: unat_gt_0)
  moreover have "unat (of_nat (length d) :: u64) = length d"
    using assms(2) by (simp add: unat_of_nat take_bit_nat_eq_self)
  moreover from this False have "(of_nat (length d) :: u64) \<noteq> 0"
    by (metis length_0_conv unsigned_0)
  ultimately show ?thesis using assms(1)
    by (simp add: length_blocks unat_expected_chunk_count)
qed

lemma hex_digest_is_sha256: "length (H m) = 32 \<Longrightarrow> is_sha256_hex (hex_encode (H m))"
  by (simp add: is_sha256_hex_def)

lemma manifest_from_file_blocks:
  assumes evp: "evp_computes evp H"
    and node: "nodes f p = Some (Regular d)" "\<not> unreadable f p" "fault_at f p = None" "length d < 2 ^ 64"
    and chunk: "c \<noteq> 0" "c \<le> kMaxChunkSize" "length (blocks (unat c) d) \<le> kMaxChunkCount"
    and name: "safe_file_name (path_filename p)"
  shows "manifest_from_file evp f p c = Inr \<lparr>file_name = path_filename p,
    file_size_bytes = of_nat (length d), chunk_size_bytes = c, file_sha256 = hex_encode (H d),
    chunk_hashes = map (\<lambda>b. hex_encode (H b)) (blocks (unat c) d)\<rparr>" (is "_ = Inr ?m")
proof -
  have sha: "sha256_hex evp b = Inr (hex_encode (H b))" for b
    using evp by (rule sha256_hex_computes)
  have "sha256_file evp f p = Inr (hex_encode (H d))"
    using sha256_file_plain [OF evp node(1-3)] sha by simp
  moreover have fd: "file_size f p = of_nat (length d)" "is_regular_file f p" "open_in f p = Some (stream_of d)"
    using node by (simp_all add: file_size_def file_data_def is_regular_file_def open_in_def)
  moreover obtain i' where
    "hash_chunks evp (unat c) (stream_of d) [] = Inr (map (\<lambda>b. hex_encode (H b)) (blocks (unat c) d), i')" "eofbit i'"
    using hash_chunks_blocks [of evp "\<lambda>b. hex_encode (H b)" "unat c" "stream_of d" "[]"] sha chunk(1)
    by (auto simp: unat_gt_0)
  moreover note len = length_blocks_expected [OF chunk(1) node(4)]
  moreover have "manifest_validate ?m = Inr ()"
    using evp chunk name len
    by (auto simp: manifest_validate_Inr evp_computes_def list_all_iff hex_digest_is_sha256)
  ultimately show ?thesis using chunk
    by (simp add: manifest_from_file_def Let_def)
qed

text \<open>
  C30. A manifest made from a file describes exactly that file: its size, the digest of its
  bytes, and the digests of its consecutive blocks of the chunk size, the last one shorter
  where the size is not a multiple.
\<close>

theorem manifest_from_file_correct:
  assumes evp: "evp_computes evp H"
    and node: "nodes f p = Some (Regular d)" "\<not> unreadable f p" "fault_at f p = None" "length d < 2 ^ 64"
    and chunk: "c \<noteq> 0" "c \<le> kMaxChunkSize" "length (blocks (unat c) d) \<le> kMaxChunkCount"
    and name: "safe_file_name (path_filename p)"
  shows "manifest_from_file evp f p c = Inr \<lparr>file_name = path_filename p,
    file_size_bytes = of_nat (length d), chunk_size_bytes = c, file_sha256 = hex_encode (H d),
    chunk_hashes = map (\<lambda>b. hex_encode (H b)) (blocks (unat c) d)\<rparr>"
  by (rule manifest_from_file_blocks [OF assms])

theorem manifest_from_file_correct_witness:
  "manifest_from_file sample_evp (no_faults ''a.bin'' ''abcdefgh'') ''a.bin'' 3 =
     Inr \<lparr>file_name = ''a.bin'', file_size_bytes = 8, chunk_size_bytes = 3,
       file_sha256 = hex_encode (sample_digest ''abcdefgh''),
       chunk_hashes = [hex_encode (sample_digest ''abc''), hex_encode (sample_digest ''def''),
         hex_encode (sample_digest ''gh'')]\<rparr>"
proof -
  have b: "blocks 3 ''abcdefgh'' = [''abc'', ''def'', ''gh'']"
    by (simp add: blocks.simps)
  have n: "path_filename ''a.bin'' = ''a.bin''" by (simp add: path_filename_def)
  show ?thesis
    using manifest_from_file_correct [OF sample_evp_computes,
        of "no_faults ''a.bin'' ''abcdefgh''" "''a.bin''" "''abcdefgh''" 3]
    by (simp add: b n no_faults_def kMaxChunkSize_def kMaxChunkCount_def safe_file_name_def)
qed

theorem manifest_sources_valid_witness:
  "\<exists>m. manifest_load (no_faults ''m'' (manifest_text sample_manifest)) ''m'' = Inr m \<and>
     manifest_validate m = Inr () \<and>
     (\<exists>text. manifest_serialize m = Inr text \<and> manifest_parse (stream_of text) ''q'' = Inr m)"
proof -
  have "manifest_load (no_faults ''m'' (manifest_text sample_manifest)) ''m'' = Inr sample_manifest"
    by (simp add: manifest_load_def open_in_def no_faults_def manifest_parse_text sample_manifest_valid)
  then show ?thesis
    using manifest_sources_valid [of sample_evp "no_faults ''m'' (manifest_text sample_manifest)" "''m''" 0
        sample_manifest "''q''"] by blast
qed

text \<open>
  An invalid manifest is not written, but the file it would have replaced is emptied: the
  output stream truncates it before \<^verbatim>\<open>serialize\<close> rejects the manifest.
\<close>

theorem manifest_save_invalid_truncates:
  assumes "manifest_validate m = Inl e" and "mkdir_error env = None" "out_opens env"
  shows "fst (manifest_save env m f p) = Inl e \<and>
    nodes (snd (manifest_save env m f p)) p = Some (Regular [])"
  using assms by (simp add: manifest_save_def Let_def manifest_serialize_def)

theorem manifest_save_invalid_truncates_witness:
  "\<exists>e. fst (manifest_save save_ok (sample_manifest\<lparr>file_name := ''..''\<rparr>) (no_faults ''m'' ''old'') ''m'') = Inl e \<and>
     nodes (snd (manifest_save save_ok (sample_manifest\<lparr>file_name := ''..''\<rparr>) (no_faults ''m'' ''old'') ''m'')) ''m''
       = Some (Regular [])"
  using manifest_save_invalid_truncates [of "sample_manifest\<lparr>file_name := ''..''\<rparr>"
      "Error ''Manifest file name is not a safe basename''" save_ok "no_faults ''m'' ''old''" "''m''"]
  by (simp add: manifest_validate_def safe_file_name_def save_ok_def)

section \<open>Reading a chunk from a file\<close>

text \<open>The bytes of chunk \<open>i\<close> in the contents of a file.\<close>

definition chunk_bytes :: "manifest \<Rightarrow> bytes \<Rightarrow> nat \<Rightarrow> bytes" where
  "chunk_bytes m d i = take (unat (chunk_size_bytes m)) (drop (i * unat (chunk_size_bytes m)) d)"

lemma chunk_bytes_blocks:
  "0 < unat (chunk_size_bytes m) \<Longrightarrow> i < length (blocks (unat (chunk_size_bytes m)) d) \<Longrightarrow>
     chunk_bytes m d i = blocks (unat (chunk_size_bytes m)) d ! i"
  by (simp add: chunk_bytes_def nth_blocks)

lemma manifest_offset_bound:
  assumes "manifest_validate m = Inr ()" and "unat i < length (chunk_hashes m)"
  shows "unat i * unat (chunk_size_bytes m) < 2 ^ 62"
proof -
  have "unat i \<le> 1000000" using assms by (simp add: manifest_validate_Inr kMaxChunkCount_def)
  moreover have "unat (chunk_size_bytes m) \<le> 4194304"
    using assms(1) unat_chunk_size_le by (simp add: manifest_validate_Inr)
  ultimately have "unat i * unat (chunk_size_bytes m) \<le> 1000000 * 4194304" by (rule mult_le_mono)
  then show ?thesis by simp
qed

lemma read_chunk:
  assumes "manifest_validate m = Inr ()" and "unat i < length (chunk_hashes m)"
    and "length d = unat (file_size_bytes m)"
  obtains ofs sz where "manifest_chunk_offset m i = Inr ofs" and "manifest_chunk_size m i = Inr sz"
    and "unat ofs = unat i * unat (chunk_size_bytes m)"
    and "length (chunk_bytes m d (unat i)) = unat sz" and "unat sz \<le> 4194304" and "0 < unat sz"
    and "fst (stream_read (stream_seek (stream_of d) ofs) (unat sz)) = chunk_bytes m d (unat i)"
proof -
  let ?c = "unat (chunk_size_bytes m)"
  obtain ofs where o: "manifest_chunk_offset m i = Inr ofs" "unat ofs = unat i * ?c"
    using assms(1,2) by (rule manifest_chunk_offset_unat)
  obtain sz where s: "manifest_chunk_size m i = Inr sz"
      "unat sz = min (unat (file_size_bytes m) - unat i * ?c) ?c"
    using assms(1,2) by (rule manifest_chunk_size_unat)
  have c: "0 < ?c" "?c \<le> 4194304"
    using assms(1) unat_chunk_size_le by (auto simp: manifest_validate_Inr unat_gt_0)
  have last: "unat i * ?c < unat (file_size_bytes m)" using manifest_last_offset [OF assms(1,2)] .
  have len: "length (chunk_bytes m d (unat i)) = unat sz"
    using assms(3) s(2) by (simp add: chunk_bytes_def min.commute)
  have small: "unat ofs < 2 ^ 63" using manifest_offset_bound [OF assms(1,2)] o(2) by simp
  have "unat sz \<le> length (drop (unat ofs) d)" using assms(3) s(2) o(2) by simp
  then have "fst (stream_read (stream_seek (stream_of d) ofs) (unat sz)) = take (unat sz) (drop (unat ofs) d)"
    using small by (simp add: stream_seek_def stream_read_def)
  also have "\<dots> = chunk_bytes m d (unat i)"
    using s(2) o(2) assms(3) by (simp add: chunk_bytes_def min_def)
  finally show thesis using that o s(1) len last c s(2) by simp
qed

end
