(* ===== verification/Protocol.thy ===== *)
theory Protocol
  imports Crypto
begin

text \<open>
  The header grammar of \<^verbatim>\<open>src/protocol.cpp\<close>: splitting a header into fields, the checks on
  tokens and identifiers, chunk lists, and the three request and response headers. The socket
  functions of the same file are in the theories \<open>Wire\<close> and \<open>Sockets\<close>.
\<close>

section \<open>Data\<close>

definition kMaxHeaderBytes :: nat where
  "kMaxHeaderBytes = 8192"

definition kMaxChunkBytes :: u32 where
  "kMaxChunkBytes = 4 * 1024 * 1024"

record endpoint =
  host :: string
  port :: u16

datatype tracker_request_kind = Announce | Peers

record tracker_request =
  tr_kind :: tracker_request_kind
  tr_token :: string
  tr_swarm_id :: string
  tr_peer_id :: string
  tr_listen_port :: u16
  tr_has_all_chunks :: bool
  tr_chunks :: "u32 list"

record chunk_request =
  cr_token :: string
  cr_swarm_id :: string
  cr_chunk_index :: u32

record data_header =
  byte_count :: u32
  sha256 :: string

section \<open>Fields\<close>

text \<open>
  The loop over a header, with the three messages it may throw (control character, empty field,
  trailing separator). \<open>cur\<close> is \<^verbatim>\<open>header.substr(start, index - start)\<close>, the field being read.
\<close>

fun split_loop :: "string \<times> string \<times> string \<Rightarrow> string \<Rightarrow> string \<Rightarrow> string list \<Rightarrow> string list result" where
  "split_loop (ctrl, blank, trailing) [] cur acc =
     (if cur = [] then throw trailing else Inr (acc @ [cur]))"
| "split_loop (ctrl, blank, trailing) (c # rest) cur acc =
     (if (of_char c :: nat) < 32 \<or> (of_char c :: nat) > 126 then throw ctrl
      else if c = CHR '' '' then
        (if cur = [] then throw blank
         else split_loop (ctrl, blank, trailing) rest [] (acc @ [cur]))
      else split_loop (ctrl, blank, trailing) rest (cur @ [c]) acc)"

definition split_header :: "string \<Rightarrow> string list result" where
  "split_header header =
     (if header = [] \<or> length header > kMaxHeaderBytes
      then throw ''Protocol header has an invalid length''
      else split_loop (''Protocol header contains a control character'',
        ''Protocol header contains an empty field'', ''Protocol header ends with a separator'') header [] [])"

definition atom_char :: "char \<Rightarrow> bool" where
  "atom_char c \<longleftrightarrow>
     (let n = (of_char c :: nat)
      in (97 \<le> n \<and> n \<le> 122) \<or> (65 \<le> n \<and> n \<le> 90) \<or> (48 \<le> n \<and> n \<le> 57) \<or>
         c = CHR ''-'' \<or> c = CHR ''_'' \<or> c = CHR ''.'' \<or> c = CHR '':'')"

definition safe_atom :: "string \<Rightarrow> bool" where
  "safe_atom value \<longleftrightarrow> value \<noteq> [] \<and> length value \<le> 128 \<and> list_all atom_char value"

definition require_atom :: "string \<Rightarrow> string \<Rightarrow> unit result" where
  "require_atom value name =
     (if \<not> safe_atom value then throw (''Protocol '' @ name @ '' contains invalid characters'') else Inr ())"

definition parse_number :: "string \<Rightarrow> string \<Rightarrow> 'w::len word result" where
  "parse_number value name =
     (if value = [] then throw (''Protocol '' @ name @ '' is empty'')
      else let (end', error, result) = from_chars value
           in if error \<noteq> Errc_ok \<or> end' \<noteq> []
              then throw (''Protocol '' @ name @ '' is not an unsigned integer'')
              else Inr result)"

section \<open>Chunk lists\<close>

text \<open>The loop of \<^verbatim>\<open>parse_chunk_list\<close>; \<open>rest\<close> is the part of the value from \<^verbatim>\<open>start\<close> on.\<close>

function parse_chunk_loop :: "string \<Rightarrow> u32 list \<Rightarrow> u32 list result" where
  "parse_chunk_loop rest chunks =
     (if rest = [] then Inr chunks
      else rbind (parse_number (before CHR '','' rest) ''chunk list entry'') (\<lambda>chunk.
        if chunks \<noteq> [] \<and> chunk \<le> last chunks
        then throw ''Protocol chunk advertisements must be sorted and unique''
        else if CHR '','' \<notin> set rest then Inr (chunks @ [chunk])
        else if behind CHR '','' rest = [] then throw ''Protocol chunk list has an empty entry''
        else parse_chunk_loop (behind CHR '','' rest) (chunks @ [chunk])))"
  by pat_completeness auto
termination
  by (relation "measure (\<lambda>(rest, chunks). length rest)") (auto simp: length_behind)

declare parse_chunk_loop.simps [simp del]

definition parse_chunk_list :: "string \<Rightarrow> u32 list result" where
  "parse_chunk_list value =
     (if value = ''all'' \<or> value = ''none'' then Inr []
      else rbind (parse_chunk_loop value []) (\<lambda>chunks.
        if chunks = [] then throw ''Protocol chunk list cannot be empty'' else Inr chunks))"

text \<open>The loop of \<^verbatim>\<open>encode_chunk_list\<close>; \<open>prev\<close> is \<^verbatim>\<open>chunks[index - 1]\<close>, if there is one.\<close>

fun encode_chunk_loop :: "u32 list \<Rightarrow> u32 option \<Rightarrow> string \<Rightarrow> string result" where
  "encode_chunk_loop [] prev output = Inr output"
| "encode_chunk_loop (c # cs) prev output =
     (let output = (if prev \<noteq> None then output @ '','' else output)
      in if prev \<noteq> None \<and> c \<le> the prev then throw ''Chunk list must be sorted and unique''
         else encode_chunk_loop cs (Some c) (output @ dec (unat c)))"

definition encode_chunk_list :: "u32 list \<Rightarrow> bool \<Rightarrow> string result" where
  "encode_chunk_list chunks has_all_chunks =
     (if has_all_chunks then Inr ''all''
      else if chunks = [] then Inr ''none''
      else encode_chunk_loop chunks None [])"

section \<open>Requests and responses\<close>

definition parse_tracker_request :: "string \<Rightarrow> tracker_request result" where
  "parse_tracker_request header =
     rbind (split_header header) (\<lambda>fields.
     if hd fields = ''ANNOUNCE'' then
       (if length fields \<noteq> 6 then throw ''ANNOUNCE requires token, swarm, peer, port, and chunks''
        else
          rbind (require_atom (fields ! 1) ''token'') (\<lambda>_.
          rbind (require_atom (fields ! 2) ''swarm id'') (\<lambda>_.
          rbind (require_atom (fields ! 3) ''peer id'') (\<lambda>_.
          rbind (parse_number (fields ! 4) ''listen port'') (\<lambda>port :: u32.
          if port = 0 \<or> port > 65535 then throw ''Protocol listen port is outside range''
          else rbind (parse_chunk_list (fields ! 5)) (\<lambda>chunks.
            Inr \<lparr>tr_kind = Announce, tr_token = fields ! 1, tr_swarm_id = fields ! 2,
                 tr_peer_id = fields ! 3, tr_listen_port = ucast port,
                 tr_has_all_chunks = (fields ! 5 = ''all''), tr_chunks = chunks\<rparr>))))))
     else if hd fields = ''PEERS'' then
       (if length fields \<noteq> 3 then throw ''PEERS requires token and swarm id''
        else
          rbind (require_atom (fields ! 1) ''token'') (\<lambda>_.
          rbind (require_atom (fields ! 2) ''swarm id'') (\<lambda>_.
          Inr \<lparr>tr_kind = Peers, tr_token = fields ! 1, tr_swarm_id = fields ! 2, tr_peer_id = [],
               tr_listen_port = 0, tr_has_all_chunks = False, tr_chunks = []\<rparr>)))
     else throw ''Unsupported tracker command'')"

definition parse_chunk_request :: "string \<Rightarrow> chunk_request result" where
  "parse_chunk_request header =
     rbind (split_header header) (\<lambda>fields.
     if length fields \<noteq> 4 \<or> hd fields \<noteq> ''GET'' then throw ''GET requires token, swarm id, and chunk index''
     else
       rbind (require_atom (fields ! 1) ''token'') (\<lambda>_.
       rbind (require_atom (fields ! 2) ''swarm id'') (\<lambda>_.
       rbind (parse_number (fields ! 3) ''chunk index'') (\<lambda>index.
       Inr \<lparr>cr_token = fields ! 1, cr_swarm_id = fields ! 2, cr_chunk_index = index\<rparr>))))"

definition parse_data_header :: "string \<Rightarrow> data_header result" where
  "parse_data_header header =
     rbind (split_header header) (\<lambda>fields.
     if length fields \<noteq> 3 \<or> hd fields \<noteq> ''DATA'' then throw ''DATA requires byte count and SHA-256 digest''
     else
       rbind (parse_number (fields ! 1) ''byte count'') (\<lambda>count.
       if count > kMaxChunkBytes \<or> \<not> is_sha256_hex (fields ! 2)
       then throw ''DATA header is outside protocol limits''
       else Inr \<lparr>byte_count = count, sha256 = fields ! 2\<rparr>))"

section \<open>The parsers keep their contracts\<close>

interpretation pn: unsigned_parser parse_number
proof
  show "parse_number s field = Inr w \<longleftrightarrow> s \<noteq> [] \<and> list_all is_digit s \<and> dec_value s = unat w"
    for s field and w :: "'w::len word"
    using from_chars_complete [of s w]
    by (auto simp: parse_number_def split: prod.splits)
qed

text \<open>
  What a field is: a non-empty run of printable characters other than the blank. The contract
  of the two header splitters (this one and the tracker client's) is that they invert joining
  fields with single blanks, on headers of at most \<^const>\<open>kMaxHeaderBytes\<close>.
\<close>

definition graphic :: "char \<Rightarrow> bool" where
  "graphic c \<longleftrightarrow> (33::nat) \<le> of_char c \<and> of_char c \<le> (126::nat)"

definition wf_field :: "string \<Rightarrow> bool" where
  "wf_field f \<longleftrightarrow> f \<noteq> [] \<and> list_all graphic f"

locale field_splitter =
  fixes split :: "string \<Rightarrow> string list result"
  assumes split_Inr: "split s = Inr fs \<longleftrightarrow>
    length s \<le> kMaxHeaderBytes \<and> fs \<noteq> [] \<and> list_all wf_field fs \<and> s = join_with CHR '' '' fs"
begin

lemma split_join:
  "fs \<noteq> [] \<Longrightarrow> list_all wf_field fs \<Longrightarrow> length (join_with CHR '' '' fs) \<le> kMaxHeaderBytes \<Longrightarrow>
     split (join_with CHR '' '' fs) = Inr fs"
  by (simp add: split_Inr)

lemma split_unique: "split s = Inr fs \<Longrightarrow> split s' = Inr fs \<Longrightarrow> s = s'"
  by (simp add: split_Inr)

lemma split_too_long: "kMaxHeaderBytes < length s \<Longrightarrow> \<exists>e. split s = Inl e"
  by (cases "split s") (auto simp: split_Inr)

end

lemma graphic_not_blank [simp]: "\<not> graphic CHR '' ''"
  by (simp add: graphic_def)

lemma graphic_no_blank: "list_all graphic x \<Longrightarrow> CHR '' '' \<notin> set x"
  by (rule list_all_not_in [where P = graphic]) simp_all

lemma join_with_split_first:
  "list_all wf_field gs \<Longrightarrow> join_with CHR '' '' gs = cur @ CHR '' '' # rest \<Longrightarrow> list_all graphic cur \<Longrightarrow>
     \<exists>gs'. gs = cur # gs' \<and> gs' \<noteq> [] \<and> join_with CHR '' '' gs' = rest"
proof -
  assume wf: "list_all wf_field gs" and j: "join_with CHR '' '' gs = cur @ CHR '' '' # rest"
    and cur: "list_all graphic cur"
  from j obtain g gs' where gs: "gs = g # gs'" by (cases gs) auto
  with wf have g: "CHR '' '' \<notin> set g" by (simp add: wf_field_def graphic_no_blank)
  show ?thesis
  proof (cases "gs' = []")
    case True
    with j gs g show ?thesis by (metis in_set_conv_decomp join_with.simps(2))
  next
    case False
    with j gs have "g @ CHR '' '' # join_with CHR '' '' gs' = cur @ CHR '' '' # rest"
      by (simp add: join_with_Cons)
    with g graphic_no_blank [OF cur] have "g = cur \<and> join_with CHR '' '' gs' = rest"
      by (metis before_append behind_append)
    with gs False show ?thesis by simp
  qed
qed

lemma not_printable: "\<not> graphic c \<Longrightarrow> c \<noteq> CHR '' '' \<Longrightarrow> (of_char c :: nat) < 32 \<or> (of_char c :: nat) > 126"
proof (rule ccontr)
  assume "\<not> graphic c" "c \<noteq> CHR '' ''" "\<not> ((of_char c :: nat) < 32 \<or> (of_char c :: nat) > 126)"
  then have "(of_char c :: nat) = of_char CHR '' ''" by (auto simp: graphic_def)
  with \<open>c \<noteq> CHR '' ''\<close> show False by (simp only: of_char_eq_iff)
qed

lemma join_with_chars: "list_all wf_field gs \<Longrightarrow> c \<in> set (join_with CHR '' '' gs) \<Longrightarrow> graphic c \<or> c = CHR '' ''"
  using set_join_with [of "CHR '' ''" gs] by (fastforce simp: list_all_iff wf_field_def)

lemma join_with_wf_nonempty: "gs \<noteq> [] \<Longrightarrow> list_all wf_field gs \<Longrightarrow> join_with CHR '' '' gs \<noteq> []"
  by (rule join_with_nonempty) (auto simp: list_all_iff wf_field_def)

text \<open>How the fields that are still to come relate to the field being read.\<close>

lemma joined_end:
  assumes "list_all graphic cur"
  shows "(\<exists>gs. fs = acc @ gs \<and> gs \<noteq> [] \<and> list_all wf_field gs \<and> cur = join_with CHR '' '' gs) \<longleftrightarrow> cur \<noteq> [] \<and> fs = acc @ [cur]"
proof
  assume "\<exists>gs. fs = acc @ gs \<and> gs \<noteq> [] \<and> list_all wf_field gs \<and> cur = join_with CHR '' '' gs"
  then obtain gs where gs: "fs = acc @ gs" "gs \<noteq> []" "list_all wf_field gs" "cur = join_with CHR '' '' gs" by blast
  have "gs = [cur] \<and> cur \<noteq> []"
  proof (cases "tl gs = []")
    case True
    with gs show ?thesis by (cases gs) (auto simp: wf_field_def)
  next
    case False
    then have "CHR '' '' \<in> set cur" using gs by (cases gs) (auto simp: join_with_Cons)
    with graphic_no_blank [OF assms] show ?thesis by blast
  qed
  with gs(1) show "cur \<noteq> [] \<and> fs = acc @ [cur]" by simp
next
  assume "cur \<noteq> [] \<and> fs = acc @ [cur]"
  with assms show "\<exists>gs. fs = acc @ gs \<and> gs \<noteq> [] \<and> list_all wf_field gs \<and> cur = join_with CHR '' '' gs"
    by (intro exI [of _ "[cur]"]) (simp add: wf_field_def)
qed

lemma joined_blank:
  assumes "list_all graphic cur"
  shows "(\<exists>gs. fs = acc @ gs \<and> gs \<noteq> [] \<and> list_all wf_field gs \<and> cur @ CHR '' '' # rest = join_with CHR '' '' gs) \<longleftrightarrow>
    cur \<noteq> [] \<and> (\<exists>gs. fs = (acc @ [cur]) @ gs \<and> gs \<noteq> [] \<and> list_all wf_field gs \<and> rest = join_with CHR '' '' gs)"
proof
  assume "\<exists>gs. fs = acc @ gs \<and> gs \<noteq> [] \<and> list_all wf_field gs \<and> cur @ CHR '' '' # rest = join_with CHR '' '' gs"
  then obtain gs where "fs = acc @ gs" "list_all wf_field gs" "join_with CHR '' '' gs = cur @ CHR '' '' # rest" by auto
  with join_with_split_first [OF this(2,3) assms]
  show "cur \<noteq> [] \<and> (\<exists>gs. fs = (acc @ [cur]) @ gs \<and> gs \<noteq> [] \<and> list_all wf_field gs \<and> rest = join_with CHR '' '' gs)"
    by (auto simp: wf_field_def)
next
  assume "cur \<noteq> [] \<and> (\<exists>gs. fs = (acc @ [cur]) @ gs \<and> gs \<noteq> [] \<and> list_all wf_field gs \<and> rest = join_with CHR '' '' gs)"
  then obtain gs where "fs = (acc @ [cur]) @ gs" "gs \<noteq> []" "list_all wf_field gs" "rest = join_with CHR '' '' gs" "cur \<noteq> []" by auto
  with assms show "\<exists>gs. fs = acc @ gs \<and> gs \<noteq> [] \<and> list_all wf_field gs \<and> cur @ CHR '' '' # rest = join_with CHR '' '' gs"
    by (intro exI [of _ "cur # gs"]) (auto simp: join_with_Cons wf_field_def)
qed

lemma joined_control:
  assumes "\<not> graphic c" and "c \<noteq> CHR '' ''" and "list_all wf_field gs"
  shows "cur @ c # rest \<noteq> join_with CHR '' '' gs"
proof
  assume "cur @ c # rest = join_with CHR '' '' gs"
  then have "c \<in> set (join_with CHR '' '' gs)" by (metis in_set_conv_decomp)
  with join_with_chars assms show False by blast
qed

lemma split_loop_Inr:
  "list_all graphic cur \<Longrightarrow>
     split_loop msgs rest cur acc = Inr fs \<longleftrightarrow>
     (\<exists>gs. fs = acc @ gs \<and> gs \<noteq> [] \<and> list_all wf_field gs \<and> cur @ rest = join_with CHR '' '' gs)"
proof (induction msgs rest cur acc rule: split_loop.induct)
  case (1 ctrl blank trailing cur acc)
  then show ?case using joined_end [of cur fs acc] by auto
next
  case (2 ctrl blank trailing c rest cur acc)
  consider (ctrl) "\<not> graphic c" "c \<noteq> CHR '' ''" | (blank) "c = CHR '' ''" | (char) "graphic c" by blast
  then show ?case
  proof cases
    case ctrl
    then have "(of_char c :: nat) < 32 \<or> (of_char c :: nat) > 126" by (rule not_printable)
    then show ?thesis using joined_control [OF ctrl] by auto
  next
    case blank
    then show ?thesis using 2 joined_blank [OF "2.prems", of fs acc rest] by auto
  next
    case char
    then have "\<not> ((of_char c :: nat) < 32 \<or> (of_char c :: nat) > 126)" "c \<noteq> CHR '' ''"
      by (auto simp: graphic_def)
    with 2 char show ?thesis by simp
  qed
qed

interpretation ph: field_splitter split_header
proof
  show "split_header s = Inr fs \<longleftrightarrow>
      length s \<le> kMaxHeaderBytes \<and> fs \<noteq> [] \<and> list_all wf_field fs \<and> s = join_with CHR '' '' fs" for s fs
    using split_loop_Inr [of "[]" _ s "[]" fs] join_with_wf_nonempty [of fs]
    by (auto simp: split_header_def)
qed

section \<open>Lemmas on chunk lists\<close>

lemma chunk_text_graphic: "list_all graphic (chunk_text cs)"
proof -
  have "graphic c" if "is_digit c" for c using that by (simp add: is_digit_def graphic_def)
  then have "list_all graphic (dec n)" for n using dec_digits by (auto simp: list_all_iff)
  then show ?thesis
    by (induction cs rule: induct_list012) (simp_all add: graphic_def)
qed

lemma encode_chunk_loop_text:
  "sorted_wrt (<) cs \<Longrightarrow> \<forall>p c. prev = Some p \<longrightarrow> c \<in> set cs \<longrightarrow> p < c \<Longrightarrow>
     encode_chunk_loop cs prev out =
     Inr (out @ (if prev \<noteq> None \<and> cs \<noteq> [] then '','' else []) @ chunk_text cs)"
proof (induction cs prev out rule: encode_chunk_loop.induct)
  case (2 c cs prev out)
  then have "p < c" if "prev = Some p" for p using that by simp
  then have "\<not> (prev \<noteq> None \<and> c \<le> the prev)" by (cases prev) (auto simp: not_le)
  with 2 show ?case by (cases "cs = []") (auto simp: Let_def)
qed simp

lemma encode_chunk_loop_sorted:
  "encode_chunk_loop cs prev out = Inr t \<Longrightarrow>
     sorted_wrt (<) cs \<and> (\<forall>p c. prev = Some p \<longrightarrow> c \<in> set cs \<longrightarrow> p < c)"
proof (induction cs prev out rule: encode_chunk_loop.induct)
  case (2 c cs prev out)
  from "2.prems" have g: "\<not> (prev \<noteq> None \<and> c \<le> the prev)" by (auto simp: Let_def split: if_splits)
  with "2.prems" have "encode_chunk_loop cs (Some c)
      ((if prev \<noteq> None then out @ '','' else out) @ dec (unat c)) = Inr t"
    by (auto simp: Let_def split: if_splits)
  from "2.IH" [OF refl g this] g show ?case by fastforce
qed simp

lemma parse_chunk_loop_text:
  "cs \<noteq> [] \<Longrightarrow> sorted_wrt (<) (chunks @ cs) \<Longrightarrow> parse_chunk_loop (chunk_text cs) chunks = Inr (chunks @ cs)"
proof (induction cs arbitrary: chunks rule: induct_list012)
  case (2 c)
  then show ?case
    by (subst parse_chunk_loop.simps) (auto simp: sorted_wrt_append not_le dest: last_in_set)
next
  case (3 c d cs)
  have "c \<le> last chunks \<longrightarrow> chunks = []"
    using 3(4) last_in_set [of chunks] by (fastforce simp: sorted_wrt_append)
  moreover have "parse_chunk_loop (chunk_text (d # cs)) (chunks @ [c]) = Inr (chunks @ c # d # cs)"
    using 3 by simp
  ultimately show ?case
    using chunk_text_nonempty [of "d # cs"] by (subst parse_chunk_loop.simps) auto
qed simp

lemma parse_chunk_loop_sorted:
  "parse_chunk_loop rest chunks = Inr r \<Longrightarrow> sorted_wrt (<) chunks \<Longrightarrow> sorted_wrt (<) r"
proof (induction rest chunks rule: parse_chunk_loop.induct)
  case (1 rest chunks)
  have app: "sorted_wrt (<) (chunks @ [c])" if "\<not> (chunks \<noteq> [] \<and> c \<le> last chunks)" for c
    using that "1.prems"(2) by (cases chunks rule: rev_cases) (auto simp: sorted_wrt_append)
  show ?case
  proof (cases "rest = []")
    case True
    with 1 show ?thesis by (simp add: parse_chunk_loop.simps)
  next
    case False
    with "1.prems" obtain c where c: "parse_number (before CHR '','' rest) ''chunk list entry'' = Inr c"
        "\<not> (chunks \<noteq> [] \<and> c \<le> last chunks)"
      and step: "(if CHR '','' \<notin> set rest then Inr (chunks @ [c])
        else if behind CHR '','' rest = [] then throw ''Protocol chunk list has an empty entry''
        else parse_chunk_loop (behind CHR '','' rest) (chunks @ [c])) = Inr r"
      by (subst (asm) parse_chunk_loop.simps) (auto simp: result_simps split: if_splits)
    with 1(1) [OF False c] app [OF c(2)] show ?thesis by (auto split: if_splits)
  qed
qed

lemma encode_chunk_list_Inr:
  "encode_chunk_list cs all = Inr t \<longleftrightarrow>
     (if all then t = ''all'' else if cs = [] then t = ''none'' else sorted_wrt (<) cs \<and> t = chunk_text cs)"
  using encode_chunk_loop_text [of cs None "[]"] encode_chunk_loop_sorted [of cs None "[]" t]
  by (auto simp: encode_chunk_list_def)

text \<open>
  Chunk advertisements are exchanged without loss: what \<^verbatim>\<open>encode_chunk_list\<close> produces is
  parsed back to the same chunks (none are listed for a complete peer), the encoder refuses
  exactly the lists that are not strictly increasing, and every list the parser accepts is
  strictly increasing, as the binary search of the downloader needs.
\<close>

theorem chunk_list_roundtrip:
  "((\<exists>t. encode_chunk_list cs all = Inr t) \<longleftrightarrow> all \<or> sorted_wrt (<) cs) \<and>
   (\<forall>t. encode_chunk_list cs all = Inr t \<longrightarrow>
      parse_chunk_list t = Inr (if all then [] else cs) \<and> (t = ''all'' \<longleftrightarrow> all)) \<and>
   (\<forall>v r. parse_chunk_list v = Inr r \<longrightarrow> sorted_wrt (<) r)"
proof (intro conjI allI impI)
  show "(\<exists>t. encode_chunk_list cs all = Inr t) \<longleftrightarrow> all \<or> sorted_wrt (<) cs"
    by (auto simp: encode_chunk_list_Inr)
  fix t assume t: "encode_chunk_list cs all = Inr t"
  then show "parse_chunk_list t = Inr (if all then [] else cs)"
    using chunk_text_not_word [of cs] parse_chunk_loop_text [of cs "[]"]
    by (auto simp: encode_chunk_list_Inr parse_chunk_list_def split: if_splits)
  from t show "t = ''all'' \<longleftrightarrow> all"
    using chunk_text_not_word [of cs] by (auto simp: encode_chunk_list_Inr split: if_splits)
next
  fix v r assume "parse_chunk_list v = Inr r"
  then show "sorted_wrt (<) r"
    using parse_chunk_loop_sorted [of v "[]"]
    by (auto simp: parse_chunk_list_def result_simps split: if_splits)
qed

theorem chunk_list_roundtrip_witness:
  "encode_chunk_list [0, 2, 9] False = Inr ''0,2,9'' \<and> parse_chunk_list ''0,2,9'' = Inr [0, 2, 9] \<and>
   (\<exists>e. encode_chunk_list [2, 2] False = Inl e)"
proof -
  have "encode_chunk_list [0, 2, 9] False = Inr ''0,2,9''"
    by (simp add: encode_chunk_list_def dec.simps digit_simps)
  moreover from this have "parse_chunk_list ''0,2,9'' = Inr [0, 2, 9]"
    using chunk_list_roundtrip [of "[0, 2, 9]" False] by simp
  moreover have "\<exists>e. encode_chunk_list [2, 2] False = Inl e"
    by (simp add: encode_chunk_list_def)
  ultimately show ?thesis by blast
qed

section \<open>Lemmas on requests\<close>

lemma atom_char_graphic: "atom_char c \<Longrightarrow> graphic c"
  by (auto simp: atom_char_def graphic_def Let_def)

lemma safe_atom_wf: "safe_atom a \<Longrightarrow> wf_field a"
  by (auto simp: safe_atom_def wf_field_def list_all_iff atom_char_graphic)

lemma dec_wf [simp]: "wf_field (dec n)"
  using chunk_text_graphic [of "[of_nat n]"] dec_digits [of n]
  by (auto simp: wf_field_def list_all_iff is_digit_def graphic_def)

lemma encoded_wf: "encode_chunk_list cs all = Inr t \<Longrightarrow> wf_field t"
  using chunk_text_graphic [of cs] chunk_text_nonempty [of cs]
  by (auto simp: encode_chunk_list_Inr wf_field_def graphic_def split: if_splits)

lemma sha256_wf: "is_sha256_hex h \<Longrightarrow> wf_field h"
  by (auto simp: is_sha256_hex_def wf_field_def list_all_iff is_lower_hex_def graphic_def)

lemma verbs_wf [simp]:
  "wf_field ''ANNOUNCE''" "wf_field ''PEERS''" "wf_field ''GET''" "wf_field ''DATA''" "wf_field ''PEER''"
  by (simp_all add: wf_field_def graphic_def)

lemma require_atom_Inr [simp]: "require_atom a n = Inr u \<longleftrightarrow> safe_atom a"
  by (simp add: require_atom_def)

lemma require_atom_safe: "safe_atom a \<Longrightarrow> require_atom a n = Inr ()"
  by (simp add: require_atom_def)

lemma unat_u16_less: "unat (p :: u16) < 65536"
  using unsigned_less [of p, where 'a = nat] by simp

lemma parse_chunk_list_encoded:
  "encode_chunk_list cs all = Inr t \<Longrightarrow> parse_chunk_list t = Inr (if all then [] else cs) \<and> (t = ''all'' \<longleftrightarrow> all)"
  using chunk_text_not_word [of cs] parse_chunk_loop_text [of cs "[]"]
  by (auto simp: encode_chunk_list_Inr parse_chunk_list_def split: if_splits)

lemma parse_announce:
  assumes "safe_atom token" "safe_atom swarm" "safe_atom peer" "p \<noteq> 0"
    and t: "encode_chunk_list cs all = Inr t"
    and len: "length (join_with CHR '' '' [''ANNOUNCE'', token, swarm, peer, dec (unat p), t]) \<le> kMaxHeaderBytes"
  shows "parse_tracker_request (join_with CHR '' '' [''ANNOUNCE'', token, swarm, peer, dec (unat (p :: u16)), t]) =
    Inr \<lparr>tr_kind = Announce, tr_token = token, tr_swarm_id = swarm, tr_peer_id = peer, tr_listen_port = p,
      tr_has_all_chunks = all, tr_chunks = (if all then [] else cs)\<rparr>"
proof -
  let ?fs = "[''ANNOUNCE'', token, swarm, peer, dec (unat p), t]"
  have "split_header (join_with CHR '' '' ?fs) = Inr ?fs"
    using assms encoded_wf [OF t] by (intro ph.split_join) (simp_all add: safe_atom_wf)
  moreover have "parse_number (dec (unat p)) ''listen port'' = Inr (of_nat (unat p) :: u32)"
    using unat_u16_less [of p] by (intro pn.parse_dec) simp
  moreover have "unat (of_nat (unat p) :: u32) = unat p"
    using unat_u16_less [of p] by (simp add: unsigned_ucast_eq take_bit_nat_eq_self)
  moreover from this have "(of_nat (unat p) :: u32) \<noteq> 0" "\<not> (of_nat (unat p) :: u32) > 65535"
    "ucast (of_nat (unat p) :: u32) = p"
    using \<open>p \<noteq> 0\<close> unat_u16_less [of p]
    by (auto simp: word_less_nat_alt word_eq_iff_unsigned [where 'a = nat] unsigned_ucast_eq take_bit_nat_eq_self take_bit_word_eq_self)
  ultimately show ?thesis
    using assms parse_chunk_list_encoded [OF t]
    by (simp add: parse_tracker_request_def require_atom_safe del: join_with.simps)
qed

lemma parse_peers:
  assumes "safe_atom token" "safe_atom swarm"
  shows "parse_tracker_request (join_with CHR '' '' [''PEERS'', token, swarm]) =
    Inr \<lparr>tr_kind = Peers, tr_token = token, tr_swarm_id = swarm, tr_peer_id = [], tr_listen_port = 0,
      tr_has_all_chunks = False, tr_chunks = []\<rparr>"
proof -
  have "split_header (join_with CHR '' '' [''PEERS'', token, swarm]) = Inr [''PEERS'', token, swarm]"
    using assms by (intro ph.split_join) (auto simp: safe_atom_wf safe_atom_def kMaxHeaderBytes_def)
  with assms show ?thesis
    by (simp add: parse_tracker_request_def require_atom_safe del: join_with.simps)
qed

lemma dec_length: "n < 10 ^ k \<Longrightarrow> 0 < k \<Longrightarrow> length (dec n) \<le> k"
proof (induction n arbitrary: k rule: dec.induct)
  case (1 n)
  show ?case
  proof (cases "n < 10")
    case True
    with 1 show ?thesis by (subst dec.simps) simp
  next
    case False
    then obtain j where j: "k = Suc j" "0 < j"
      using "1.prems" by (cases k; cases "k = 1") auto
    with "1.prems" have "n div 10 < 10 ^ j" by (simp add: less_mult_imp_div_less mult.commute)
    with 1 False j show ?thesis by (subst dec.simps) simp
  qed
qed

lemma parse_data_header_line:
  assumes "n \<le> 4194304" and "is_sha256_hex h"
  shows "parse_data_header (''DATA '' @ dec n @ '' '' @ h) = Inr \<lparr>byte_count = of_nat n, sha256 = h\<rparr>"
proof -
  let ?fs = "[''DATA'', dec n, h]"
  have "length (dec n) \<le> 7" using assms(1) by (intro dec_length) simp_all
  then have "split_header (join_with CHR '' '' ?fs) = Inr ?fs"
    using assms by (intro ph.split_join) (auto simp: sha256_wf kMaxHeaderBytes_def is_sha256_hex_def)
  moreover have "parse_number (dec n) ''byte count'' = Inr (of_nat n :: u32)"
    using assms(1) by (intro pn.parse_dec) simp
  moreover have "\<not> (of_nat n :: u32) > kMaxChunkBytes"
    using assms(1) by (simp add: kMaxChunkBytes_def word_less_nat_alt unat_of_nat take_bit_nat_eq_self)
  ultimately show ?thesis using assms(2)
    by (simp add: parse_data_header_def)
qed

section \<open>Properties of the headers\<close>

text \<open>
  C33. A header is split exactly at its single blanks: splitting succeeds with a list of fields
  if and only if the fields are non-empty printable words whose join with blanks is the
  header, of at most 8192 bytes. In particular no two headers split to the same fields, and
  control characters, double, leading and trailing blanks are refused.
\<close>

theorem split_header_exact:
  "split_header s = Inr fs \<longleftrightarrow>
     length s \<le> kMaxHeaderBytes \<and> fs \<noteq> [] \<and> list_all wf_field fs \<and> s = join_with CHR '' '' fs"
  by (rule ph.split_Inr)

lemma parse_tracker_request_fields:
  assumes "parse_tracker_request h = Inr r"
  shows "safe_atom (tr_token r) \<and> safe_atom (tr_swarm_id r) \<and> length h \<le> kMaxHeaderBytes \<and>
    (case tr_kind r of
       Announce \<Rightarrow> safe_atom (tr_peer_id r) \<and> tr_listen_port r \<noteq> 0 \<and> sorted_wrt (<) (tr_chunks r) \<and>
         (tr_has_all_chunks r \<longrightarrow> tr_chunks r = [])
     | Peers \<Rightarrow> tr_peer_id r = [] \<and> tr_listen_port r = 0 \<and> \<not> tr_has_all_chunks r \<and> tr_chunks r = [])"
proof -
  obtain fs where fs: "split_header h = Inr fs" using assms by (auto simp: parse_tracker_request_def result_simps)
  have port: "(ucast p :: u16) \<noteq> 0" if "p \<noteq> 0" "\<not> p > 65535" for p :: u32
  proof -
    have "unat (ucast p :: u16) = unat p"
      using that(2) by (simp add: unsigned_ucast_eq word_less_nat_alt take_bit_nat_eq_self)
    with that(1) show ?thesis by (metis unsigned_0 unsigned_word_eqI)
  qed
  have sorted: "sorted_wrt (<) cs" if "parse_chunk_list v = Inr cs" for v cs
    using that parse_chunk_loop_sorted [of v "[]" cs]
    by (auto simp: parse_chunk_list_def result_simps split: if_splits)
  have all: "cs = []" if "parse_chunk_list ''all'' = Inr cs" for cs
    using that by (simp add: parse_chunk_list_def)
  have "length h \<le> kMaxHeaderBytes" using fs unfolding ph.split_Inr by blast
  then show ?thesis using assms fs port sorted all
    by (auto simp: parse_tracker_request_def result_simps split: if_splits)
qed

text \<open>
  What the tracker acts on is well formed: an accepted request has a token and a swarm
  identifier that are safe atoms (at most 128 characters of a fixed alphabet without blanks);
  an announcement moreover a safe peer identifier, a port other than 0 and a strictly
  increasing chunk list, empty when all chunks are claimed; a query nothing else.
\<close>

theorem parse_tracker_request_wf:
  assumes "parse_tracker_request h = Inr r"
  shows "safe_atom (tr_token r) \<and> safe_atom (tr_swarm_id r) \<and> length h \<le> kMaxHeaderBytes \<and>
    (case tr_kind r of
       Announce \<Rightarrow> safe_atom (tr_peer_id r) \<and> tr_listen_port r \<noteq> 0 \<and> sorted_wrt (<) (tr_chunks r) \<and>
         (tr_has_all_chunks r \<longrightarrow> tr_chunks r = [])
     | Peers \<Rightarrow> tr_peer_id r = [] \<and> tr_listen_port r = 0 \<and> \<not> tr_has_all_chunks r \<and> tr_chunks r = [])"
  using assms by (rule parse_tracker_request_fields)

text \<open>
  A chunk request that a downloader writes is read by the peer as what was meant: token,
  swarm and chunk index come back unchanged, for every index and every safe token and swarm.
\<close>

theorem chunk_request_roundtrip:
  assumes "safe_atom token" "safe_atom swarm"
  shows "parse_chunk_request (''GET '' @ token @ '' '' @ swarm @ '' '' @ dec (unat index)) =
    Inr \<lparr>cr_token = token, cr_swarm_id = swarm, cr_chunk_index = index\<rparr>"
proof -
  have "dec (unat index) = chunk_text [index]" by simp
  have len: "length (dec (unat index)) \<le> 10"
    using dec_length [of "unat index" 10] unsigned_less [of index, where 'a = nat] by simp
  let ?fs = "[''GET'', token, swarm, dec (unat index)]"
  have "split_header (join_with CHR '' '' ?fs) = Inr ?fs"
    using assms len by (intro ph.split_join) (auto simp: safe_atom_wf safe_atom_def kMaxHeaderBytes_def)
  then show ?thesis using assms
    by (simp add: parse_chunk_request_def require_atom_safe)
qed

text \<open>
  A data header bounds what the downloader will read: an accepted header announces at most
  4194304 bytes and a well-formed digest, and the header a peer writes for such a chunk is
  accepted with the same count and digest.
\<close>

theorem data_header_bounds:
  "(\<forall>h d. parse_data_header h = Inr d \<longrightarrow> unat (byte_count d) \<le> 4194304 \<and> is_sha256_hex (sha256 d)) \<and>
   (\<forall>n h. n \<le> 4194304 \<longrightarrow> is_sha256_hex h \<longrightarrow>
      parse_data_header (''DATA '' @ dec n @ '' '' @ h) = Inr \<lparr>byte_count = of_nat n, sha256 = h\<rparr>)"
proof (intro conjI allI impI)
  fix h d assume "parse_data_header h = Inr d"
  then show "unat (byte_count d) \<le> 4194304" "is_sha256_hex (sha256 d)"
    by (auto simp: parse_data_header_def result_simps kMaxChunkBytes_def word_less_nat_alt split: if_splits)
next
  fix n :: nat and h assume n: "n \<le> 4194304" and h: "is_sha256_hex h"
  show "parse_data_header (''DATA '' @ dec n @ '' '' @ h) = Inr \<lparr>byte_count = of_nat n, sha256 = h\<rparr>"
    using n h by (rule parse_data_header_line)
qed


theorem parse_tracker_request_wf_witness:
  "\<exists>r. parse_tracker_request ''ANNOUNCE tok swarm-1 peer-a 45123 0,2,9'' = Inr r \<and> tr_kind r = Announce \<and>
     safe_atom (tr_peer_id r) \<and> sorted_wrt (<) (tr_chunks r)"
proof -
  have "encode_chunk_list [0, 2, 9] False = Inr ''0,2,9''" "dec (unat (45123 :: u16)) = ''45123''"
    by (simp_all add: encode_chunk_list_def dec.simps digit_simps)
  then have "parse_tracker_request ''ANNOUNCE tok swarm-1 peer-a 45123 0,2,9'' =
      Inr \<lparr>tr_kind = Announce, tr_token = ''tok'', tr_swarm_id = ''swarm-1'', tr_peer_id = ''peer-a'',
        tr_listen_port = 45123, tr_has_all_chunks = False, tr_chunks = [0, 2, 9]\<rparr>"
    using parse_announce [of "''tok''" "''swarm-1''" "''peer-a''" 45123 "[0, 2, 9]" False "''0,2,9''"]
    by (simp add: safe_atom_def atom_char_def kMaxHeaderBytes_def)
  then show ?thesis using parse_tracker_request_wf [of "''ANNOUNCE tok swarm-1 peer-a 45123 0,2,9''"]
    by fastforce
qed

theorem chunk_request_roundtrip_witness:
  "safe_atom ''private-token'' \<and> safe_atom ''aabb'' \<and>
   parse_chunk_request ''GET private-token aabb 7'' =
     Inr \<lparr>cr_token = ''private-token'', cr_swarm_id = ''aabb'', cr_chunk_index = 7\<rparr>"
  using chunk_request_roundtrip [of "''private-token''" "''aabb''" 7]
  by (simp add: safe_atom_def atom_char_def dec.simps digit_simps)

theorem data_header_bounds_witness:
  "parse_data_header (''DATA 3 '' @ replicate 64 CHR ''a'') =
     Inr \<lparr>byte_count = 3, sha256 = replicate 64 CHR ''a''\<rparr>"
proof -
  have "parse_data_header (''DATA '' @ dec 3 @ '' '' @ replicate 64 CHR ''a'') =
      Inr \<lparr>byte_count = of_nat 3, sha256 = replicate 64 CHR ''a''\<rparr>"
    using data_header_bounds
    by (simp add: is_sha256_hex_def is_lower_hex_def list_all_iff del: of_nat_numeral)
  then show ?thesis by (simp add: dec.simps digit_simps)
qed

end
