(* ===== verification/Wire.thy ===== *)
theory Wire
  imports Protocol
begin

text \<open>
  The byte transport of \<^verbatim>\<open>src/protocol.cpp\<close>: \<^verbatim>\<open>read_line\<close>, \<^verbatim>\<open>read_exact\<close> and
  \<^verbatim>\<open>write_all\<close> over one connected socket. What the operating system does is data of the
  connection: the events that successive \<^verbatim>\<open>recv\<close> calls meet and the answers of successive
  \<^verbatim>\<open>send\<close> calls. Every segmentation of a byte stream, interruption (\<^verbatim>\<open>EINTR\<close>), timeout or
  error, and the orderly end of the stream can be written as such a script.
\<close>

section \<open>Connections\<close>

datatype recv_event = Segment bytes | Recv_interrupted | Recv_failed string
datatype send_event = Accepts nat | Send_interrupted | Send_failed string

record conn =
  native_handle :: int
  incoming :: "recv_event list"
  sending :: "send_event list"
  sent :: bytes

text \<open>A computation on a connection: it may throw, and the connection changes either way.\<close>

type_synonym 'a io = "conn \<Rightarrow> 'a result \<times> conn"

definition io_return :: "'a \<Rightarrow> 'a io" where
  "io_return x c = (Inr x, c)"

definition io_bind :: "'a io \<Rightarrow> ('a \<Rightarrow> 'b io) \<Rightarrow> 'b io" where
  "io_bind m f c = (case m c of (Inl e, c') \<Rightarrow> (Inl e, c') | (Inr x, c') \<Rightarrow> f x c')"

text \<open>Lifting a pure call that may throw.\<close>

definition io_lift :: "'a result \<Rightarrow> 'a io" where
  "io_lift r c = (r, c)"

section \<open>Receiving\<close>

datatype recv_result = Received bytes | Recv_closed | Recv_eintr | Recv_error string

text \<open>
  \<^verbatim>\<open>recv\<close> of at most \<open>n\<close> bytes (\<open>n\<close> positive). The end of the script is the orderly
  shutdown by the other side; an empty segment does not occur and is skipped.
\<close>

fun recv :: "nat \<Rightarrow> recv_event list \<Rightarrow> recv_result \<times> recv_event list" where
  "recv n [] = (Recv_closed, [])"
| "recv n (Segment b # es) =
     (if b = [] then recv n es
      else (Received (take n b), if length b \<le> n then es else Segment (drop n b) # es))"
| "recv n (Recv_interrupted # es) = (Recv_eintr, es)"
| "recv n (Recv_failed e # es) = (Recv_error e, es)"

fun event_size :: "recv_event \<Rightarrow> nat" where
  "event_size (Segment b) = Suc (length b)"
| "event_size _ = 1"

definition script_size :: "recv_event list \<Rightarrow> nat" where
  "script_size es = sum_list (map event_size es)"

lemma recv_decreases: "0 < n \<Longrightarrow> es \<noteq> [] \<Longrightarrow> script_size (snd (recv n es)) < script_size es"
proof (induction n es rule: recv.induct)
  case (2 n b es)
  show ?case
  proof (cases "b = []")
    case True
    with 2 show ?thesis by (cases "es = []") (auto simp: script_size_def)
  next
    case False
    with 2 show ?thesis by (auto simp: script_size_def)
  qed
qed (auto simp: script_size_def)

lemma recv_progress:
  "(r, es') = recv n es \<Longrightarrow> 0 < n \<Longrightarrow> r \<noteq> Recv_closed \<Longrightarrow> script_size es' < script_size es"
  using recv_decreases [of n es] by (cases "es = []") (auto dest: sym)

text \<open>The loop of \<^verbatim>\<open>read_line\<close>, one byte at a time.\<close>

function read_line_loop :: "nat \<Rightarrow> recv_event list \<Rightarrow> string \<Rightarrow> string result \<times> recv_event list" where
  "read_line_loop max_bytes es line =
     (case recv 1 es of
        (Recv_closed, es') \<Rightarrow> (throw ''Peer closed connection before completing a header'', es')
      | (Recv_eintr, es') \<Rightarrow> read_line_loop max_bytes es' line
      | (Recv_error e, es') \<Rightarrow> (throw (''Unable to read TCP header: '' @ e), es')
      | (Received b, es') \<Rightarrow>
          let character = hd b
          in if character = nl then (Inr line, es')
             else if character = cr then read_line_loop max_bytes es' line
             else if (of_char character :: nat) < 32 \<or> (of_char character :: nat) > 126 \<or>
                 length line \<ge> max_bytes
               then (throw ''TCP header is invalid or exceeds its limit'', es')
             else read_line_loop max_bytes es' (line @ [character]))"
  by pat_completeness auto
termination
  by (relation "measure (\<lambda>(m, es, line). script_size es)") (auto dest: recv_progress)

declare read_line_loop.simps [simp del]

definition read_line :: "nat \<Rightarrow> string io" where
  "read_line max_bytes c =
     (if native_handle c < 0 \<or> max_bytes = 0 \<or> max_bytes > kMaxHeaderBytes
      then (throw ''Invalid bounded line read request'', c)
      else let (r, es) = read_line_loop max_bytes (incoming c) [] in (r, c\<lparr>incoming := es\<rparr>))"

text \<open>The loop of \<^verbatim>\<open>read_exact\<close>; \<open>out\<close> is the part of the buffer that is filled.\<close>

function read_exact_loop :: "nat \<Rightarrow> recv_event list \<Rightarrow> bytes \<Rightarrow> bytes result \<times> recv_event list" where
  "read_exact_loop n es out =
     (if length out \<ge> n then (Inr out, es)
      else case recv (n - length out) es of
        (Recv_closed, es') \<Rightarrow> (throw ''Peer closed connection before sending requested bytes'', es')
      | (Recv_eintr, es') \<Rightarrow> read_exact_loop n es' out
      | (Recv_error e, es') \<Rightarrow> (throw (''Unable to read TCP bytes: '' @ e), es')
      | (Received b, es') \<Rightarrow> read_exact_loop n es' (out @ b))"
  by pat_completeness auto
termination
  by (relation "measure (\<lambda>(n, es, out). script_size es)") (auto dest: recv_progress)

declare read_exact_loop.simps [simp del]

definition read_exact :: "nat \<Rightarrow> bytes io" where
  "read_exact n c = (let (r, es) = read_exact_loop n (incoming c) [] in (r, c\<lparr>incoming := es\<rparr>))"

section \<open>Sending\<close>

text \<open>
  The loop of \<^verbatim>\<open>write_all\<close>: each \<^verbatim>\<open>send\<close> takes as many bytes as the script says, or all of
  them once the script is used up. The result is the data taken over by the operating system.
\<close>

fun write_loop :: "send_event list \<Rightarrow> bytes \<Rightarrow> bytes \<Rightarrow> unit result \<times> send_event list \<times> bytes" where
  "write_loop [] data done_bytes = (Inr (), [], done_bytes @ data)"
| "write_loop (e # es) data done_bytes =
     (if data = [] then (Inr (), e # es, done_bytes)
      else case e of
        Accepts k \<Rightarrow> write_loop es (drop k data) (done_bytes @ take k data)
      | Send_interrupted \<Rightarrow> write_loop es data done_bytes
      | Send_failed m \<Rightarrow> (throw (''Unable to write TCP bytes: '' @ m), es, done_bytes))"

definition write_all :: "bytes \<Rightarrow> unit io" where
  "write_all data c =
     (let (r, es, s) = write_loop (sending c) data (sent c) in (r, c\<lparr>sending := es, sent := s\<rparr>))"

section \<open>What a script delivers\<close>

text \<open>The bytes a script delivers before it fails or ends: the abstraction all receivers respect.\<close>

fun pending :: "recv_event list \<Rightarrow> bytes" where
  "pending [] = []"
| "pending (Segment b # es) = b @ pending es"
| "pending (Recv_interrupted # es) = pending es"
| "pending (Recv_failed e # es) = []"

lemma recv_Received:
  "recv n es = (Received b, es') \<Longrightarrow> 0 < n \<Longrightarrow> pending es = b @ pending es' \<and> b \<noteq> [] \<and> length b \<le> n"
  by (induction n es rule: recv.induct) (auto split: if_splits)

lemma recv_eintr: "recv n es = (Recv_eintr, es') \<Longrightarrow> pending es' = pending es"
  by (induction n es rule: recv.induct) (auto split: if_splits)

lemma recv_stop: "recv n es = (r, es') \<Longrightarrow> r = Recv_closed \<or> r = Recv_error e \<Longrightarrow> pending es = []"
  by (induction n es rule: recv.induct) (auto split: if_splits)

lemma read_exact_loop_correct:
  "length out \<le> n \<Longrightarrow> n \<le> length (out @ pending es) \<Longrightarrow>
     \<exists>es'. read_exact_loop n es out = (Inr (take n (out @ pending es)), es') \<and>
       out @ pending es = take n (out @ pending es) @ pending es'"
proof (induction n es out rule: read_exact_loop.induct)
  case (1 n es out)
  show ?case
  proof (cases "n \<le> length out")
    case True
    with 1 show ?thesis by (simp add: read_exact_loop.simps)
  next
    case False
    obtain r es' where r: "recv (n - length out) es = (r, es')" by force
    with False "1.prems" have go: "r \<noteq> Recv_closed" "r \<noteq> Recv_error e" for e
      using recv_stop [OF r] by auto
    show ?thesis
    proof (cases r)
      case (Received b)
      with r False have b: "pending es = b @ pending es'" "length b \<le> n - length out"
        using recv_Received by auto
      with 1(1) [OF False r [symmetric] Received] "1.prems" False
      show ?thesis using r Received by (subst read_exact_loop.simps) auto
    next
      case Recv_eintr
      then have "pending es' = pending es" using r recv_eintr by blast
      with 1(2) [OF False r [symmetric] Recv_eintr] "1.prems"
      show ?thesis using r Recv_eintr False by (subst read_exact_loop.simps) auto
    qed (use go in auto)
  qed
qed

lemma read_exact_loop_short:
  "length out \<le> n \<Longrightarrow> length (out @ pending es) < n \<Longrightarrow> \<exists>e es'. read_exact_loop n es out = (Inl e, es')"
proof (induction n es out rule: read_exact_loop.induct)
  case (1 n es out)
  then have False: "\<not> n \<le> length out" by simp
  obtain r es' where r: "recv (n - length out) es = (r, es')" by force
  show ?case
  proof (cases r)
    case (Received b)
    with r False have b: "pending es = b @ pending es'" "length b \<le> n - length out"
      using recv_Received by auto
    with 1(1) [OF False r [symmetric] Received] "1.prems" False
    show ?thesis using r Received by (subst read_exact_loop.simps) auto
  next
    case Recv_eintr
    then have "pending es' = pending es" using r recv_eintr by blast
    with 1(2) [OF False r [symmetric] Recv_eintr] "1.prems"
    show ?thesis using r Recv_eintr False by (subst read_exact_loop.simps) auto
  qed (use r False in \<open>subst read_exact_loop.simps; simp\<close>)+
qed

section \<open>Lines\<close>

definition printable :: "char \<Rightarrow> bool" where
  "printable c \<longleftrightarrow> (32::nat) \<le> of_char c \<and> of_char c \<le> (126::nat)"

text \<open>What a line on the wire means: carriage returns are dropped wherever they stand.\<close>

definition line_of :: "string \<Rightarrow> string" where
  "line_of raw = filter (\<lambda>c. c \<noteq> cr) raw"

lemma line_of_simps [simp]:
  "line_of [] = []" "line_of (c # s) = (if c = cr then line_of s else c # line_of s)"
  by (simp_all add: line_of_def)

lemma recv_1: "recv 1 es = (Received b, es') \<Longrightarrow> \<exists>c. b = [c] \<and> pending es = c # pending es'"
  using recv_Received [of 1 es b es'] by (cases b) auto

lemma read_line_loop_complete:
  "pending es = raw @ nl # rest \<Longrightarrow> nl \<notin> set raw \<Longrightarrow> list_all printable (line_of raw) \<Longrightarrow>
     length (line @ line_of raw) \<le> m \<Longrightarrow>
     \<exists>es'. read_line_loop m es line = (Inr (line @ line_of raw), es') \<and> pending es' = rest"
proof (induction m es line arbitrary: raw rule: read_line_loop.induct)
  case (1 m es line)
  obtain r es' where r: "recv 1 es = (r, es')" by force
  show ?case
  proof (cases r)
    case (Received b)
    then obtain c where c: "b = [c]" "pending es = c # pending es'" using r recv_1 by blast
    show ?thesis
    proof (cases raw)
      case Nil
      with 1 c r Received show ?thesis by (subst read_line_loop.simps) simp
    next
      case (Cons d raw')
      with 1(4-7) c have d: "d = c" "c \<noteq> nl" "pending es' = raw' @ nl # rest" "nl \<notin> set raw'" by auto
      show ?thesis
      proof (cases "c = cr")
        case True
        with 1(1) [OF r [symmetric] Received, of c] 1(4-7) c d Cons r Received
        show ?thesis by (subst read_line_loop.simps) auto
      next
        case False
        with 1(6,7) Cons d have "\<not> ((of_char c :: nat) < 32 \<or> (of_char c :: nat) > 126 \<or> length line \<ge> m)"
          by (auto simp: printable_def)
        with 1(2) [OF r [symmetric] Received, of c] 1(4-7) c d Cons r Received False
        show ?thesis by (subst read_line_loop.simps) auto
      qed
    qed
  next
    case Recv_eintr
    then have "pending es' = pending es" using r recv_eintr by blast
    with 1(3) [OF r [symmetric] Recv_eintr] 1(4-7)
    show ?thesis using r Recv_eintr by (subst read_line_loop.simps) auto
  qed (use 1(4) recv_stop [OF r] in auto)
qed

lemma read_line_loop_sound:
  "read_line_loop m es line = (Inr l, es') \<Longrightarrow> length line \<le> m \<Longrightarrow>
     \<exists>raw. pending es = raw @ nl # pending es' \<and> nl \<notin> set raw \<and> list_all printable (line_of raw) \<and>
       l = line @ line_of raw \<and> length l \<le> m"
proof (induction m es line rule: read_line_loop.induct)
  case (1 m es line)
  obtain r es1 where r: "recv 1 es = (r, es1)" by force
  show ?case
  proof (cases r)
    case (Received b)
    then obtain c where c: "b = [c]" "pending es = c # pending es1" using r recv_1 by blast
    consider "c = nl" | "c = cr" | "c \<noteq> nl" "c \<noteq> cr" by blast
    then show ?thesis
    proof cases
      case 1
      with "1.prems" r Received c show ?thesis
        by (subst (asm) read_line_loop.simps) (auto intro!: exI [of _ "[]"])
    next
      case 2
      with "1.prems" r Received c have "read_line_loop m es1 line = (Inr l, es')"
        by (subst (asm) read_line_loop.simps) simp
      with "1.IH"(1) [OF r [symmetric] Received, of c] 2 c "1.prems" obtain raw where
        "pending es1 = raw @ nl # pending es'" "nl \<notin> set raw" "list_all printable (line_of raw)"
        "l = line @ line_of raw" "length l \<le> m" by auto
      with 2 c show ?thesis by (intro exI [of _ "c # raw"]) simp
    next
      case 3
      with "1.prems" r Received c have ok: "\<not> ((of_char c :: nat) < 32 \<or> (of_char c :: nat) > 126 \<or> length line \<ge> m)"
        and "read_line_loop m es1 (line @ [c]) = (Inr l, es')"
        by (subst (asm) read_line_loop.simps, simp split: if_splits)+
      with "1.IH"(2) [OF r [symmetric] Received, of c] 3 c obtain raw where
        "pending es1 = raw @ nl # pending es'" "nl \<notin> set raw" "list_all printable (line_of raw)"
        "l = line @ c # line_of raw" "length l \<le> m" by auto
      moreover have "printable c" using ok by (auto simp: printable_def)
      ultimately show ?thesis using 3 c by (intro exI [of _ "c # raw"]) simp
    qed
  next
    case Recv_eintr
    then have "pending es1 = pending es" using r recv_eintr by blast
    with "1.IH"(3) [OF r [symmetric] Recv_eintr] "1.prems" r Recv_eintr show ?thesis
      by (subst (asm) (2) read_line_loop.simps) simp
  qed (use "1.prems" r in \<open>subst (asm) read_line_loop.simps; simp\<close>)+
qed

section \<open>Lemmas on sending\<close>

lemma write_loop_prefix:
  "write_loop es data out = (r, es', out') \<Longrightarrow>
     \<exists>k \<le> length data. out' = out @ take k data \<and> (r = Inr () \<longrightarrow> out' = out @ data)"
proof (induction es data out rule: write_loop.induct)
  case (2 e es data out)
  show ?case
  proof (cases "data = []")
    case False
    show ?thesis
    proof (cases e)
      case (Accepts k)
      with 2 False obtain j where j: "j \<le> length (drop k data)"
          "out' = (out @ take k data) @ take j (drop k data)"
          "r = Inr () \<longrightarrow> out' = (out @ take k data) @ drop k data" by auto
      then have "out' = out @ take (k + j) data" by (simp add: take_add)
      with j show ?thesis by (intro exI [of _ "min (k + j) (length data)"]) (auto simp: min_def)
    qed (use 2 False in \<open>auto intro: exI [of _ 0]\<close>)
  qed (use 2 in auto)
qed auto

lemma write_loop_ok:
  "(\<And>m. Send_failed m \<notin> set es) \<Longrightarrow> fst (write_loop es data out) = Inr ()"
  by (induction es data out rule: write_loop.induct) (auto split: send_event.split)

lemma write_all_sent:
  "write_all data c = (Inr (), c') \<Longrightarrow>
     sent c' = sent c @ data \<and> incoming c' = incoming c \<and> native_handle c' = native_handle c"
  using write_loop_prefix [of "sending c" data "sent c"]
  by (auto simp: write_all_def split: prod.splits)

section \<open>Lemmas for the clients of the transport\<close>

lemma read_line_frame: "read_line m c = (r, c') \<Longrightarrow> \<exists>es. c' = c\<lparr>incoming := es\<rparr>"
  by (auto simp: read_line_def split: if_splits prod.splits intro: exI [of _ "incoming c"])

lemma write_all_frame: "write_all d c = (r, c') \<Longrightarrow> \<exists>es out. c' = c\<lparr>sending := es, sent := out\<rparr>"
  by (auto simp: write_all_def split: prod.splits)

lemma read_exact_frame: "read_exact n c = (r, c') \<Longrightarrow> \<exists>es. c' = c\<lparr>incoming := es\<rparr>"
  by (auto simp: read_exact_def split: prod.splits)

lemma read_line_loop_consumes:
  "read_line_loop m es line = (Inr l, es') \<Longrightarrow> script_size es' < script_size es"
proof (induction m es line rule: read_line_loop.induct)
  case (1 m es line)
  obtain r es1 where r: "recv 1 es = (r, es1)" by force
  from "1.prems" r have ne: "r \<noteq> Recv_closed" by (subst (asm) read_line_loop.simps) auto
  with r have dec: "script_size es1 < script_size es" using recv_progress [OF r [symmetric]] by simp
  show ?case
  proof (cases r)
    case (Received b)
    note step = "1.prems" [unfolded read_line_loop.simps [of m es line] r prod.case Received recv_result.case]
    with "1.IH"(1,2) [OF r [symmetric] Received] dec show ?thesis
      by (auto simp: Let_def split: if_splits)
  next
    case Recv_eintr
    note step = "1.prems" [unfolded read_line_loop.simps [of m es line] r prod.case Recv_eintr recv_result.case]
    with "1.IH"(3) [OF r [symmetric] Recv_eintr] dec show ?thesis by simp
  qed (use "1.prems" r in \<open>subst (asm) read_line_loop.simps; simp\<close>)+
qed

lemma read_line_consumes:
  "read_line m c = (Inr l, c') \<Longrightarrow> script_size (incoming c') < script_size (incoming c)"
  by (auto simp: read_line_def dest: read_line_loop_consumes split: if_splits prod.splits)

text \<open>A printable line that arrives is read as it is, and the rest stays.\<close>

lemma read_line_delivered:
  assumes "pending (incoming d) = h @ nl # rest" and "list_all printable h" and "length h \<le> kMaxHeaderBytes"
    and "0 \<le> native_handle d"
  shows "\<exists>es. read_line kMaxHeaderBytes d = (Inr h, d\<lparr>incoming := es\<rparr>) \<and> pending es = rest"
proof -
  have "nl \<notin> set h" "cr \<notin> set h"
    using assms(2) by (auto simp: list_all_iff printable_def)
  moreover from this have "line_of h = h" by (auto simp: line_of_def filter_id_conv)
  moreover have "read_line kMaxHeaderBytes d =
      (let (r, es) = read_line_loop kMaxHeaderBytes (incoming d) [] in (r, d\<lparr>incoming := es\<rparr>))"
    using assms(4) by (simp add: read_line_def kMaxHeaderBytes_def)
  ultimately show ?thesis
    using assms read_line_loop_complete [of "incoming d" h rest "[]" kMaxHeaderBytes] by auto
qed

lemma read_exact_delivered:
  assumes "pending (incoming d) = b @ rest"
  shows "\<exists>es. read_exact (length b) d = (Inr b, d\<lparr>incoming := es\<rparr>) \<and> pending es = rest"
proof -
  obtain es where es: "read_exact_loop (length b) (incoming d) [] = (Inr (take (length b) (pending (incoming d))), es)"
    "pending (incoming d) = take (length b) (pending (incoming d)) @ pending es"
    using read_exact_loop_correct [of "[]" "length b" "incoming d"] assms by auto
  with assms show ?thesis by (auto simp: read_exact_def)
qed

section \<open>Two ends of a connection\<close>

text \<open>
  Each end of a connection runs its own program; \<open>cc\<close> and \<open>sc\<close> are the two ends before, \<open>cc'\<close> and \<open>sc'\<close> after
  these runs. They are the ends of one connection when what either one sends in its run is what the other one receives, in any segmentation.
\<close>

definition exchange :: "conn \<Rightarrow> conn \<Rightarrow> conn \<Rightarrow> conn \<Rightarrow> bool" where
  "exchange cc cc' sc sc' \<longleftrightarrow>
     sent cc = [] \<and> sent sc = [] \<and> pending (incoming sc) = sent cc' \<and> pending (incoming cc) = sent sc'"

text \<open>Operations that send nothing.\<close>

definition quiet :: "'a io \<Rightarrow> bool" where
  "quiet m \<longleftrightarrow> (\<forall>c. sent (snd (m c)) = sent c)"

lemma quiet_read [simp]: "quiet (read_line n)" "quiet (read_exact n)"
  unfolding quiet_def using read_line_frame [of n] read_exact_frame [of n] by (metis conn.ext_inject conn.surjective conn.update_convs(2) prod.collapse)+

lemma quiet_pure [simp]: "quiet (io_lift r)" "quiet (io_return x)"
  by (simp_all add: quiet_def io_lift_def io_return_def)

lemma quiet_bind [intro!]: "quiet m \<Longrightarrow> (\<And>x. quiet (f x)) \<Longrightarrow> quiet (io_bind m f)"
  by (auto simp: quiet_def io_bind_def split: prod.splits sum.splits) (metis snd_conv)+

text \<open>A request is written and then only the answer is read.\<close>

lemma request_then_quiet:
  assumes "\<And>m. Send_failed m \<notin> set (sending c)" and "\<And>x. quiet (f x)"
  shows "\<exists>es. io_bind (write_all d) f c = f () (c\<lparr>sending := es, sent := sent c @ d\<rparr>) \<and>
    sent (snd (io_bind (write_all d) f c)) = sent c @ d"
proof -
  obtain r es out where w: "write_loop (sending c) d (sent c) = (r, es, out)" using prod_cases3 by blast
  have "r = Inr ()" using write_loop_ok [OF assms(1), of d "sent c"] w by simp
  then have run: "write_all d c = (Inr (), c\<lparr>sending := es, sent := out\<rparr>)" using w by (simp add: write_all_def)
  from write_all_sent [OF this] have "out = sent c @ d" by simp
  with run assms(2) show ?thesis by (auto simp: io_bind_def quiet_def)
qed

section \<open>Properties of the transport\<close>

text \<open>
  C32. \<^verbatim>\<open>read_line\<close> is exact and bounded, however the bytes are segmented and however often it
  is interrupted: it returns \<open>l\<close> if and only if the bytes that arrive contain a newline and
  what stands before the first one is \<open>l\<close> up to carriage returns, printable and at most
  \<open>max\<close> characters long; the bytes behind the newline stay for the next reader.
\<close>

theorem read_line_exact:
  assumes "0 \<le> native_handle c" and "0 < max_bytes" "max_bytes \<le> kMaxHeaderBytes"
  shows "(\<exists>c'. read_line max_bytes c = (Inr l, c') \<and> pending (incoming c') = rest) \<longleftrightarrow>
    (\<exists>raw. pending (incoming c) = raw @ nl # rest \<and> nl \<notin> set raw \<and> l = line_of raw \<and>
       list_all printable l \<and> length l \<le> max_bytes)"
proof -
  have read: "read_line max_bytes c =
      (let (r, es) = read_line_loop max_bytes (incoming c) [] in (r, c\<lparr>incoming := es\<rparr>))"
    using assms by (simp add: read_line_def)
  show ?thesis
  proof
    assume "\<exists>c'. read_line max_bytes c = (Inr l, c') \<and> pending (incoming c') = rest"
    then obtain es where "read_line_loop max_bytes (incoming c) [] = (Inr l, es)" "pending es = rest"
      unfolding read by (auto split: prod.splits)
    with read_line_loop_sound [OF this(1)]
    show "\<exists>raw. pending (incoming c) = raw @ nl # rest \<and> nl \<notin> set raw \<and> l = line_of raw \<and>
       list_all printable l \<and> length l \<le> max_bytes" by auto
  next
    assume "\<exists>raw. pending (incoming c) = raw @ nl # rest \<and> nl \<notin> set raw \<and> l = line_of raw \<and>
       list_all printable l \<and> length l \<le> max_bytes"
    then obtain raw where raw: "pending (incoming c) = raw @ nl # rest" "nl \<notin> set raw" "l = line_of raw"
       "list_all printable (line_of raw)" "length ([] @ line_of raw) \<le> max_bytes" by auto
    from read_line_loop_complete [OF raw(1,2,4,5)] raw(3)
    show "\<exists>c'. read_line max_bytes c = (Inr l, c') \<and> pending (incoming c') = rest"
      unfolding read by auto
  qed
qed

text \<open>
  \<^verbatim>\<open>read_exact\<close> fills its buffer with exactly the next \<open>n\<close> bytes that arrive, in order and
  whatever the segmentation, and leaves the others; when fewer arrive before the stream ends
  or fails it throws.
\<close>

theorem read_exact_correct:
  "(n \<le> length (pending (incoming c)) \<longrightarrow>
     (\<exists>c'. read_exact n c = (Inr (take n (pending (incoming c))), c') \<and>
        pending (incoming c') = drop n (pending (incoming c)))) \<and>
   (length (pending (incoming c)) < n \<longrightarrow> (\<exists>e c'. read_exact n c = (Inl e, c')))"
proof (intro conjI impI)
  assume "n \<le> length (pending (incoming c))"
  then obtain es where es: "read_exact_loop n (incoming c) [] = (Inr (take n (pending (incoming c))), es)"
      "pending (incoming c) = take n (pending (incoming c)) @ pending es"
    using read_exact_loop_correct [of "[]" n "incoming c"] by auto
  then have "pending es = drop n (pending (incoming c))"
    by (metis append_take_drop_id same_append_eq)
  with es show "\<exists>c'. read_exact n c = (Inr (take n (pending (incoming c))), c') \<and>
        pending (incoming c') = drop n (pending (incoming c))"
    by (auto simp: read_exact_def)
next
  assume "length (pending (incoming c)) < n"
  then show "\<exists>e c'. read_exact n c = (Inl e, c')"
    using read_exact_loop_short [of "[]" n "incoming c"] by (auto simp: read_exact_def)
qed

text \<open>
  \<^verbatim>\<open>write_all\<close> under partial writes and interruptions: when it returns, all of the data has
  been handed over, in order and once; when it throws, a prefix of it; and it returns
  whenever no \<^verbatim>\<open>send\<close> call fails.
\<close>

theorem write_all_correct:
  "\<exists>k c'. write_all data c = (fst (write_all data c), c') \<and> sent c' = sent c @ take k data \<and>
     (fst (write_all data c) = Inr () \<longrightarrow> sent c' = sent c @ data) \<and>
     ((\<forall>m. Send_failed m \<notin> set (sending c)) \<longrightarrow> fst (write_all data c) = Inr ())"
proof -
  obtain r es out where w: "write_loop (sending c) data (sent c) = (r, es, out)"
    by (metis prod_cases3)
  with write_loop_prefix [OF this] write_loop_ok [of "sending c" data "sent c"] show ?thesis
    by (auto simp: write_all_def)
qed

text \<open>
  A header that one side writes is the header the other side reads: after a successful
  \<^verbatim>\<open>write_all\<close> of a printable line and a newline, a receiver to which the written bytes are
  delivered, in any segmentation, reads exactly that line and finds what was sent next.
\<close>

theorem header_transfer:
  assumes "write_all (h @ [nl]) c = (Inr (), c')"
    and "list_all printable h" "length h \<le> kMaxHeaderBytes" "0 \<le> native_handle d"
    and "pending (incoming d) = drop (length (sent c)) (sent c') @ rest"
  shows "\<exists>d'. read_line kMaxHeaderBytes d = (Inr h, d') \<and> pending (incoming d') = rest"
proof -
  have "pending (incoming d) = h @ nl # rest"
    using assms(1,5) write_all_sent by fastforce
  from read_line_delivered [OF this assms(2-4)] show ?thesis by auto
qed

section \<open>Witnesses\<close>

definition sample_conn :: "recv_event list \<Rightarrow> conn" where
  "sample_conn es = \<lparr>native_handle = 3, incoming = es, sending = [Accepts 2, Send_interrupted], sent = []\<rparr>"

theorem read_line_exact_witness:
  "\<exists>c'. read_line 64 (sample_conn [Segment ''EN'', Recv_interrupted, Segment (''D'' @ [cr, nl] @ ''x'')]) =
     (Inr ''END'', c') \<and> pending (incoming c') = ''x''"
  using read_line_exact [of "sample_conn [Segment ''EN'', Recv_interrupted, Segment (''D'' @ [cr, nl] @ ''x'')]"
      64 "''END''" "''x''"]
  by (auto simp: sample_conn_def kMaxHeaderBytes_def printable_def intro!: exI [of _ "''END'' @ [cr]"])

theorem read_exact_correct_witness:
  "(\<exists>c'. read_exact 3 (sample_conn [Segment ''ab'', Segment ''cd'']) = (Inr ''abc'', c') \<and>
      pending (incoming c') = ''d'') \<and>
   (\<exists>e c'. read_exact 5 (sample_conn [Segment ''ab'', Segment ''cd'']) = (Inl e, c'))"
  using read_exact_correct [of 3 "sample_conn [Segment ''ab'', Segment ''cd'']"]
    read_exact_correct [of 5 "sample_conn [Segment ''ab'', Segment ''cd'']"]
  by (simp add: sample_conn_def)

theorem write_all_correct_witness:
  "write_all ''hello'' (sample_conn []) = (Inr (), (sample_conn [])\<lparr>sending := [], sent := ''hello''\<rparr>)"
  using write_all_correct [of "''hello''" "sample_conn []"]
  by (simp add: sample_conn_def write_all_def)

theorem header_transfer_witness:
  "\<exists>d'. read_line kMaxHeaderBytes (sample_conn [Segment (''OK'' @ [nl])]) = (Inr ''OK'', d') \<and>
     pending (incoming d') = []"
  by (rule header_transfer [of "''OK''" "sample_conn []" "(sample_conn [])\<lparr>sending := [], sent := ''OK'' @ [nl]\<rparr>"])
    (simp_all add: sample_conn_def write_all_def printable_def kMaxHeaderBytes_def)

end
