(* ===== verification/Sockets.thy ===== *)
theory Sockets
  imports Wire
begin

text \<open>
  The socket functions of \<^verbatim>\<open>src/protocol.cpp\<close>: the owning class \<^verbatim>\<open>Socket\<close>, and
  \<^verbatim>\<open>connect_tcp\<close>, \<^verbatim>\<open>listen_tcp\<close>, \<^verbatim>\<open>accept_tcp\<close>, \<^verbatim>\<open>bound_port\<close> and \<^verbatim>\<open>set_socket_timeout\<close>
  with their helpers. The answers of the system calls are data: one record per address that
  \<^verbatim>\<open>getaddrinfo\<close> reports holds the answer of every call on it. The process's descriptor table is
  explicit, so that leaks and double closes can be stated.
\<close>

section \<open>Descriptors\<close>

text \<open>
  The open descriptors, and whether \<^verbatim>\<open>close\<close> was ever called on a descriptor that is not open,
  which in a process with several threads may hit a descriptor another thread has just opened.
\<close>

record fd_table =
  open_fds :: "int set"
  bad_close :: bool

definition open_fd :: "int \<Rightarrow> fd_table \<Rightarrow> fd_table" where
  "open_fd fd t = t\<lparr>open_fds := insert fd (open_fds t)\<rparr>"

definition close_fd :: "int \<Rightarrow> fd_table \<Rightarrow> fd_table" where
  "close_fd fd t =
     (if fd \<ge> 0
      then t\<lparr>open_fds := open_fds t - {fd}, bad_close := (bad_close t \<or> fd \<notin> open_fds t)\<rparr>
      else t)"

text \<open>The class \<^verbatim>\<open>Socket\<close> is its member \<^verbatim>\<open>fd_\<close>; \<^verbatim>\<open>release\<close> gives the descriptor and the emptied object.\<close>

type_synonym socket = int

definition no_socket :: socket where
  "no_socket = - 1"

definition socket_valid :: "socket \<Rightarrow> bool" where
  "socket_valid s \<longleftrightarrow> s \<ge> 0"

definition socket_release :: "socket \<Rightarrow> int \<times> socket" where
  "socket_release s = (s, - 1)"

definition socket_close :: "socket \<Rightarrow> fd_table \<Rightarrow> socket \<times> fd_table" where
  "socket_close s t = (let (fd, s') = socket_release s in (s', close_fd fd t))"

text \<open>The destructor, and the move constructor (the new object and the emptied source).\<close>

definition socket_destroy :: "socket \<Rightarrow> fd_table \<Rightarrow> fd_table" where
  "socket_destroy s t = snd (socket_close s t)"

definition socket_move :: "socket \<Rightarrow> socket \<times> socket" where
  "socket_move other = socket_release other"

text \<open>
  Move assignment between two objects; a self-assignment, where \<open>same\<close> holds, does nothing.
\<close>

definition socket_assign :: "bool \<Rightarrow> socket \<Rightarrow> socket \<Rightarrow> fd_table \<Rightarrow> socket \<times> socket \<times> fd_table" where
  "socket_assign same this other t =
     (if same then (this, other, t)
      else let (_, t) = socket_close this t; (fd, other) = socket_release other in (fd, other, t))"

section \<open>Helpers\<close>

text \<open>The answer of a call that may fail with the error text of \<^verbatim>\<open>errno\<close>.\<close>

type_synonym answer = "string option"

definition call :: "string \<Rightarrow> answer \<Rightarrow> unit result" where
  "call action a = (case a of None \<Rightarrow> Inr () | Some e \<Rightarrow> throw (action @ '': '' @ e))"

definition set_close_on_exec :: "answer \<Rightarrow> answer \<Rightarrow> unit result" where
  "set_close_on_exec getfd setfd =
     rbind (call ''Unable to set close-on-exec'' getfd) (\<lambda>_. call ''Unable to set close-on-exec'' setfd)"

definition set_non_blocking :: "answer \<Rightarrow> answer \<Rightarrow> unit result" where
  "set_non_blocking getfl setfl =
     rbind (call ''Unable to inspect socket flags'' getfl) (\<lambda>_. call ''Unable to update socket flags'' setfl)"

datatype poll_event = Poll_interrupted | Poll_timeout | Poll_failed string | Poll_ready

text \<open>The polling loop; a script that is used up means the descriptor is ready.\<close>

fun poll_loop :: "poll_event list \<Rightarrow> unit result" where
  "poll_loop [] = Inr ()"
| "poll_loop (Poll_interrupted # es) = poll_loop es"
| "poll_loop (Poll_timeout # es) = throw ''TCP connection timed out''"
| "poll_loop (Poll_failed e # es) = throw (''Unable to poll connecting socket: '' @ e)"
| "poll_loop (Poll_ready # es) = Inr ()"

text \<open>
  The number of milliseconds is converted to \<^verbatim>\<open>int\<close> for \<^verbatim>\<open>poll\<close>, whose answers \<open>polls\<close> may depend on it.
\<close>

definition poll_timeout :: "int \<Rightarrow> int" where
  "poll_timeout timeout = sint (word_of_int timeout :: 32 word)"

definition wait_for_connect :: "int \<Rightarrow> (int \<Rightarrow> poll_event list) \<Rightarrow> answer \<Rightarrow> answer \<Rightarrow> unit result" where
  "wait_for_connect timeout polls getsockopt socket_error =
     rbind (poll_loop (polls (poll_timeout timeout))) (\<lambda>_.
     rbind (call ''Unable to read connection result'' getsockopt) (\<lambda>_.
     call ''TCP connection failed'' socket_error))"

record timeval =
  tv_sec :: int
  tv_usec :: int

text \<open>
  \<^verbatim>\<open>set_socket_timeout\<close> with a timeout in milliseconds and the answers of the two
  \<^verbatim>\<open>setsockopt\<close> calls: the value that both options get.
\<close>

definition set_socket_timeout :: "socket \<Rightarrow> int \<Rightarrow> answer \<Rightarrow> answer \<Rightarrow> timeval result" where
  "set_socket_timeout s timeout rcv snd' =
     (if \<not> socket_valid s \<or> timeout \<le> 0
      then throw ''Socket timeout requires an open socket and positive duration''
      else
        let seconds = timeout div 1000;
            remainder = timeout - seconds * 1000;
            value = \<lparr>tv_sec = seconds, tv_usec = remainder * 1000\<rparr>
        in rbind (call ''Unable to configure socket timeout'' rcv) (\<lambda>_.
           rbind (call ''Unable to configure socket timeout'' snd') (\<lambda>_. Inr value)))"

text \<open>
  \<^verbatim>\<open>getnameinfo\<close> gives the numeric host and service as text.
\<close>

definition endpoint_from_address :: "string + string \<times> string \<Rightarrow> endpoint result" where
  "endpoint_from_address nameinfo =
     (case nameinfo of
        Inl e \<Rightarrow> throw (''Unable to read peer address: '' @ e)
      | Inr (h, service) \<Rightarrow>
          rbind (parse_number service ''remote port'') (\<lambda>p. Inr \<lparr>host = h, port = p\<rparr>))"

section \<open>Connecting\<close>

datatype connect_answer = Connected | In_progress | Connect_failed string

record attempt =
  at_socket :: "string + int"
  at_getfd :: answer
  at_setfd :: answer
  at_getfl :: answer
  at_setfl :: answer
  at_connect :: connect_answer
  at_polls :: "int \<Rightarrow> poll_event list"
  at_getsockopt :: answer
  at_so_error :: answer
  at_getfl_back :: answer
  at_setfl_back :: answer
  at_rcvtimeo :: answer
  at_sndtimeo :: answer
  at_incoming :: "recv_event list"
  at_sending :: "send_event list"

text \<open>
  The calls of one attempt up to the point where the descriptor is connected and blocking
  again: \<open>Inl (Inl e)\<close> is the early \<^verbatim>\<open>continue\<close> with the error text \<open>e\<close>, \<open>Inl (Inr e)\<close> a thrown
  \<^verbatim>\<open>Error\<close>.
\<close>

definition attempt_connect :: "int \<Rightarrow> attempt \<Rightarrow> (string + exc) + unit" where
  "attempt_connect timeout a =
     (case rbind (set_close_on_exec (at_getfd a) (at_setfd a)) (\<lambda>_. set_non_blocking (at_getfl a) (at_setfl a)) of
        Inl e \<Rightarrow> Inl (Inr e)
      | Inr _ \<Rightarrow>
          (case at_connect a of
             Connect_failed e \<Rightarrow> Inl (Inl e)
           | _ \<Rightarrow>
             (case rbind (if at_connect a = In_progress
                          then wait_for_connect timeout (at_polls a) (at_getsockopt a) (at_so_error a) else Inr ())
                     (\<lambda>_. set_non_blocking (at_getfl_back a) (at_setfl_back a)) of
                Inl e \<Rightarrow> Inl (Inr e)
              | Inr _ \<Rightarrow> Inr ())))"

fun what :: "exc \<Rightarrow> string" where
  "what (Error m) = m"
| "what (Filesystem_error m) = m"

text \<open>
  The loop over the addresses. When \<^verbatim>\<open>set_socket_timeout\<close> throws, the local \<^verbatim>\<open>Socket\<close> is
  destroyed while the stack is unwound, and the handler then calls \<^verbatim>\<open>close_fd\<close> on the same
  descriptor.
\<close>

fun connect_loop :: "int \<Rightarrow> attempt list \<Rightarrow> string \<Rightarrow> fd_table \<Rightarrow> (string + conn) \<times> fd_table" where
  "connect_loop timeout [] last_error t = (Inl last_error, t)"
| "connect_loop timeout (a # as) last_error t =
     (case at_socket a of
        Inl e \<Rightarrow> connect_loop timeout as e t
      | Inr fd \<Rightarrow>
          let t = open_fd fd t
          in case attempt_connect timeout a of
               Inl (Inl e) \<Rightarrow> connect_loop timeout as e (close_fd fd t)
             | Inl (Inr e) \<Rightarrow> connect_loop timeout as (what e) (close_fd fd t)
             | Inr _ \<Rightarrow>
                 (case set_socket_timeout fd timeout (at_rcvtimeo a) (at_sndtimeo a) of
                    Inl e \<Rightarrow> connect_loop timeout as (what e) (close_fd fd (socket_destroy fd t))
                  | Inr _ \<Rightarrow>
                      (Inr \<lparr>native_handle = fd, incoming = at_incoming a, sending = at_sending a, sent = []\<rparr>, t)))"

text \<open>What the network answers: the result of \<^verbatim>\<open>getaddrinfo\<close> for an endpoint.\<close>

type_synonym network = "endpoint \<Rightarrow> string + attempt list"

definition connect_tcp :: "network \<Rightarrow> endpoint \<Rightarrow> int \<Rightarrow> fd_table \<Rightarrow> conn result \<times> fd_table" where
  "connect_tcp net e timeout t =
     (if host e = [] \<or> port e = 0 \<or> timeout \<le> 0 then (throw ''TCP endpoint and timeout must be valid'', t)
      else case net e of
        Inl m \<Rightarrow> (throw (''Unable to resolve TCP endpoint: '' @ m), t)
      | Inr attempts \<Rightarrow>
          (case connect_loop timeout attempts ''No reachable address'' t of
             (Inr c, t) \<Rightarrow> (Inr c, t)
           | (Inl m, t) \<Rightarrow>
               (throw (''Unable to connect to '' @ host e @ '':'' @ dec (unat (port e)) @ '': '' @ m), t)))"

text \<open>
  The scope of a client's connection: it is connected, used, and closed by the destructor of the
  local \<^verbatim>\<open>Socket\<close>, whether the use returns or throws. The connection at the end is kept for what
  was sent on it.
\<close>

definition with_connection ::
  "network \<Rightarrow> endpoint \<Rightarrow> int \<Rightarrow> 'a io \<Rightarrow> fd_table \<Rightarrow> 'a result \<times> conn option \<times> fd_table" where
  "with_connection net e timeout body t =
     (case connect_tcp net e timeout t of
        (Inl x, t) \<Rightarrow> (Inl x, None, t)
      | (Inr c, t) \<Rightarrow> let (r, c') = body c in (r, Some c', socket_destroy (native_handle c) t))"

section \<open>Listening and accepting\<close>

record listen_attempt =
  la_socket :: "string + int"
  la_getfd :: answer
  la_setfd :: answer
  la_reuse :: answer
  la_bind :: answer
  la_listen :: answer

definition attempt_listen :: "listen_attempt \<Rightarrow> unit result" where
  "attempt_listen a =
     rbind (set_close_on_exec (la_getfd a) (la_setfd a)) (\<lambda>_.
     rbind (call ''Unable to set SO_REUSEADDR'' (la_reuse a)) (\<lambda>_.
     rbind (call ''Unable to bind TCP listener'' (la_bind a)) (\<lambda>_.
     call ''Unable to listen on TCP socket'' (la_listen a))))"

fun listen_loop :: "listen_attempt list \<Rightarrow> string \<Rightarrow> fd_table \<Rightarrow> (string + socket) \<times> fd_table" where
  "listen_loop [] last_error t = (Inl last_error, t)"
| "listen_loop (a # as) last_error t =
     (case la_socket a of
        Inl e \<Rightarrow> listen_loop as e t
      | Inr fd \<Rightarrow>
          let t = open_fd fd t
          in case attempt_listen a of
               Inl e \<Rightarrow> listen_loop as (what e) (close_fd fd t)
             | Inr _ \<Rightarrow> (Inr fd, t))"

definition listen_tcp :: "string + listen_attempt list \<Rightarrow> u16 \<Rightarrow> string \<Rightarrow> int \<Rightarrow> fd_table \<Rightarrow> socket result \<times> fd_table" where
  "listen_tcp lookup p address backlog t =
     (if backlog \<le> 0 then (throw ''TCP listen backlog must be positive'', t)
      else case lookup of
        Inl m \<Rightarrow> (throw (''Unable to resolve listen address: '' @ m), t)
      | Inr attempts \<Rightarrow>
          (case listen_loop attempts ''No bindable address'' t of
             (Inr s, t) \<Rightarrow> (Inr s, t)
           | (Inl m, t) \<Rightarrow> (throw (''Unable to listen on '' @ address @ '':'' @ dec (unat p) @ '': '' @ m), t)))"

datatype accept_event = Accept_interrupted | Accept_failed string | Accepted int

record accept_answer =
  ac_events :: "accept_event list"
  ac_getfd :: answer
  ac_setfd :: answer
  ac_nameinfo :: "string + string \<times> string"

text \<open>The accepting loop; a script that is used up is a listener that was shut down.\<close>

fun accept_loop_call :: "accept_event list \<Rightarrow> int result" where
  "accept_loop_call [] = throw ''Unable to accept TCP connection: Invalid argument''"
| "accept_loop_call (Accept_interrupted # es) = accept_loop_call es"
| "accept_loop_call (Accept_failed e # es) = throw (''Unable to accept TCP connection: '' @ e)"
| "accept_loop_call (Accepted fd # es) = Inr fd"

text \<open>\<open>want_remote\<close> is \<^verbatim>\<open>remote_endpoint != nullptr\<close>.\<close>

definition accept_tcp :: "accept_answer \<Rightarrow> bool \<Rightarrow> fd_table \<Rightarrow> (socket \<times> endpoint option) result \<times> fd_table" where
  "accept_tcp a want_remote t =
     (case accept_loop_call (ac_events a) of
        Inl e \<Rightarrow> (Inl e, t)
      | Inr fd \<Rightarrow>
          let t = open_fd fd t
          in case rbind (set_close_on_exec (ac_getfd a) (ac_setfd a)) (\<lambda>_.
                  if want_remote then rbind (endpoint_from_address (ac_nameinfo a)) (\<lambda>e. Inr (Some e))
                  else Inr None) of
               Inl e \<Rightarrow> (Inl e, close_fd fd t)
             | Inr remote \<Rightarrow> (Inr (fd, remote), t))"

datatype sock_name = Inet u16 | Inet6 u16 | Other_family

definition bound_port :: "string + sock_name \<Rightarrow> u16 result" where
  "bound_port sockname =
     (case sockname of
        Inl e \<Rightarrow> throw (''Unable to read TCP bound port: '' @ e)
      | Inr (Inet p) \<Rightarrow> Inr p
      | Inr (Inet6 p) \<Rightarrow> Inr p
      | Inr Other_family \<Rightarrow> throw ''TCP socket has an unsupported address family'')"

section \<open>Descriptors are neither leaked nor closed twice\<close>

text \<open>
  The contract of the functions that obtain a descriptor. \<open>fresh\<close> says that the kernel hands out
  descriptors that are not open; \<open>clean\<close> that the calls which the function cannot recover from
  cleanly do not fail.
\<close>

locale descriptor_source =
  fixes acquire :: "'p \<Rightarrow> fd_table \<Rightarrow> 'a result \<times> fd_table"
    and handle :: "'a \<Rightarrow> int"
    and fresh :: "'p \<Rightarrow> fd_table \<Rightarrow> bool"
    and clean :: "'p \<Rightarrow> bool"
  assumes acquired: "acquire p t = (Inr x, t') \<Longrightarrow> fresh p t \<Longrightarrow>
      0 \<le> handle x \<and> handle x \<notin> open_fds t \<and> open_fds t' = insert (handle x) (open_fds t)"
    and refused: "acquire p t = (Inl e, t') \<Longrightarrow> fresh p t \<Longrightarrow> open_fds t' = open_fds t"
    and clean_close: "acquire p t = (r, t') \<Longrightarrow> fresh p t \<Longrightarrow> clean p \<Longrightarrow> bad_close t' = bad_close t"
begin

text \<open>A scope that acquires a descriptor and destroys its owner leaves the table as it was.\<close>

lemma scoped_use:
  assumes "acquire p t = (Inr x, t')" and "fresh p t"
  shows "open_fds (socket_destroy (handle x) t') = open_fds t \<and>
    bad_close (socket_destroy (handle x) t') = bad_close t'"
  using acquired [OF assms]
  by (simp add: socket_destroy_def socket_close_def socket_release_def close_fd_def)

lemma scoped_use_clean:
  assumes "acquire p t = (Inr x, t')" and "fresh p t" and "clean p"
  shows "socket_destroy (handle x) t' = t"
  using scoped_use [OF assms(1,2)] clean_close [OF assms] by simp

end

lemma close_opened:
  "0 \<le> fd \<Longrightarrow> fd \<notin> open_fds t \<Longrightarrow> close_fd fd (open_fd fd t) = t"
  by (simp add: close_fd_def open_fd_def)

definition fresh_fd :: "string + int \<Rightarrow> fd_table \<Rightarrow> bool" where
  "fresh_fd s t \<longleftrightarrow> (\<forall>fd. s = Inr fd \<longrightarrow> 0 \<le> fd \<and> fd \<notin> open_fds t)"

definition timeouts_ok :: "attempt \<Rightarrow> bool" where
  "timeouts_ok a \<longleftrightarrow> at_rcvtimeo a = None \<and> at_sndtimeo a = None"

lemma poll_timeout_exact: "0 \<le> timeout \<Longrightarrow> timeout < 2 ^ 31 \<Longrightarrow> poll_timeout timeout = timeout"
  by (simp add: poll_timeout_def signed_of_int signed_take_bit_int_eq_self)

lemma close_twice:
  "0 \<le> fd \<Longrightarrow> fd \<notin> open_fds t \<Longrightarrow>
     close_fd fd (socket_destroy fd (open_fd fd t)) = t\<lparr>bad_close := True\<rparr>"
  by (simp add: close_fd_def open_fd_def socket_destroy_def socket_close_def socket_release_def)

text \<open>What an attempt leads to: the next one, perhaps after a descriptor was closed twice, or the connection.\<close>

lemma connect_attempt_cases:
  assumes run: "connect_loop timeout (a # as) m t = (r, t')" and fresh: "fresh_fd (at_socket a) t"
  obtains (skip) m' where "connect_loop timeout as m' t = (r, t')"
    | (twice) m' where "connect_loop timeout as m' (t\<lparr>bad_close := True\<rparr>) = (r, t')" "\<not> (0 < timeout \<and> timeouts_ok a)"
    | (got) fd c where "r = Inr c" "native_handle c = fd" "t' = open_fd fd t" "0 \<le> fd" "fd \<notin> open_fds t"
proof (cases "at_socket a")
  case (Inl e)
  with run show ?thesis by (intro skip) simp
next
  case (Inr fd)
  then have fd: "0 \<le> fd" "fd \<notin> open_fds t" using fresh by (auto simp: fresh_fd_def)
  note step = run [unfolded connect_loop.simps Inr Let_def sum.case]
  show ?thesis
  proof (cases "attempt_connect timeout a")
    case (Inl e)
    with step fd show ?thesis by (cases e) (auto simp: close_opened intro: skip)
  next
    case (Inr u)
    show ?thesis
    proof (cases "set_socket_timeout fd timeout (at_rcvtimeo a) (at_sndtimeo a)")
      case (Inl e)
      then have "\<not> (0 < timeout \<and> timeouts_ok a)"
        using fd by (auto simp: set_socket_timeout_def timeouts_ok_def socket_valid_def call_def Let_def split: option.splits)
      moreover from step Inr Inl fd have "connect_loop timeout as (what e) (t\<lparr>bad_close := True\<rparr>) = (r, t')"
        by (simp add: close_twice)
      ultimately show ?thesis by (intro twice)
    next
      case (Inr v)
      with step \<open>attempt_connect timeout a = Inr u\<close> fd show ?thesis by (intro got) auto
    qed
  qed
qed

lemma connect_loop_table:
  assumes "connect_loop timeout as m t = (r, t')" and "\<forall>a\<in>set as. fresh_fd (at_socket a) t"
  shows "(\<forall>c. r = Inr c \<longrightarrow> 0 \<le> native_handle c \<and> native_handle c \<notin> open_fds t \<and>
      open_fds t' = insert (native_handle c) (open_fds t)) \<and>
    (\<forall>e. r = Inl e \<longrightarrow> open_fds t' = open_fds t) \<and>
    (0 < timeout \<longrightarrow> (\<forall>a\<in>set as. timeouts_ok a) \<longrightarrow> bad_close t' = bad_close t)"
  using assms
proof (induction as arbitrary: m t)
  case Nil
  then show ?case by auto
next
  case (Cons a as)
  have fresh: "\<forall>a\<in>set as. fresh_fd (at_socket a) (t\<lparr>bad_close := b\<rparr>)" for b
    using Cons.prems(2) by (simp add: fresh_fd_def)
  have "fresh_fd (at_socket a) t" using Cons.prems(2) by simp
  with Cons.prems(1) show ?case
  proof (cases rule: connect_attempt_cases)
    case (skip m')
    from Cons.IH [OF this] fresh [of "bad_close t"] show ?thesis by simp
  next
    case (twice m')
    from Cons.IH [OF twice(1) fresh] twice(2) show ?thesis by auto
  next
    case (got fd c)
    then show ?thesis by (simp add: open_fd_def)
  qed
qed

text \<open>Whether the loop comes to an address whose descriptor it closes twice.\<close>

definition reaches_timeout :: "int \<Rightarrow> attempt \<Rightarrow> bool" where
  "reaches_timeout timeout a \<longleftrightarrow> (\<exists>fd. at_socket a = Inr fd) \<and> attempt_connect timeout a = Inr ()"

fun closes_twice :: "int \<Rightarrow> attempt list \<Rightarrow> bool" where
  "closes_twice timeout [] \<longleftrightarrow> False"
| "closes_twice timeout (a # as) \<longleftrightarrow> (if reaches_timeout timeout a then \<not> timeouts_ok a else closes_twice timeout as)"

lemma closes_twice_split:
  "closes_twice timeout as \<longleftrightarrow> (\<exists>before a after. as = before @ a # after \<and>
     (\<forall>b\<in>set before. \<not> (reaches_timeout timeout b \<and> timeouts_ok b)) \<and> reaches_timeout timeout a \<and> \<not> timeouts_ok a)"
    (is "_ \<longleftrightarrow> ?split as")
proof (induction as)
  case (Cons a as)
  have "?split (a # as) \<longleftrightarrow> reaches_timeout timeout a \<and> \<not> timeouts_ok a \<or> \<not> (reaches_timeout timeout a \<and> timeouts_ok a) \<and> ?split as"
    (is "_ \<longleftrightarrow> ?now \<or> ?later")
  proof
    assume "?split (a # as)"
    then obtain before b after where b: "a # as = before @ b # after"
      "\<forall>b\<in>set before. \<not> (reaches_timeout timeout b \<and> timeouts_ok b)" "reaches_timeout timeout b" "\<not> timeouts_ok b" by blast
    show "?now \<or> ?later"
    proof (cases before)
      case Nil
      with b show ?thesis by simp
    next
      case (Cons c before')
      with b have "as = before' @ b # after" "\<not> (reaches_timeout timeout a \<and> timeouts_ok a)"
        "\<forall>b\<in>set before'. \<not> (reaches_timeout timeout b \<and> timeouts_ok b)" by auto
      with b(3,4) show ?thesis by blast
    qed
  next
    assume "?now \<or> ?later"
    then show "?split (a # as)"
    proof
      assume ?now
      then show ?thesis by (intro exI [of _ "[]"] exI [of _ a] exI [of _ as]) simp
    next
      assume ?later
      then obtain before b after where "as = before @ b # after" "\<forall>b\<in>set (a # before). \<not> (reaches_timeout timeout b \<and> timeouts_ok b)"
        "reaches_timeout timeout b" "\<not> timeouts_ok b" by auto
      then show ?thesis by (intro exI [of _ "a # before"] exI [of _ b] exI [of _ after]) simp
    qed
  qed
  with Cons.IH show ?case by auto
qed simp

text \<open>
  Once one descriptor was closed twice the flag stays, so only the first address that reaches the timeouts matters.
\<close>

lemma connect_loop_bad_close:
  assumes "connect_loop timeout as m t = (r, t')" and "0 < timeout" and "\<forall>a\<in>set as. fresh_fd (at_socket a) t"
  shows "bad_close t' \<longleftrightarrow> bad_close t \<or> closes_twice timeout as"
  using assms
proof (induction as arbitrary: m t)
  case (Cons a as)
  have fresh: "\<forall>a\<in>set as. fresh_fd (at_socket a) (t\<lparr>bad_close := b\<rparr>)" for b
    using Cons.prems(3) by (simp add: fresh_fd_def)
  show ?case
  proof (cases "reaches_timeout timeout a")
    case False
    then have "\<exists>m'. connect_loop timeout as m' t = (r, t')"
      using Cons.prems by (auto simp: reaches_timeout_def close_opened fresh_fd_def Let_def split: sum.splits)
    with Cons.IH Cons.prems(2,3) False show ?thesis by auto
  next
    case True
    then obtain fd where fd: "at_socket a = Inr fd" "0 \<le> fd" "fd \<notin> open_fds t" "attempt_connect timeout a = Inr ()"
      using Cons.prems(3) by (auto simp: reaches_timeout_def fresh_fd_def)
    have ok: "(\<exists>v. set_socket_timeout fd timeout (at_rcvtimeo a) (at_sndtimeo a) = Inr v) \<longleftrightarrow> timeouts_ok a"
      using fd Cons.prems(2) by (auto simp: set_socket_timeout_def timeouts_ok_def socket_valid_def call_def Let_def split: option.splits)
    show ?thesis
    proof (cases "set_socket_timeout fd timeout (at_rcvtimeo a) (at_sndtimeo a)")
      case (Inl e)
      then have "connect_loop timeout as (what e) (t\<lparr>bad_close := True\<rparr>) = (r, t')"
        using Cons.prems(1) fd by (simp add: close_twice Let_def)
      from Cons.IH [OF this Cons.prems(2) fresh] Inl ok True show ?thesis by simp
    next
      case (Inr v)
      with Cons.prems(1) fd ok True show ?thesis by (auto simp: Let_def open_fd_def)
    qed
  qed
qed simp


definition connect_fresh :: "network \<times> endpoint \<times> int \<Rightarrow> fd_table \<Rightarrow> bool" where
  "connect_fresh p t = (case p of (net, e, timeout) \<Rightarrow>
     (\<forall>as. net e = Inr as \<longrightarrow> (\<forall>a\<in>set as. fresh_fd (at_socket a) t)))"

definition connect_clean :: "network \<times> endpoint \<times> int \<Rightarrow> bool" where
  "connect_clean p = (case p of (net, e, timeout) \<Rightarrow>
     (\<forall>as. net e = Inr as \<longrightarrow> (\<forall>a\<in>set as. timeouts_ok a)))"

lemma connect_tcp_table:
  assumes "connect_tcp net e timeout t = (r, t')" and "connect_fresh (net, e, timeout) t"
  shows "(\<forall>c. r = Inr c \<longrightarrow> 0 \<le> native_handle c \<and> native_handle c \<notin> open_fds t \<and>
      open_fds t' = insert (native_handle c) (open_fds t)) \<and>
    (\<forall>x. r = Inl x \<longrightarrow> open_fds t' = open_fds t) \<and>
    (connect_clean (net, e, timeout) \<longrightarrow> bad_close t' = bad_close t)"
proof (cases "host e = [] \<or> port e = 0 \<or> timeout \<le> 0 \<or> (\<exists>m. net e = Inl m)")
  case True
  with assms(1) show ?thesis by (auto simp: connect_tcp_def split: if_splits)
next
  case False
  then obtain as where as: "net e = Inr as" and pos: "0 < timeout" by (cases "net e") auto
  obtain r' t'' where loop: "connect_loop timeout as ''No reachable address'' t = (r', t'')" by fastforce
  have "\<forall>a\<in>set as. fresh_fd (at_socket a) t" using assms(2) as by (simp add: connect_fresh_def)
  from connect_loop_table [OF loop this] assms(1) as pos False loop show ?thesis
    by (auto simp: connect_tcp_def connect_clean_def split: sum.splits)
qed

lemma connect_loop_sent: "connect_loop timeout as e t = (Inr c, t') \<Longrightarrow> sent c = []"
  by (induction timeout as e t rule: connect_loop.induct) (auto simp: Let_def split: sum.splits)

lemma connect_tcp_sent: "connect_tcp net e timeout t = (Inr c, t') \<Longrightarrow> sent c = []"
  by (auto simp: connect_tcp_def dest: connect_loop_sent split: if_splits sum.splits prod.splits)

interpretation cn: descriptor_source "\<lambda>(net, e, timeout). connect_tcp net e timeout" native_handle
  connect_fresh connect_clean
proof (unfold_locales, goal_cases)
  case (1 p t x t')
  then show ?case using connect_tcp_table [of "fst p" "fst (snd p)" "snd (snd p)" t "Inr x" t']
    by (auto split: prod.splits)
next
  case (2 p t e t')
  then show ?case using connect_tcp_table [of "fst p" "fst (snd p)" "snd (snd p)" t "Inl e" t']
    by (auto split: prod.splits)
next
  case (3 p t r t')
  then show ?case using connect_tcp_table [of "fst p" "fst (snd p)" "snd (snd p)" t r t']
    by (auto split: prod.splits)
qed

lemma with_connection_descriptors:
  assumes "connect_fresh (net, e, timeout) t" and "with_connection net e timeout body t = (r, c, t')"
  shows "open_fds t' = open_fds t \<and> (connect_clean (net, e, timeout) \<longrightarrow> t' = t)"
proof -
  obtain x t1 where run: "connect_tcp net e timeout t = (x, t1)" by fastforce
  show ?thesis
  proof (cases x)
    case (Inl m)
    with assms(2) run connect_tcp_table [OF run assms(1)] show ?thesis
      by (auto simp: with_connection_def)
  next
    case (Inr d)
    with run assms cn.scoped_use [of "(net, e, timeout)" t d t1]
      cn.scoped_use_clean [of "(net, e, timeout)" t d t1] show ?thesis
      by (auto simp: with_connection_def split: prod.splits)
  qed
qed

lemma listen_loop_table:
  assumes "listen_loop as m t = (r, t')" and "\<forall>a\<in>set as. fresh_fd (la_socket a) t"
  shows "(\<forall>s. r = Inr s \<longrightarrow> 0 \<le> s \<and> s \<notin> open_fds t \<and> open_fds t' = insert s (open_fds t)) \<and>
    (\<forall>e. r = Inl e \<longrightarrow> open_fds t' = open_fds t) \<and> bad_close t' = bad_close t"
  using assms
proof (induction as arbitrary: m)
  case (Cons a as)
  show ?case
  proof (cases "la_socket a")
    case (Inl e)
    with Cons show ?thesis by auto
  next
    case (Inr fd)
    then have fd: "0 \<le> fd" "fd \<notin> open_fds t" using Cons.prems(2) by (auto simp: fresh_fd_def)
    show ?thesis
    proof (cases "attempt_listen a")
      case (Inl e)
      with Inr Cons.prems(1) fd have "listen_loop as (what e) t = (r, t')" by (simp add: close_opened)
      from Cons.IH [OF this] Cons.prems(2) show ?thesis by simp
    next
      case (Inr u)
      with \<open>la_socket a = Inr fd\<close> Cons.prems(1) fd show ?thesis by (auto simp: open_fd_def)
    qed
  qed
qed auto

type_synonym listen_call = "(string + listen_attempt list) \<times> u16 \<times> string \<times> int"

definition listen_fresh :: "listen_call \<Rightarrow> fd_table \<Rightarrow> bool" where
  "listen_fresh p t \<longleftrightarrow> (\<forall>as. fst p = Inr as \<longrightarrow> (\<forall>a\<in>set as. fresh_fd (la_socket a) t))"

lemma listen_tcp_table:
  assumes "listen_tcp lookup p address backlog t = (r, t')" and "listen_fresh (lookup, p, address, backlog) t"
  shows "(\<forall>s. r = Inr s \<longrightarrow> 0 \<le> s \<and> s \<notin> open_fds t \<and> open_fds t' = insert s (open_fds t)) \<and>
    (\<forall>e. r = Inl e \<longrightarrow> open_fds t' = open_fds t) \<and> bad_close t' = bad_close t"
proof (cases "backlog \<le> 0 \<or> (\<exists>m. lookup = Inl m)")
  case True
  with assms(1) show ?thesis by (auto simp: listen_tcp_def split: if_splits)
next
  case False
  then obtain as where as: "lookup = Inr as" by (cases lookup) auto
  obtain r' t'' where loop: "listen_loop as ''No bindable address'' t = (r', t'')" by fastforce
  have "\<forall>a\<in>set as. fresh_fd (la_socket a) t" using assms(2) as by (simp add: listen_fresh_def)
  from listen_loop_table [OF loop this] assms(1) as False loop show ?thesis
    by (auto simp: listen_tcp_def split: sum.splits)
qed

interpretation ln: descriptor_source "\<lambda>(lookup, p, address, backlog). listen_tcp lookup p address backlog"
  "\<lambda>s. s" listen_fresh "\<lambda>_. True"
proof (unfold_locales, goal_cases)
  case (1 p t x t')
  then show ?case using listen_tcp_table [of "fst p" "fst (snd p)" "fst (snd (snd p))" "snd (snd (snd p))" t "Inr x" t']
    by (auto split: prod.splits)
next
  case (2 p t e t')
  then show ?case using listen_tcp_table [of "fst p" "fst (snd p)" "fst (snd (snd p))" "snd (snd (snd p))" t "Inl e" t']
    by (auto split: prod.splits)
next
  case (3 p t r t')
  then show ?case using listen_tcp_table [of "fst p" "fst (snd p)" "fst (snd (snd p))" "snd (snd (snd p))" t r t']
    by (auto split: prod.splits)
qed

definition accept_fresh :: "accept_answer \<times> bool \<Rightarrow> fd_table \<Rightarrow> bool" where
  "accept_fresh p t \<longleftrightarrow> (\<forall>fd. Accepted fd \<in> set (ac_events (fst p)) \<longrightarrow> 0 \<le> fd \<and> fd \<notin> open_fds t)"

lemma accept_loop_call_Inr: "accept_loop_call es = Inr fd \<Longrightarrow> Accepted fd \<in> set es"
  by (induction es rule: accept_loop_call.induct) simp_all

lemma accept_tcp_table:
  assumes "accept_tcp a want t = (r, t')" and "accept_fresh (a, want) t"
  shows "(\<forall>x. r = Inr x \<longrightarrow> 0 \<le> fst x \<and> fst x \<notin> open_fds t \<and> open_fds t' = insert (fst x) (open_fds t)) \<and>
    (\<forall>e. r = Inl e \<longrightarrow> open_fds t' = open_fds t) \<and> bad_close t' = bad_close t"
proof (cases "accept_loop_call (ac_events a)")
  case (Inl e)
  with assms(1) show ?thesis by (auto simp: accept_tcp_def)
next
  case (Inr fd)
  then have fd: "0 \<le> fd" "fd \<notin> open_fds t"
    using assms(2) accept_loop_call_Inr by (auto simp: accept_fresh_def)
  note step = assms(1) [unfolded accept_tcp_def Inr Let_def sum.case]
  show ?thesis
  proof (cases "r")
    case (Inl e)
    with step fd have "t' = t" by (auto simp: close_opened split: sum.splits)
    with Inl show ?thesis by simp
  next
    case (Inr x)
    with step have "fst x = fd \<and> t' = open_fd fd t" by (auto split: sum.splits)
    with Inr fd show ?thesis by (simp add: open_fd_def)
  qed
qed

interpretation ac: descriptor_source "\<lambda>(a, want). accept_tcp a want" fst accept_fresh "\<lambda>_. True"
proof (unfold_locales, goal_cases)
  case (1 p t x t')
  then show ?case using accept_tcp_table [of "fst p" "snd p" t "Inr x" t'] by (auto split: prod.splits)
next
  case (2 p t e t')
  then show ?case using accept_tcp_table [of "fst p" "snd p" t "Inl e" t'] by (auto split: prod.splits)
next
  case (3 p t r t')
  then show ?case using accept_tcp_table [of "fst p" "snd p" t r t'] by (auto split: prod.splits)
qed


text \<open>
  C34. Connecting leaks nothing (\<^verbatim>\<open>connect_tcp\<close>): whatever each call on each address answers, a
  returned connection owns one new open descriptor and every other descriptor of the attempts is
  closed again; after an exception the open descriptors are those from before. No
  descriptor is closed twice, provided setting the timeouts of a connected socket does not fail.
\<close>

theorem connect_tcp_descriptors:
  assumes "connect_tcp net e timeout t = (r, t')" and "connect_fresh (net, e, timeout) t"
  shows "(\<forall>c. r = Inr c \<longrightarrow> 0 \<le> native_handle c \<and> native_handle c \<notin> open_fds t \<and>
      open_fds t' = insert (native_handle c) (open_fds t) \<and>
      open_fds (socket_destroy (native_handle c) t') = open_fds t) \<and>
    (\<forall>x. r = Inl x \<longrightarrow> open_fds t' = open_fds t) \<and>
    (connect_clean (net, e, timeout) \<longrightarrow> bad_close t' = bad_close t)"
  using connect_tcp_table [OF assms] cn.scoped_use [of "(net, e, timeout)" t _ t'] assms by auto

text \<open>
  C39. A descriptor is closed twice exactly when \<^verbatim>\<open>set_socket_timeout\<close> fails on a connected socket
  (\<^verbatim>\<open>connect_tcp\<close>): the local \<^verbatim>\<open>Socket\<close> closes it while the exception unwinds the stack, and the
  handler calls \<^verbatim>\<open>close_fd\<close> on the same number, which by then is not open. This happens at every address the loop comes
  to, whichever of the two options cannot be set, also when a later address is reached and the call returns a connection; no other
  failing call causes it, such as the one that makes the socket blocking again.
\<close>

theorem connect_tcp_double_close:
  assumes "connect_tcp net e timeout t = (r, t')" and "host e \<noteq> []" "port e \<noteq> 0" "0 < timeout" "net e = Inr as"
    and "\<forall>a\<in>set as. fresh_fd (at_socket a) t" and "\<not> bad_close t"
  shows "bad_close t' \<longleftrightarrow>
    (\<exists>before a after. as = before @ a # after \<and>
       (\<forall>b\<in>set before. \<not> (reaches_timeout timeout b \<and> at_rcvtimeo b = None \<and> at_sndtimeo b = None)) \<and>
       reaches_timeout timeout a \<and> \<not> (at_rcvtimeo a = None \<and> at_sndtimeo a = None))"
proof -
  obtain x where "connect_loop timeout as ''No reachable address'' t = (x, t')"
    using assms(1-5) by (auto simp: connect_tcp_def split: prod.splits sum.splits)
  from connect_loop_bad_close [OF this assms(4,6)] assms(7) show ?thesis by (simp add: closes_twice_split timeouts_ok_def)
qed

text \<open>
  The servers' sockets (\<^verbatim>\<open>listen_tcp\<close>, \<^verbatim>\<open>accept_tcp\<close>): a returned socket owns one new open
  descriptor, an exception leaves the open descriptors as they were, and no descriptor is closed
  twice, on every path.
\<close>

theorem server_sockets_descriptors:
  shows "(\<forall>lookup p address backlog t r t'. listen_tcp lookup p address backlog t = (r, t') \<longrightarrow>
      listen_fresh (lookup, p, address, backlog) t \<longrightarrow>
      (\<forall>s. r = Inr s \<longrightarrow> 0 \<le> s \<and> s \<notin> open_fds t \<and> socket_destroy s t' = t) \<and>
      (\<forall>e. r = Inl e \<longrightarrow> t' = t)) \<and>
    (\<forall>a want t r t'. accept_tcp a want t = (r, t') \<longrightarrow> accept_fresh (a, want) t \<longrightarrow>
      (\<forall>s remote. r = Inr (s, remote) \<longrightarrow> 0 \<le> s \<and> s \<notin> open_fds t \<and> socket_destroy s t' = t) \<and>
      (\<forall>e. r = Inl e \<longrightarrow> t' = t))"
proof (intro conjI allI impI)
  fix lookup p address backlog t r t'
  assume run: "listen_tcp lookup p address backlog t = (r, t')"
    and fresh: "listen_fresh (lookup, p, address, backlog) t"
  note table = listen_tcp_table [OF run fresh]
  show "0 \<le> s" "s \<notin> open_fds t" if "r = Inr s" for s using table that by auto
  show "socket_destroy s t' = t" if "r = Inr s" for s
    using ln.scoped_use_clean [of "(lookup, p, address, backlog)" t s t'] run fresh that by simp
  show "t' = t" if "r = Inl e" for e using table that by simp
next
  fix a want t r t'
  assume run: "accept_tcp a want t = (r, t')" and fresh: "accept_fresh (a, want) t"
  note table = accept_tcp_table [OF run fresh]
  show "0 \<le> s" "s \<notin> open_fds t" if "r = Inr (s, remote)" for s remote using table that by auto
  show "socket_destroy s t' = t" if "r = Inr (s, remote)" for s remote
    using ac.scoped_use_clean [of "(a, want)" t "(s, remote)" t'] run fresh that by simp
  show "t' = t" if "r = Inl e" for e using table that by simp
qed

text \<open>
  The timeout of a socket is the one that was asked for (\<^verbatim>\<open>set_socket_timeout\<close>): seconds
  and microseconds of the system call add up to the milliseconds given, the microseconds stay
  below one second, and an invalid socket or a timeout that is not positive is refused.
\<close>

theorem socket_timeout_exact:
  "(\<forall>v. set_socket_timeout s timeout rcv snd' = Inr v \<longrightarrow>
      0 \<le> s \<and> 0 < timeout \<and> tv_sec v * 1000000 + tv_usec v = timeout * 1000 \<and> 0 \<le> tv_sec v \<and>
      0 \<le> tv_usec v \<and> tv_usec v < 1000000) \<and>
   (s < 0 \<or> timeout \<le> 0 \<or> rcv \<noteq> None \<or> snd' \<noteq> None \<longrightarrow> (\<exists>e. set_socket_timeout s timeout rcv snd' = Inl e))"
proof (intro conjI allI impI)
  fix v assume "set_socket_timeout s timeout rcv snd' = Inr v"
  then have s: "0 \<le> s" and pos: "0 < timeout" and v: "v = \<lparr>tv_sec = timeout div 1000,
      tv_usec = (timeout - timeout div 1000 * 1000) * 1000\<rparr>"
    by (auto simp: set_socket_timeout_def socket_valid_def Let_def result_simps split: if_splits)
  have "timeout - timeout div 1000 * 1000 = timeout mod 1000" by (simp add: minus_div_mult_eq_mod)
  then show "0 \<le> s" "0 < timeout" "tv_sec v * 1000000 + tv_usec v = timeout * 1000"
    "0 \<le> tv_sec v" "0 \<le> tv_usec v" "tv_usec v < 1000000"
    using s pos by (simp_all add: v pos_imp_zdiv_nonneg_iff)
next
  assume "s < 0 \<or> timeout \<le> 0 \<or> rcv \<noteq> None \<or> snd' \<noteq> None"
  then show "\<exists>e. set_socket_timeout s timeout rcv snd' = Inl e"
    by (auto simp: set_socket_timeout_def socket_valid_def Let_def call_def split: option.splits)
qed

section \<open>Concrete sockets\<close>

definition sample_attempt :: attempt where
  "sample_attempt = \<lparr>at_socket = Inr 5, at_getfd = None, at_setfd = None, at_getfl = None, at_setfl = None,
     at_connect = In_progress, at_polls = (\<lambda>_. [Poll_interrupted, Poll_ready]), at_getsockopt = None,
     at_so_error = None, at_getfl_back = None, at_setfl_back = None, at_rcvtimeo = None, at_sndtimeo = None,
     at_incoming = [], at_sending = []\<rparr>"

definition sample_endpoint :: endpoint where
  "sample_endpoint = \<lparr>host = ''127.0.0.1'', port = 7000\<rparr>"

definition sample_fds :: fd_table where
  "sample_fds = \<lparr>open_fds = {0, 1, 2}, bad_close = False\<rparr>"

theorem connect_tcp_descriptors_witness:
  "open_fds (snd (connect_tcp (\<lambda>_. Inr [sample_attempt\<lparr>at_connect := Connect_failed ''refused''\<rparr>, sample_attempt])
     sample_endpoint 3000 sample_fds)) = {5, 0, 1, 2}"
proof -
  let ?net = "\<lambda>_. Inr [sample_attempt\<lparr>at_connect := Connect_failed ''refused''\<rparr>, sample_attempt]"
  let ?t' = "open_fd 5 sample_fds"
  have run: "\<exists>c. connect_tcp ?net sample_endpoint 3000 sample_fds = (Inr c, ?t') \<and> native_handle c = 5"
    by (simp add: connect_tcp_def sample_endpoint_def attempt_connect_def sample_attempt_def
        set_close_on_exec_def set_non_blocking_def call_def wait_for_connect_def close_opened sample_fds_def
        set_socket_timeout_def socket_valid_def Let_def)
  have "connect_fresh (?net, sample_endpoint, 3000) sample_fds"
    by (simp add: connect_fresh_def fresh_fd_def sample_attempt_def sample_fds_def)
  with run show ?thesis
    using connect_tcp_descriptors [of ?net sample_endpoint 3000 sample_fds _ ?t'] by (auto simp: sample_fds_def)
qed

theorem connect_tcp_double_close_witness:
  "\<exists>c t'. connect_tcp (\<lambda>_. Inr [sample_attempt\<lparr>at_sndtimeo := Some ''Invalid argument''\<rparr>, sample_attempt]) sample_endpoint 3000
     sample_fds = (Inr c, t') \<and> bad_close t'"
proof -
  let ?a = "sample_attempt\<lparr>at_sndtimeo := Some ''Invalid argument''\<rparr>" and ?net = "\<lambda>_ :: endpoint. Inr [sample_attempt\<lparr>at_sndtimeo := Some ''Invalid argument''\<rparr>, sample_attempt] :: string + attempt list"
  have ok: "attempt_connect 3000 ?a = Inr ()" "attempt_connect 3000 sample_attempt = Inr ()" "at_socket ?a = Inr 5" "at_socket sample_attempt = Inr 5"
    by (simp_all add: attempt_connect_def sample_attempt_def set_close_on_exec_def set_non_blocking_def call_def
        wait_for_connect_def)
  have more: "at_rcvtimeo ?a = None" "at_sndtimeo ?a = Some ''Invalid argument''" "at_rcvtimeo sample_attempt = None" "at_sndtimeo sample_attempt = None"
    by (simp_all add: sample_attempt_def)
  obtain c t' where run: "connect_tcp ?net sample_endpoint 3000 sample_fds = (Inr c, t')"
    by (simp add: connect_tcp_def sample_endpoint_def ok more set_socket_timeout_def socket_valid_def call_def Let_def)
  have "bad_close t' \<longleftrightarrow> (\<exists>before a after. [?a, sample_attempt] = before @ a # after \<and>
       (\<forall>b\<in>set before. \<not> (reaches_timeout 3000 b \<and> at_rcvtimeo b = None \<and> at_sndtimeo b = None)) \<and>
       reaches_timeout 3000 a \<and> \<not> (at_rcvtimeo a = None \<and> at_sndtimeo a = None))"
    by (rule connect_tcp_double_close [OF run]) (simp_all add: sample_endpoint_def fresh_fd_def ok sample_fds_def)
  moreover have "reaches_timeout 3000 ?a" by (simp add: reaches_timeout_def ok)
  ultimately have "bad_close t'" by (force intro: exI [of _ "[]"])
  with run show ?thesis by blast
qed

theorem server_sockets_descriptors_witness:
  "socket_destroy 6 (snd (accept_tcp \<lparr>ac_events = [Accept_interrupted, Accepted 6], ac_getfd = None,
     ac_setfd = None, ac_nameinfo = Inr (''10.0.0.7'', ''40001'')\<rparr> False sample_fds)) = sample_fds"
proof -
  let ?a = "\<lparr>ac_events = [Accept_interrupted, Accepted 6], ac_getfd = None, ac_setfd = None,
    ac_nameinfo = Inr (''10.0.0.7'', ''40001'')\<rparr>"
  have "accept_tcp ?a False sample_fds = (Inr (6, None), open_fd 6 sample_fds)"
    by (simp add: accept_tcp_def set_close_on_exec_def call_def)
  moreover have "accept_fresh (?a, False) sample_fds" by (simp add: accept_fresh_def sample_fds_def)
  ultimately have "socket_destroy 6 (open_fd 6 sample_fds) = sample_fds"
    using server_sockets_descriptors by blast
  then show ?thesis using \<open>accept_tcp ?a False sample_fds = _\<close> by simp
qed

theorem socket_timeout_exact_witness:
  "\<exists>v. set_socket_timeout 5 3250 None None = Inr v \<and> tv_sec v * 1000000 + tv_usec v = 3250000"
proof -
  have "set_socket_timeout 5 3250 None None = Inr \<lparr>tv_sec = 3, tv_usec = 250000\<rparr>"
    by (simp add: set_socket_timeout_def socket_valid_def call_def)
  with socket_timeout_exact [of 5 3250 None None] show ?thesis by auto
qed

text \<open>A connection on which every message arrives in pieces.\<close>

definition sample_link :: "bytes \<Rightarrow> attempt" where
  "sample_link b = sample_attempt\<lparr>at_incoming := [Segment (take 5 b), Recv_interrupted, Segment (drop 5 b)]\<rparr>"

definition link_conn :: "bytes \<Rightarrow> conn" where
  "link_conn b = \<lparr>native_handle = 5, incoming = [Segment (take 5 b), Recv_interrupted, Segment (drop 5 b)], sending = [], sent = []\<rparr>"

lemma link_conn_facts:
  "pending (incoming (link_conn b)) = b" "0 \<le> native_handle (link_conn b)" "Send_failed m \<notin> set (sending (link_conn b))"
  "sent (link_conn b) = []"
  by (simp_all add: link_conn_def)

lemma sample_connect:
  assumes "host e \<noteq> []" "port e \<noteq> 0" "net e = Inr [sample_link b]"
  shows "connect_tcp net e 3000 t = (Inr (link_conn b), open_fd 5 t)"
  using assms
  by (simp add: connect_tcp_def attempt_connect_def sample_link_def sample_attempt_def link_conn_def
      set_close_on_exec_def set_non_blocking_def call_def wait_for_connect_def
      set_socket_timeout_def socket_valid_def Let_def)

end
