(* ===== verification/Tracker.thy ===== *)
theory Tracker
  imports Sockets "HOL-Library.AList"
begin

text \<open>
  The component \<^verbatim>\<open>src/tracker.cpp\<close>: the client that announces a peer and asks for the peers of a
  swarm, and the server that keeps the registry of swarms. The registry's two unordered maps are
  association lists with distinct keys; the order in which an unordered map is iterated is a
  parameter of the one function whose result shows it. Time is the steady clock in
  nanoseconds. The server's threads are in the theory \<open>Connection_Pool\<close>.
\<close>

section \<open>Data\<close>

record tracker_limits =
  max_connections :: u32
  worker_count :: u32
  max_swarms :: u32
  max_peers_per_swarm :: u32
  max_response_peers :: u32

record peer_advertisement =
  ad_swarm_id :: string
  ad_peer_id :: string
  ad_listen_port :: u16
  ad_chunks :: "u32 list"
  ad_has_all_chunks :: bool

record discovered_peer =
  dp_peer_id :: string
  dp_endpoint :: endpoint
  dp_chunks :: "u32 list"
  dp_has_all_chunks :: bool

record tracker_client =
  tc_endpoint :: endpoint
  tc_token :: string
  tc_timeout :: int

record peer_record =
  pr_peer :: discovered_peer
  last_seen :: int

type_synonym peer_map = "(string \<times> peer_record) list"
type_synonym swarm_map = "(string \<times> peer_map) list"

record tracker_server =
  ts_requested_port :: u16
  ts_token :: string
  ts_ttl :: int
  ts_bind_address :: string
  ts_limits :: tracker_limits

section \<open>The client\<close>

definition split_response :: "string \<Rightarrow> string list result" where
  "split_response line =
     (if line = [] \<or> length line > kMaxHeaderBytes
      then throw ''Tracker response has an invalid length''
      else split_loop (''Tracker response contains an invalid character'',
        ''Tracker response contains an empty field'', ''Tracker response ends with a separator'') line [] [])"

definition parse_peer_response :: "string \<Rightarrow> discovered_peer result" where
  "parse_peer_response line =
     rbind (split_response line) (\<lambda>fields.
     if length fields \<noteq> 5 \<or> hd fields \<noteq> ''PEER'' then throw ''Tracker returned an invalid peer record''
     else
       rbind (parse_tracker_request (''ANNOUNCE check-token check-swarm '' @ fields ! 1 @ '' '' @
          fields ! 3 @ '' '' @ fields ! 4)) (\<lambda>validated.
       rbind (parse_tracker_request (''PEERS check-token '' @ fields ! 2)) (\<lambda>_.
       Inr \<lparr>dp_peer_id = fields ! 1,
            dp_endpoint = \<lparr>host = fields ! 2, port = tr_listen_port validated\<rparr>,
            dp_chunks = tr_chunks validated, dp_has_all_chunks = tr_has_all_chunks validated\<rparr>)))"

definition expect_ok :: "unit io" where
  "expect_ok =
     io_bind (read_line kMaxHeaderBytes) (\<lambda>response.
     if response \<noteq> ''OK'' then io_lift (throw (''Tracker rejected request: '' @ response)) else io_return ())"

definition tracker_client_new :: "endpoint \<Rightarrow> string \<Rightarrow> int \<Rightarrow> tracker_client result" where
  "tracker_client_new e token timeout =
     (if host e = [] \<or> port e = 0 \<or> token = [] \<or> timeout \<le> 0
      then throw ''Tracker client requires endpoint, token, and positive timeout''
      else Inr \<lparr>tc_endpoint = e, tc_token = token, tc_timeout = timeout\<rparr>)"

text \<open>\<^verbatim>\<open>TrackerClient::announce\<close>; the header is checked with the server's own parser first.\<close>

definition announce_header :: "string \<Rightarrow> peer_advertisement \<Rightarrow> string \<Rightarrow> string" where
  "announce_header token ad chunks =
     ''ANNOUNCE '' @ token @ '' '' @ ad_swarm_id ad @ '' '' @ ad_peer_id ad @ '' '' @
     dec (unat (ad_listen_port ad)) @ '' '' @ chunks"

definition client_announce ::
  "tracker_client \<Rightarrow> peer_advertisement \<Rightarrow> network \<Rightarrow> fd_table \<Rightarrow> unit result \<times> conn option \<times> fd_table" where
  "client_announce client ad net t =
     (case encode_chunk_list (ad_chunks ad) (ad_has_all_chunks ad) of
        Inl e \<Rightarrow> (Inl e, None, t)
      | Inr chunks \<Rightarrow>
          let header = announce_header (tc_token client) ad chunks
          in case parse_tracker_request header of
               Inl e \<Rightarrow> (Inl e, None, t)
             | Inr _ \<Rightarrow>
                 with_connection net (tc_endpoint client) (tc_timeout client)
                   (io_bind (write_all (header @ [nl])) (\<lambda>_. expect_ok)) t)"

text \<open>The loop of \<^verbatim>\<open>TrackerClient::peers\<close>.\<close>

function peers_loop :: "conn \<Rightarrow> discovered_peer list \<Rightarrow> discovered_peer list result \<times> conn" where
  "peers_loop c discovered =
     (case read_line kMaxHeaderBytes c of
        (Inl e, c') \<Rightarrow> (Inl e, c')
      | (Inr response, c') \<Rightarrow>
          if response = ''END'' then (Inr discovered, c')
          else if starts_with response ''ERROR ''
            then (throw (''Tracker rejected peer query: '' @ response), c')
          else case parse_peer_response response of
                 Inl e \<Rightarrow> (Inl e, c')
               | Inr peer \<Rightarrow> peers_loop c' (discovered @ [peer]))"
  by pat_completeness auto
termination
  by (relation "measure (\<lambda>(c, discovered). script_size (incoming c))") (auto intro: read_line_consumes dest: sym)

declare peers_loop.simps [simp del]

definition client_peers ::
  "tracker_client \<Rightarrow> string \<Rightarrow> network \<Rightarrow> fd_table \<Rightarrow> discovered_peer list result \<times> conn option \<times> fd_table" where
  "client_peers client swarm_id net t =
     (let header = ''PEERS '' @ tc_token client @ '' '' @ swarm_id
      in case parse_tracker_request header of
           Inl e \<Rightarrow> (Inl e, None, t)
         | Inr _ \<Rightarrow>
             with_connection net (tc_endpoint client) (tc_timeout client)
               (io_bind (write_all (header @ [nl])) (\<lambda>_ c. peers_loop c [])) t)"

section \<open>The server's registry\<close>

definition tracker_server_new ::
  "u16 \<Rightarrow> string \<Rightarrow> int \<Rightarrow> string \<Rightarrow> tracker_limits \<Rightarrow> tracker_server result" where
  "tracker_server_new p token ttl bind_address limits =
     (if token = [] \<or> ttl \<le> 0 \<or> bind_address = []
      then throw ''Tracker server requires a token, positive TTL, and bind address''
      else if max_connections limits = 0 \<or> worker_count limits = 0 \<or>
          worker_count limits > max_connections limits \<or> max_swarms limits = 0 \<or>
          max_peers_per_swarm limits = 0 \<or> max_response_peers limits = 0 \<or>
          max_response_peers limits > max_peers_per_swarm limits
        then throw ''Tracker limits must be positive and internally consistent''
      else Inr \<lparr>ts_requested_port = p, ts_token = token, ts_ttl = ttl, ts_bind_address = bind_address,
                ts_limits = limits\<rparr>)"

text \<open>The time to live is in seconds, the clock in nanoseconds.\<close>

definition expired :: "int \<Rightarrow> int \<Rightarrow> peer_record \<Rightarrow> bool" where
  "expired ttl now r \<longleftrightarrow> now - last_seen r \<ge> ttl * 1000000000"

fun prune_peers :: "int \<Rightarrow> int \<Rightarrow> peer_map \<Rightarrow> peer_map" where
  "prune_peers ttl now [] = []"
| "prune_peers ttl now ((peer_id, r) # rest) =
     (if expired ttl now r then prune_peers ttl now rest else (peer_id, r) # prune_peers ttl now rest)"

fun prune_expired :: "int \<Rightarrow> int \<Rightarrow> swarm_map \<Rightarrow> swarm_map" where
  "prune_expired ttl now [] = []"
| "prune_expired ttl now ((swarm_id, peers) # rest) =
     (let peers = prune_peers ttl now peers
      in if peers = [] then prune_expired ttl now rest else (swarm_id, peers) # prune_expired ttl now rest)"

definition request_record :: "tracker_request \<Rightarrow> endpoint \<Rightarrow> int \<Rightarrow> peer_record" where
  "request_record request remote now =
     \<lparr>pr_peer = \<lparr>dp_peer_id = tr_peer_id request,
                 dp_endpoint = \<lparr>host = host remote, port = tr_listen_port request\<rparr>,
                 dp_chunks = tr_chunks request, dp_has_all_chunks = tr_has_all_chunks request\<rparr>,
      last_seen = now\<rparr>"

text \<open>The critical section of an announcement: whether it was accepted, and the registry.\<close>

definition announce_locked ::
  "tracker_server \<Rightarrow> int \<Rightarrow> endpoint \<Rightarrow> tracker_request \<Rightarrow> swarm_map \<Rightarrow> bool \<times> swarm_map" where
  "announce_locked srv now remote request swarms =
     (let swarms = prune_expired (ts_ttl srv) now swarms;
          swarms =
            (if map_of swarms (tr_swarm_id request) = None
               \<and> length swarms < unat (max_swarms (ts_limits srv))
             then swarms @ [(tr_swarm_id request, [])] else swarms)
      in case map_of swarms (tr_swarm_id request) of
           None \<Rightarrow> (False, swarms)
         | Some peers \<Rightarrow>
             if map_of peers (tr_peer_id request) \<noteq> None
               \<or> length peers < unat (max_peers_per_swarm (ts_limits srv))
             then (True, AList.update (tr_swarm_id request)
                     (AList.update (tr_peer_id request) (request_record request remote now) peers) swarms)
             else (False, swarms))"

text \<open>The loop that collects peers until the response is full.\<close>

fun collect_peers :: "nat \<Rightarrow> peer_map \<Rightarrow> discovered_peer list \<Rightarrow> discovered_peer list" where
  "collect_peers limit [] peers = peers"
| "collect_peers limit ((peer_id, r) # rest) peers =
     (let peers = peers @ [pr_peer r]
      in if length peers = limit then peers else collect_peers limit rest peers)"

text \<open>The critical section of a query; \<open>order\<close> is the iteration order of the unordered map.\<close>

definition peers_locked ::
  "tracker_server \<Rightarrow> (peer_map \<Rightarrow> peer_map) \<Rightarrow> int \<Rightarrow> tracker_request \<Rightarrow> swarm_map \<Rightarrow>
     discovered_peer list \<times> swarm_map" where
  "peers_locked srv order now request swarms =
     (let swarms = prune_expired (ts_ttl srv) now swarms
      in (case map_of swarms (tr_swarm_id request) of
            None \<Rightarrow> []
          | Some peers \<Rightarrow> collect_peers (unat (max_response_peers (ts_limits srv))) (order peers) [],
          swarms))"

section \<open>Serving a connection\<close>

definition peer_line :: "discovered_peer \<Rightarrow> string \<Rightarrow> string" where
  "peer_line peer chunks =
     ''PEER '' @ dp_peer_id peer @ '' '' @ host (dp_endpoint peer) @ '' '' @
     dec (unat (port (dp_endpoint peer))) @ '' '' @ chunks"

fun write_peers :: "discovered_peer list \<Rightarrow> unit io" where
  "write_peers [] = write_all (''END'' @ [nl])"
| "write_peers (peer # peers) =
     io_bind (io_lift (encode_chunk_list (dp_chunks peer) (dp_has_all_chunks peer))) (\<lambda>chunks.
     io_bind (write_all (peer_line peer chunks @ [nl])) (\<lambda>_. write_peers peers))"

text \<open>The handler at the end of \<^verbatim>\<open>handle_connection\<close>, which ignores a failing write of its own.\<close>

definition or_bad_request :: "unit io \<Rightarrow> conn \<Rightarrow> conn" where
  "or_bad_request m c =
     (case m c of (Inr _, c) \<Rightarrow> c | (Inl _, c) \<Rightarrow> snd (write_all (''ERROR bad_request'' @ [nl]) c))"

definition handle_connection ::
  "tracker_server \<Rightarrow> (peer_map \<Rightarrow> peer_map) \<Rightarrow> int \<Rightarrow> endpoint \<Rightarrow> conn \<Rightarrow> swarm_map \<Rightarrow> conn \<times> swarm_map" where
  "handle_connection srv order now remote c swarms =
     (case io_bind (read_line kMaxHeaderBytes) (\<lambda>header. io_lift (parse_tracker_request header)) c of
        (Inl _, c) \<Rightarrow> (snd (write_all (''ERROR bad_request'' @ [nl]) c), swarms)
      | (Inr request, c) \<Rightarrow>
          if \<not> secure_token_equal (ts_token srv) (tr_token request)
            then (or_bad_request (write_all (''ERROR unauthorized'' @ [nl])) c, swarms)
          else if tr_kind request = Announce then
            let (accepted, swarms) = announce_locked srv now remote request swarms
            in (or_bad_request (write_all ((if \<not> accepted then ''ERROR capacity'' else ''OK'') @ [nl])) c, swarms)
          else
            let (peers, swarms) = peers_locked srv order now request swarms
            in (or_bad_request (write_peers peers) c, swarms))"

text \<open>\<^verbatim>\<open>send_tracker_error\<close>, for a connection that is refused before it is queued.\<close>

definition send_tracker_error :: "string \<Rightarrow> conn \<Rightarrow> conn" where
  "send_tracker_error code c = snd (write_all (''ERROR '' @ code @ [nl]) c)"

section \<open>The registry's invariant\<close>

text \<open>The abstract registry: the record of a peer in a swarm.\<close>

definition registered :: "swarm_map \<Rightarrow> string \<Rightarrow> string \<Rightarrow> peer_record option" where
  "registered swarms swarm_id peer_id =
     (case map_of swarms swarm_id of None \<Rightarrow> None | Some peers \<Rightarrow> map_of peers peer_id)"

definition good_peer :: "discovered_peer \<Rightarrow> bool" where
  "good_peer p \<longleftrightarrow> safe_atom (dp_peer_id p) \<and> port (dp_endpoint p) \<noteq> 0 \<and> sorted_wrt (<) (dp_chunks p) \<and>
     (dp_has_all_chunks p \<longrightarrow> dp_chunks p = [])"

definition swarm_ok :: "tracker_server \<Rightarrow> peer_map \<Rightarrow> bool" where
  "swarm_ok srv peers \<longleftrightarrow>
     distinct (map fst peers) \<and> length peers \<le> unat (max_peers_per_swarm (ts_limits srv)) \<and>
     (\<forall>(peer_id, r)\<in>set peers. dp_peer_id (pr_peer r) = peer_id \<and> good_peer (pr_peer r))"

definition registry_ok :: "tracker_server \<Rightarrow> swarm_map \<Rightarrow> bool" where
  "registry_ok srv swarms \<longleftrightarrow>
     distinct (map fst swarms) \<and> length swarms \<le> unat (max_swarms (ts_limits srv)) \<and>
     (\<forall>(swarm_id, peers)\<in>set swarms. peers \<noteq> [] \<and> swarm_ok srv peers)"

definition wf_server :: "tracker_server \<Rightarrow> bool" where
  "wf_server srv \<longleftrightarrow> 0 < ts_ttl srv \<and> 0 < max_swarms (ts_limits srv) \<and>
     0 < max_peers_per_swarm (ts_limits srv) \<and> 0 < max_response_peers (ts_limits srv)"

lemma tracker_server_new_wf: "tracker_server_new p token ttl addr limits = Inr srv \<Longrightarrow> wf_server srv"
  by (auto simp: tracker_server_new_def wf_server_def word_gt_0 split: if_splits)

lemma prune_peers_filter: "prune_peers ttl now peers = filter (\<lambda>(_, r). \<not> expired ttl now r) peers"
  by (induction ttl now peers rule: prune_peers.induct) auto

lemma prune_expired_filter:
  "prune_expired ttl now swarms =
     filter (\<lambda>(_, peers). peers \<noteq> []) (map (\<lambda>(swarm_id, peers). (swarm_id, prune_peers ttl now peers)) swarms)"
  by (induction ttl now swarms rule: prune_expired.induct) (auto simp: Let_def)

lemma map_of_filter_distinct:
  "distinct (map fst xs) \<Longrightarrow> map_of (filter (\<lambda>(_, v). P v) xs) k =
     (case map_of xs k of None \<Rightarrow> None | Some v \<Rightarrow> if P v then Some v else None)"
  by (induction xs) (auto split: option.splits simp: map_of_eq_None_iff image_iff)

lemma map_of_map_snd: "map_of (map (\<lambda>(k, v). (k, f v)) xs) k = map_option f (map_of xs k)"
  by (induction xs) auto

lemma distinct_fst_filter: "distinct (map fst xs) \<Longrightarrow> distinct (map fst (filter P xs))"
  by (induction xs) auto

lemma map_of_prune_expired:
  assumes "distinct (map fst swarms)"
  shows "map_of (prune_expired ttl now swarms) k =
    (case map_of swarms k of None \<Rightarrow> None
     | Some peers \<Rightarrow> if prune_peers ttl now peers = [] then None else Some (prune_peers ttl now peers))"
proof -
  have d: "distinct (map fst (map (\<lambda>(k, peers). (k, prune_peers ttl now peers)) swarms))"
    using assms by (simp add: comp_def case_prod_beta)
  show ?thesis
    unfolding prune_expired_filter map_of_filter_distinct [OF d] map_of_map_snd
    by (auto split: option.splits)
qed

lemma prune_ok:
  assumes "registry_ok srv swarms"
  shows "registry_ok srv (prune_expired ttl now swarms)"
proof -
  let ?m = "map (\<lambda>(k, peers). (k, prune_peers ttl now peers)) swarms"
  have "distinct (map fst ?m)" using assms by (simp add: registry_ok_def comp_def case_prod_beta)
  then have "distinct (map fst (prune_expired ttl now swarms))"
    unfolding prune_expired_filter by (rule distinct_fst_filter)
  moreover have "length (prune_expired ttl now swarms) \<le> length swarms"
    unfolding prune_expired_filter by (metis length_filter_le length_map)
  moreover have "swarm_ok srv (prune_peers ttl now peers)" if "swarm_ok srv peers" for peers
    using that by (auto simp: swarm_ok_def prune_peers_filter distinct_fst_filter
        intro: order_trans [OF length_filter_le])
  moreover have "\<exists>peers. (k, peers) \<in> set swarms \<and> ps = prune_peers ttl now peers \<and> ps \<noteq> []"
    if "(k, ps) \<in> set (prune_expired ttl now swarms)" for k ps
    using that by (auto simp: prune_expired_filter)
  ultimately show ?thesis using assms unfolding registry_ok_def
    by (intro conjI) (auto, blast)
qed

text \<open>Pruning removes exactly the expired records.\<close>

lemma registered_prune:
  assumes "registry_ok srv swarms"
  shows "registered (prune_expired ttl now swarms) s p =
    (case registered swarms s p of None \<Rightarrow> None | Some r \<Rightarrow> if expired ttl now r then None else Some r)"
proof -
  have d: "distinct (map fst swarms)" using assms by (simp add: registry_ok_def)
  show ?thesis
  proof (cases "map_of swarms s")
    case None
    with d show ?thesis by (simp add: registered_def map_of_prune_expired)
  next
    case (Some peers)
    then have "(s, peers) \<in> set swarms" by (rule map_of_SomeD)
    then have dp: "distinct (map fst peers)" using assms by (auto simp: registry_ok_def swarm_ok_def)
    have inner: "map_of (prune_peers ttl now peers) p =
        (case map_of peers p of None \<Rightarrow> None | Some r \<Rightarrow> if expired ttl now r then None else Some r)"
      unfolding prune_peers_filter map_of_filter_distinct [OF dp] by (auto split: option.splits)
    show ?thesis
    proof (cases "prune_peers ttl now peers = []")
      case True
      with inner have "(case map_of peers p of None \<Rightarrow> None | Some r \<Rightarrow> if expired ttl now r then None else Some r) = None"
        by (metis map_of.simps(1))
      with True Some d show ?thesis by (simp add: registered_def map_of_prune_expired)
    next
      case False
      with Some d inner show ?thesis by (simp add: registered_def map_of_prune_expired)
    qed
  qed
qed

lemma length_update: "length (AList.update k v xs) = length xs + (if map_of xs k = None then 1 else 0)"
  by (induction xs) (auto split: option.splits)

lemma set_update: "set (AList.update k v xs) \<subseteq> insert (k, v) (set xs)"
  by (induction xs) auto

lemma swarm_ok_update:
  assumes "swarm_ok srv peers" and "good_peer (pr_peer r)" and "dp_peer_id (pr_peer r) = k"
    and "map_of peers k \<noteq> None \<or> length peers < unat (max_peers_per_swarm (ts_limits srv))"
  shows "swarm_ok srv (AList.update k r peers) \<and> AList.update k r peers \<noteq> []"
proof -
  have "length (AList.update k r peers) \<le> unat (max_peers_per_swarm (ts_limits srv))"
    using assms(1,4) by (auto simp: length_update swarm_ok_def)
  moreover have "AList.update k r peers \<noteq> []" by (cases peers) auto
  ultimately show ?thesis
    using assms set_update [of k r peers] by (auto simp: swarm_ok_def distinct_update)
qed

definition with_swarm :: "tracker_server \<Rightarrow> string \<Rightarrow> swarm_map \<Rightarrow> swarm_map" where
  "with_swarm srv s swarms =
     (if map_of swarms s = None \<and> length swarms < unat (max_swarms (ts_limits srv))
      then swarms @ [(s, [])] else swarms)"

lemma announce_locked_alt:
  "announce_locked srv now remote request swarms =
     (let swarms = with_swarm srv (tr_swarm_id request) (prune_expired (ts_ttl srv) now swarms)
      in case map_of swarms (tr_swarm_id request) of
           None \<Rightarrow> (False, swarms)
         | Some peers \<Rightarrow>
             if map_of peers (tr_peer_id request) \<noteq> None
               \<or> length peers < unat (max_peers_per_swarm (ts_limits srv))
             then (True, AList.update (tr_swarm_id request)
                     (AList.update (tr_peer_id request) (request_record request remote now) peers) swarms)
             else (False, swarms))"
  by (simp add: announce_locked_def with_swarm_def Let_def)

lemma map_of_with_swarm:
  "map_of (with_swarm srv s swarms) k =
     (if k = s \<and> map_of swarms s = None \<and> length swarms < unat (max_swarms (ts_limits srv)) then Some []
      else map_of swarms k)"
  by (auto simp: with_swarm_def map_add_def split: option.splits)

text \<open>Replacing the entry of one swarm.\<close>

lemma registry_ok_replace:
  assumes mid: "distinct (map fst mid)" "length mid \<le> unat (max_swarms (ts_limits srv))"
      "\<forall>(k, ps)\<in>set mid. k \<noteq> s \<longrightarrow> ps \<noteq> [] \<and> swarm_ok srv ps"
    and "map_of mid s \<noteq> None" and new: "swarm_ok srv ps \<and> ps \<noteq> []"
  shows "registry_ok srv (AList.update s ps mid)"
proof -
  let ?m = "AList.update s ps mid"
  have len: "length ?m = length mid" using assms(4) by (simp add: length_update)
  have "qs \<noteq> [] \<and> swarm_ok srv qs" if "(k, qs) \<in> set ?m" for k qs
  proof (cases "k = s")
    case True
    have "map_of ?m k = Some qs" using that mid(1) by (simp add: distinct_update)
    with True have "qs = ps" by (simp add: update_conv')
    with new show ?thesis by simp
  next
    case False
    with that have "(k, qs) \<in> set mid" using set_update [of s ps mid] by auto
    with mid(3) False show ?thesis by auto
  qed
  with mid len show ?thesis by (auto simp: registry_ok_def distinct_update)
qed

lemma announce_ok:
  assumes "wf_server srv" and "registry_ok srv swarms" and "good_peer (pr_peer (request_record request remote now))"
    and "announce_locked srv now remote request swarms = (accepted, swarms')"
  shows "registry_ok srv swarms'"
proof -
  let ?s = "tr_swarm_id request" and ?r = "request_record request remote now"
  define old where "old = prune_expired (ts_ttl srv) now swarms"
  define mid where "mid = with_swarm srv ?s old"
  have ok: "registry_ok srv old" unfolding old_def using assms(2) by (rule prune_ok)
  have pos: "0 < unat (max_peers_per_swarm (ts_limits srv))"
    using assms(1) by (simp add: wf_server_def word_less_nat_alt)
  note run = assms(4) [unfolded announce_locked_alt Let_def old_def [symmetric] mid_def [symmetric]]
  have mid: "distinct (map fst mid)" "length mid \<le> unat (max_swarms (ts_limits srv))"
    "\<forall>(k, ps)\<in>set mid. k \<noteq> ?s \<longrightarrow> ps \<noteq> [] \<and> swarm_ok srv ps"
    using ok by (auto simp: mid_def with_swarm_def registry_ok_def map_of_eq_None_iff)
  show ?thesis
  proof (cases "map_of mid ?s")
    case None
    then have "mid = old" by (auto simp: mid_def with_swarm_def split: if_splits)
    with run None ok show ?thesis by auto
  next
    case (Some peers)
    then have "peers = [] \<or> map_of old ?s = Some peers" by (auto simp: mid_def map_of_with_swarm split: if_splits)
    then have peers: "swarm_ok srv peers" using ok by (auto simp: swarm_ok_def registry_ok_def dest: map_of_SomeD)
    show ?thesis
    proof (cases "map_of peers (tr_peer_id request) \<noteq> None \<or> length peers < unat (max_peers_per_swarm (ts_limits srv))")
      case True
      have "swarm_ok srv (AList.update (tr_peer_id request) ?r peers) \<and> AList.update (tr_peer_id request) ?r peers \<noteq> []"
        using True assms(3) peers by (intro swarm_ok_update) (auto simp: request_record_def)
      with registry_ok_replace [OF mid] run Some True show ?thesis by auto
    next
      case False
      then have "peers \<noteq> []" using pos by auto
      then have "map_of old ?s = Some peers"
        using Some by (auto simp: mid_def map_of_with_swarm split: if_splits)
      then have "mid = old" by (simp add: mid_def with_swarm_def)
      with run Some False ok show ?thesis by auto
    qed
  qed
qed

section \<open>What the registry answers\<close>

lemma parse_request_good:
  assumes "parse_tracker_request h = Inr request" and "tr_kind request = Announce"
  shows "good_peer (pr_peer (request_record request remote now)) \<and> safe_atom (tr_swarm_id request)"
  using parse_tracker_request_fields [OF assms(1)] assms(2) by (simp add: good_peer_def request_record_def)

text \<open>The registry after an announcement: the live records, and the new one where it was accepted.\<close>

definition live :: "int \<Rightarrow> int \<Rightarrow> swarm_map \<Rightarrow> string \<Rightarrow> string \<Rightarrow> peer_record option" where
  "live ttl now swarms s p =
     (case registered swarms s p of None \<Rightarrow> None | Some r \<Rightarrow> if expired ttl now r then None else Some r)"

lemma announce_registered:
  assumes "wf_server srv" and "registry_ok srv swarms"
    and "announce_locked srv now remote request swarms = (accepted, swarms')"
  shows "registered swarms' s p =
    (if accepted \<and> s = tr_swarm_id request \<and> p = tr_peer_id request
     then Some (request_record request remote now) else live (ts_ttl srv) now swarms s p)"
proof -
  let ?s = "tr_swarm_id request" and ?r = "request_record request remote now"
  define old where "old = prune_expired (ts_ttl srv) now swarms"
  define mid where "mid = with_swarm srv ?s old"
  have live: "live (ts_ttl srv) now swarms s p = registered old s p"
    by (simp add: live_def old_def registered_prune [OF assms(2)])
  have mid: "registered mid s p = registered old s p"
    by (auto simp: registered_def mid_def map_of_with_swarm)
  note run = assms(3) [unfolded announce_locked_alt Let_def old_def [symmetric] mid_def [symmetric]]
  show ?thesis
  proof (cases "accepted")
    case False
    with run have "swarms' = mid" by (auto split: option.splits if_splits)
    with False mid live show ?thesis by simp
  next
    case True
    with run obtain peers where peers: "map_of mid ?s = Some peers"
      "swarms' = AList.update ?s (AList.update (tr_peer_id request) ?r peers) mid"
      by (auto split: option.splits if_splits)
    have upd: "map_of swarms' s = (if s = ?s then Some (AList.update (tr_peer_id request) ?r peers) else map_of mid s)"
      by (simp add: peers(2) update_conv')
    show ?thesis
    proof (cases "s = ?s")
      case True
      with upd peers(1) mid live \<open>accepted\<close> show ?thesis by (simp add: registered_def update_conv')
    next
      case False
      with upd mid live \<open>accepted\<close> show ?thesis by (simp add: registered_def)
    qed
  qed
qed

lemma collect_peers_take:
  "length acc < n \<Longrightarrow> collect_peers n peers acc = acc @ map (\<lambda>(_, r). pr_peer r) (take (n - length acc) peers)"
proof (induction n peers acc rule: collect_peers.induct)
  case (2 n k r rest acc)
  then have "n - length acc = Suc (n - Suc (length acc))" by simp
  with 2 show ?case by (auto simp: Let_def)
qed simp

lemma peers_locked_result:
  assumes "wf_server srv" and "registry_ok srv swarms" and order: "\<And>ps. mset (order ps) = mset ps"
    and run: "peers_locked srv order now request swarms = (peers, swarms')"
  shows "distinct (map dp_peer_id peers) \<and>
    length peers \<le> unat (max_response_peers (ts_limits srv)) \<and>
    (\<forall>peer\<in>set peers. \<exists>r. live (ts_ttl srv) now swarms (tr_swarm_id request) (dp_peer_id peer) = Some r \<and>
       pr_peer r = peer) \<and>
    (length peers < unat (max_response_peers (ts_limits srv)) \<longrightarrow>
       (\<forall>p r. live (ts_ttl srv) now swarms (tr_swarm_id request) p = Some r \<longrightarrow> pr_peer r \<in> set peers))"
proof -
  let ?s = "tr_swarm_id request" and ?n = "unat (max_response_peers (ts_limits srv))"
  define old where "old = prune_expired (ts_ttl srv) now swarms"
  have ok: "registry_ok srv old" unfolding old_def using assms(2) by (rule prune_ok)
  have live: "live (ts_ttl srv) now swarms s p = registered old s p" for s p
    by (simp add: live_def old_def registered_prune [OF assms(2)])
  have n: "0 < ?n" using assms(1) by (simp add: wf_server_def word_less_nat_alt)
  note run' = run [unfolded peers_locked_def Let_def old_def [symmetric]]
  show ?thesis
  proof (cases "map_of old ?s")
    case None
    with run' n show ?thesis by (auto simp: live registered_def)
  next
    case (Some ps)
    have ps: "swarm_ok srv ps" using Some ok by (auto simp: registry_ok_def dest: map_of_SomeD)
    define os where "os = order ps"
    have os: "set os = set ps" "distinct (map fst os)" "length os = length ps"
    proof -
      have m: "mset os = mset ps" by (simp add: os_def order)
      then show "set os = set ps" by (rule mset_eq_setD)
      from m have "mset (map fst os) = mset (map fst ps)" by simp
      then show "distinct (map fst os)" using ps unfolding swarm_ok_def by (metis mset_eq_imp_distinct_iff)
      from m show "length os = length ps" by (rule mset_eq_length)
    qed
    have key: "dp_peer_id (pr_peer r) = k" if "(k, r) \<in> set os" for k r
      using that ps os(1) by (auto simp: swarm_ok_def)
    have look: "registered old ?s k = Some r" if "(k, r) \<in> set os" for k r
      using that ps os(1) Some by (auto simp: registered_def swarm_ok_def)
    have res: "peers = map (\<lambda>(_, r). pr_peer r) (take ?n os)"
      using run' Some n by (simp add: os_def collect_peers_take)
    have ids: "map dp_peer_id peers = map fst (take ?n os)"
      unfolding res using key by (auto dest: in_set_takeD)
    have "distinct (map dp_peer_id peers)" unfolding ids using os(2) by (simp add: take_map [symmetric])
    moreover have "length peers \<le> ?n" by (simp add: res)
    moreover have "\<exists>r. live (ts_ttl srv) now swarms ?s (dp_peer_id peer) = Some r \<and> pr_peer r = peer"
      if "peer \<in> set peers" for peer
    proof -
      from that obtain k r where kr: "(k, r) \<in> set os" "peer = pr_peer r"
        by (auto simp: res dest: in_set_takeD)
      with key look show ?thesis by (auto simp: live)
    qed
    moreover have "pr_peer r \<in> set peers"
      if "length peers < ?n" "live (ts_ttl srv) now swarms ?s p = Some r" for p r
    proof -
      from that(1) have "take ?n os = os" by (auto simp: res)
      moreover from that(2) Some have "(p, r) \<in> set os"
        by (auto simp: live registered_def os(1) dest: map_of_SomeD)
      ultimately show ?thesis by (force simp: res)
    qed
    ultimately show ?thesis by blast
  qed
qed

section \<open>Properties of the server\<close>

text \<open>
  All registries that a server can have: it starts empty, and each connection, whatever arrives
  on it and whenever, is handled against the registry as it is then. The critical sections of
  different workers exclude one another, so they run in some order.
\<close>

inductive tracker_reach :: "tracker_server \<Rightarrow> swarm_map \<Rightarrow> bool" for srv where
  Tracker_init: "tracker_reach srv []"
| Tracker_connection: "tracker_reach srv swarms \<Longrightarrow>
    handle_connection srv order now remote c swarms = (c', swarms') \<Longrightarrow> tracker_reach srv swarms'"

inductive_cases tracker_reach_cases: "tracker_reach srv swarms"

text \<open>A connection either leaves the registry alone or runs one of the two critical sections.\<close>

lemma handle_connection_cases:
  assumes "handle_connection srv order now remote c swarms = (c', swarms')"
  obtains (unread) e c1 where
      "io_bind (read_line kMaxHeaderBytes) (\<lambda>header. io_lift (parse_tracker_request header)) c = (Inl e, c1)"
      "swarms' = swarms" "c' = snd (write_all (''ERROR bad_request'' @ [nl]) c1)"
  | (unauthorized) h c1 request where "read_line kMaxHeaderBytes c = (Inr h, c1)"
      "parse_tracker_request h = Inr request" "\<not> secure_token_equal (ts_token srv) (tr_token request)"
      "swarms' = swarms" "c' = or_bad_request (write_all (''ERROR unauthorized'' @ [nl])) c1"
  | (announce) h c1 request accepted where "read_line kMaxHeaderBytes c = (Inr h, c1)"
      "parse_tracker_request h = Inr request" "secure_token_equal (ts_token srv) (tr_token request)"
      "tr_kind request = Announce" "announce_locked srv now remote request swarms = (accepted, swarms')"
      "c' = or_bad_request (write_all ((if \<not> accepted then ''ERROR capacity'' else ''OK'') @ [nl])) c1"
  | (query) h c1 request peers where "read_line kMaxHeaderBytes c = (Inr h, c1)"
      "parse_tracker_request h = Inr request" "secure_token_equal (ts_token srv) (tr_token request)"
      "tr_kind request = Peers" "peers_locked srv order now request swarms = (peers, swarms')"
      "c' = or_bad_request (write_peers peers) c1"
proof -
  let ?m = "io_bind (read_line kMaxHeaderBytes) (\<lambda>header. io_lift (parse_tracker_request header))"
  obtain x c1 where x: "?m c = (x, c1)" by fastforce
  note run = assms [unfolded handle_connection_def x prod.case]
  show ?thesis
  proof (cases x)
    case (Inl e)
    with run have "c' = snd (write_all (''ERROR bad_request'' @ [nl]) c1)" "swarms' = swarms" by simp_all
    with x Inl show ?thesis by (intro unread [of e c1]) simp_all
  next
    case (Inr request)
    with x obtain h where h: "read_line kMaxHeaderBytes c = (Inr h, c1)" "parse_tracker_request h = Inr request"
      by (auto simp: io_bind_def io_lift_def split: prod.splits sum.splits)
    note run' = run [unfolded Inr sum.case]
    show ?thesis
    proof (cases "secure_token_equal (ts_token srv) (tr_token request)")
      case False
      with run' have "swarms' = swarms" "c' = or_bad_request (write_all (''ERROR unauthorized'' @ [nl])) c1"
        by simp_all
      with h False show ?thesis by (intro unauthorized [of h c1 request])
    next
      case True
      show ?thesis
      proof (cases "tr_kind request")
        case Announce
        obtain accepted s1 where a: "announce_locked srv now remote request swarms = (accepted, s1)" by fastforce
        with run' True Announce have "swarms' = s1"
          "c' = or_bad_request (write_all ((if \<not> accepted then ''ERROR capacity'' else ''OK'') @ [nl])) c1"
          by simp_all
        with h True Announce a show ?thesis by (intro announce [of h c1 request accepted]) simp_all
      next
        case Peers
        obtain peers s1 where q: "peers_locked srv order now request swarms = (peers, s1)" by fastforce
        with run' True Peers have "swarms' = s1" "c' = or_bad_request (write_peers peers) c1" by simp_all
        with h True Peers q show ?thesis by (intro query [of h c1 request peers]) simp_all
      qed
    qed
  qed
qed

lemma peers_locked_swarms:
  "peers_locked srv order now request swarms = (peers, swarms') \<Longrightarrow> swarms' = prune_expired (ts_ttl srv) now swarms"
  by (simp add: peers_locked_def Let_def)

lemma handle_connection_ok:
  assumes "handle_connection srv order now remote c swarms = (c', swarms')"
    and "wf_server srv" and "registry_ok srv swarms"
  shows "registry_ok srv swarms'"
  using assms(1)
proof (cases rule: handle_connection_cases)
  case (announce h c1 request accepted)
  then show ?thesis using announce_ok [OF assms(2,3)] parse_request_good by blast
next
  case (query h c1 request peers)
  then show ?thesis using peers_locked_swarms prune_ok [OF assms(3)] by metis
qed (use assms(3) in simp_all)

lemma tracker_reach_ok:
  assumes "tracker_reach srv swarms" and "wf_server srv"
  shows "registry_ok srv swarms"
  using assms(1)
proof induction
  case Tracker_init
  then show ?case by (simp add: registry_ok_def)
next
  case (Tracker_connection swarms order now remote c c' swarms')
  then show ?case using handle_connection_ok assms(2) by blast
qed

text \<open>
  C21. The registry stays within its limits and well formed (\<^verbatim>\<open>handle_connection\<close>): in every state
  a server can reach, whatever its clients send, there are at most \<^verbatim>\<open>max_swarms\<close> swarms and
  \<^verbatim>\<open>max_peers_per_swarm\<close> peers in each, no swarm is kept without peers, no key occurs twice, and
  every record is filed under its own peer identifier, a safe atom, with a port other than 0 and
  a strictly increasing chunk list.
\<close>

theorem tracker_registry_invariant:
  assumes "tracker_server_new p token ttl addr limits = Inr srv" and "tracker_reach srv swarms"
  shows "length swarms \<le> unat (max_swarms limits) \<and> distinct (map fst swarms) \<and>
    (\<forall>(swarm_id, peers)\<in>set swarms. peers \<noteq> [] \<and> length peers \<le> unat (max_peers_per_swarm limits) \<and>
       distinct (map fst peers) \<and>
       (\<forall>(peer_id, r)\<in>set peers. dp_peer_id (pr_peer r) = peer_id \<and> good_peer (pr_peer r)))"
proof -
  have "ts_limits srv = limits"
    using assms(1) by (auto simp: tracker_server_new_def split: if_splits)
  with tracker_reach_ok [OF assms(2) tracker_server_new_wf [OF assms(1)]] show ?thesis
    by (auto simp: registry_ok_def swarm_ok_def)
qed

text \<open>
  Announcing (\<^verbatim>\<open>handle_connection\<close>, \<^verbatim>\<open>prune_expired_locked\<close>): an authorised announcement leaves
  in the registry exactly the records that are not older than the time to live, and the new
  record, with the address the connection came from, if it was accepted. A peer that is still
  registered is always accepted; a new one is refused only if its swarm is full, or is unknown
  while the registry is full.
\<close>

theorem tracker_announce_effect:
  assumes "tracker_server_new p token ttl addr limits = Inr srv" and "tracker_reach srv swarms"
    and "announce_locked srv now remote request swarms = (accepted, swarms')"
  shows "registered swarms' s q =
      (if accepted \<and> s = tr_swarm_id request \<and> q = tr_peer_id request
       then Some (request_record request remote now) else live ttl now swarms s q) \<and>
    (live ttl now swarms (tr_swarm_id request) (tr_peer_id request) \<noteq> None \<longrightarrow> accepted) \<and>
    (\<not> accepted \<longrightarrow>
       length (prune_expired ttl now swarms) = unat (max_swarms limits) \<and>
         map_of (prune_expired ttl now swarms) (tr_swarm_id request) = None \<or>
       (\<exists>peers. map_of (prune_expired ttl now swarms) (tr_swarm_id request) = Some peers \<and>
          length peers = unat (max_peers_per_swarm limits)))"
proof -
  have srv: "ts_limits srv = limits" "ts_ttl srv = ttl" "wf_server srv"
    using assms(1) tracker_server_new_wf [OF assms(1)] by (auto simp: tracker_server_new_def split: if_splits)
  have ok: "registry_ok srv swarms" using tracker_reach_ok [OF assms(2) srv(3)] .
  define old where "old = prune_expired ttl now swarms"
  have old: "registry_ok srv old" unfolding old_def using ok by (rule prune_ok)
  have live: "live ttl now swarms s q = registered old s q" for s q
    by (simp add: live_def old_def registered_prune [OF ok])
  note run = assms(3) [unfolded announce_locked_alt Let_def srv old_def [symmetric]]
  have pos: "0 < unat (max_peers_per_swarm limits)"
    using srv by (simp add: wf_server_def word_less_nat_alt)
  have "registered old (tr_swarm_id request) (tr_peer_id request) \<noteq> None \<longrightarrow> accepted"
    using run by (auto simp: registered_def map_of_with_swarm srv split: option.splits if_splits)
  moreover have "\<not> accepted \<longrightarrow>
       length old = unat (max_swarms limits) \<and> map_of old (tr_swarm_id request) = None \<or>
       (\<exists>peers. map_of old (tr_swarm_id request) = Some peers \<and> length peers = unat (max_peers_per_swarm limits))"
  proof
    assume no: "\<not> accepted"
    show "length old = unat (max_swarms limits) \<and> map_of old (tr_swarm_id request) = None \<or>
       (\<exists>peers. map_of old (tr_swarm_id request) = Some peers \<and> length peers = unat (max_peers_per_swarm limits))"
    proof (cases "map_of old (tr_swarm_id request)")
      case None
      with run no pos old show ?thesis
        by (auto simp: map_of_with_swarm srv registry_ok_def split: if_splits)
    next
      case (Some peers)
      then have "swarm_ok srv peers" using old by (auto simp: registry_ok_def dest: map_of_SomeD)
      with Some run no show ?thesis
        by (auto simp: map_of_with_swarm srv swarm_ok_def split: if_splits)
    qed
  qed
  ultimately show ?thesis
    using announce_registered [OF srv(3) ok assms(3), of s q] by (simp add: live srv old_def)
qed

text \<open>
  Asking for peers (\<^verbatim>\<open>handle_connection\<close>): whatever order the unordered map is iterated in, the
  answer has at most \<^verbatim>\<open>max_response_peers\<close> entries, all for different peers, each the
  current record of a peer of that swarm that announced itself within the time to live; and
  unless the answer is full, no such peer is left out. The query drops the expired records
  and nothing else.
\<close>

theorem tracker_peers_effect:
  assumes "tracker_server_new p token ttl addr limits = Inr srv" and "tracker_reach srv swarms"
    and "\<And>ps. mset (order ps) = mset ps"
    and "peers_locked srv order now request swarms = (peers, swarms')"
  shows "length peers \<le> unat (max_response_peers limits) \<and> distinct (map dp_peer_id peers) \<and>
    (\<forall>peer\<in>set peers. \<exists>r. live ttl now swarms (tr_swarm_id request) (dp_peer_id peer) = Some r \<and> pr_peer r = peer) \<and>
    (length peers < unat (max_response_peers limits) \<longrightarrow>
       (\<forall>q r. live ttl now swarms (tr_swarm_id request) q = Some r \<longrightarrow> pr_peer r \<in> set peers)) \<and>
    (\<forall>s q. registered swarms' s q = live ttl now swarms s q)"
proof -
  have srv: "ts_limits srv = limits" "ts_ttl srv = ttl" "wf_server srv"
    using assms(1) tracker_server_new_wf [OF assms(1)] by (auto simp: tracker_server_new_def split: if_splits)
  have ok: "registry_ok srv swarms" using tracker_reach_ok [OF assms(2) srv(3)] .
  have "registered swarms' s q = live ttl now swarms s q" for s q
    using peers_locked_swarms [OF assms(4)] by (simp add: live_def srv registered_prune [OF ok])
  then show ?thesis
    using peers_locked_result [OF srv(3) ok assms(3,4)] by (simp add: srv)
qed

lemma write_all_ok:
  assumes "\<And>m. Send_failed m \<notin> set (sending c)"
  shows "\<exists>es. write_all d c = (Inr (), c\<lparr>sending := es, sent := sent c @ d\<rparr>) \<and> set es \<subseteq> set (sending c)"
proof -
  have sub: "set es' \<subseteq> set es" if "write_loop es d out = (r, es', out')" for es d out r es' out'
    using that by (induction es d out arbitrary: r rule: write_loop.induct)
      (auto split: if_splits send_event.splits)
  obtain r es out where w: "write_loop (sending c) d (sent c) = (r, es, out)" by (metis prod_cases3)
  with assms write_loop_ok [of "sending c" d "sent c"] write_loop_prefix [OF w] sub [OF w] show ?thesis
    by (auto simp: write_all_def)
qed

lemma accepted_token:
  "length expected < 2 ^ 64 \<Longrightarrow> parse_tracker_request h = Inr request \<Longrightarrow>
     secure_token_equal expected (tr_token request) \<Longrightarrow> tr_token request = expected"
  using parse_tracker_request_fields [of h request] secure_token_equal_iff [of expected "tr_token request"]
  by (simp add: safe_atom_def)

text \<open>
  C22. Only holders of the token are served (\<^verbatim>\<open>handle_connection\<close>): a connection that does not deliver
  a well-formed request with exactly the server's token changes nothing in the registry and gets
  nothing but one of two fixed error lines.
\<close>

theorem tracker_authorization:
  assumes "handle_connection srv order now remote c swarms = (c', swarms')"
    and "\<And>m. Send_failed m \<notin> set (sending c)"
    and "\<nexists>h c1 request. read_line kMaxHeaderBytes c = (Inr h, c1) \<and> parse_tracker_request h = Inr request \<and>
      tr_token request = ts_token srv"
    and "length (ts_token srv) < 2 ^ 64"
  shows "swarms' = swarms \<and>
    (sent c' = sent c @ ''ERROR unauthorized'' @ [nl] \<or> sent c' = sent c @ ''ERROR bad_request'' @ [nl])"
  using assms(1)
proof (cases rule: handle_connection_cases)
  case (unread e c1)
  obtain r c2 where rl: "read_line kMaxHeaderBytes c = (r, c2)" by fastforce
  with read_line_frame [OF rl] have f: "sent c2 = sent c" "sending c2 = sending c" by auto
  have "c1 = c2" using unread(1) rl by (auto simp: io_bind_def io_lift_def split: sum.splits)
  with write_all_ok [of c1 "''ERROR bad_request'' @ [nl]"] assms(2) f unread(2,3) show ?thesis by auto
next
  case (unauthorized h c1 request)
  with read_line_frame have f: "sent c1 = sent c" "sending c1 = sending c" by fastforce+
  obtain es where "write_all (''ERROR unauthorized'' @ [nl]) c1 =
      (Inr (), c1\<lparr>sending := es, sent := sent c1 @ ''ERROR unauthorized'' @ [nl]\<rparr>)"
    using write_all_ok [of c1 "''ERROR unauthorized'' @ [nl]"] assms(2) f by auto
  then have "sent c' = sent c @ ''ERROR unauthorized'' @ [nl]"
    using unauthorized(5) f by (simp add: or_bad_request_def)
  with unauthorized(4) show ?thesis by simp
next
  case (announce h c1 request accepted)
  with assms(3) accepted_token [OF assms(4)] show ?thesis by blast
next
  case (query h c1 request peers)
  with assms(3) accepted_token [OF assms(4)] show ?thesis by blast
qed

section \<open>Client and server understand each other\<close>

interpretation sp: field_splitter split_response
proof
  show "split_response s = Inr fs \<longleftrightarrow>
      length s \<le> kMaxHeaderBytes \<and> fs \<noteq> [] \<and> list_all wf_field fs \<and> s = join_with CHR '' '' fs" for s fs
    using split_loop_Inr [of "[]" _ s "[]" fs] join_with_wf_nonempty [of fs]
    by (auto simp: split_response_def)
qed

text \<open>
  A peer record that can be sent: a host that is a safe atom, and lines within the header limit,
  both the one that is sent and the one the client forms to check it.
\<close>

definition deliverable :: "discovered_peer \<Rightarrow> bool" where
  "deliverable peer \<longleftrightarrow> safe_atom (host (dp_endpoint peer)) \<and>
     (\<forall>t. encode_chunk_list (dp_chunks peer) (dp_has_all_chunks peer) = Inr t \<longrightarrow>
        length (peer_line peer t) \<le> kMaxHeaderBytes \<and>
        length (''ANNOUNCE check-token check-swarm '' @ dp_peer_id peer @ '' '' @
          dec (unat (port (dp_endpoint peer))) @ '' '' @ t) \<le> kMaxHeaderBytes)"

lemma check_atoms [simp]: "safe_atom ''check-token''" "safe_atom ''check-swarm''"
  by (simp_all add: safe_atom_def atom_char_def)

lemma parse_peer_line:
  assumes "good_peer peer" and "deliverable peer"
    and t: "encode_chunk_list (dp_chunks peer) (dp_has_all_chunks peer) = Inr t"
  shows "parse_peer_response (peer_line peer t) = Inr peer"
proof -
  let ?p = "dec (unat (port (dp_endpoint peer)))" and ?h = "host (dp_endpoint peer)"
  have atoms: "safe_atom (dp_peer_id peer)" "safe_atom ?h" "port (dp_endpoint peer) \<noteq> 0"
    using assms(1,2) by (auto simp: good_peer_def deliverable_def)
  have line: "peer_line peer t = join_with CHR '' '' [''PEER'', dp_peer_id peer, ?h, ?p, t]"
    by (simp add: peer_line_def)
  have "split_response (peer_line peer t) = Inr [''PEER'', dp_peer_id peer, ?h, ?p, t]"
    unfolding line
    by (rule sp.split_join) (use assms(2) t atoms encoded_wf [OF t] in
        \<open>auto simp: safe_atom_wf deliverable_def peer_line_def\<close>)
  moreover have "parse_tracker_request (''ANNOUNCE check-token check-swarm '' @ dp_peer_id peer @ '' '' @ ?p @ '' '' @ t) =
      Inr \<lparr>tr_kind = Announce, tr_token = ''check-token'', tr_swarm_id = ''check-swarm'',
        tr_peer_id = dp_peer_id peer, tr_listen_port = port (dp_endpoint peer),
        tr_has_all_chunks = dp_has_all_chunks peer,
        tr_chunks = (if dp_has_all_chunks peer then [] else dp_chunks peer)\<rparr>"
    using parse_announce [of "''check-token''" "''check-swarm''" "dp_peer_id peer" "port (dp_endpoint peer)", OF _ _ _ _ t]
      assms(2) t atoms by (simp add: deliverable_def)
  moreover have "\<exists>r. parse_tracker_request (''PEERS check-token '' @ ?h) = Inr r"
    using parse_peers [of "''check-token''" ?h] atoms by simp
  moreover have "(if dp_has_all_chunks peer then [] else dp_chunks peer) = dp_chunks peer"
    using assms(1) by (simp add: good_peer_def)
  ultimately show ?thesis by (auto simp: parse_peer_response_def)
qed

lemma wf_field_printable: "wf_field f \<Longrightarrow> list_all printable f"
  by (auto simp: wf_field_def list_all_iff graphic_def printable_def)

lemma join_with_printable: "list_all wf_field fs \<Longrightarrow> list_all printable (join_with CHR '' '' fs)"
  unfolding list_all_iff [of printable]
  by (auto dest!: join_with_chars simp: graphic_def printable_def)

lemma peer_line_facts:
  assumes "good_peer peer" and "deliverable peer"
    and t: "encode_chunk_list (dp_chunks peer) (dp_has_all_chunks peer) = Inr t"
  shows "list_all printable (peer_line peer t) \<and> length (peer_line peer t) \<le> kMaxHeaderBytes \<and>
    peer_line peer t \<noteq> ''END'' \<and> \<not> starts_with (peer_line peer t) ''ERROR ''"
proof -
  let ?fs = "[''PEER'', dp_peer_id peer, host (dp_endpoint peer), dec (unat (port (dp_endpoint peer))), t]"
  have line: "peer_line peer t = join_with CHR '' '' ?fs" by (simp add: peer_line_def)
  have "list_all wf_field ?fs"
    using assms encoded_wf [OF t] by (auto simp: safe_atom_wf good_peer_def deliverable_def)
  then have "list_all printable (peer_line peer t)" unfolding line by (rule join_with_printable)
  moreover have "length (peer_line peer t) \<le> kMaxHeaderBytes" using assms(2) t by (simp add: deliverable_def)
  ultimately show ?thesis by (simp add: peer_line_def starts_with_def)
qed

text \<open>The reply as one byte string.\<close>

definition reply_text :: "discovered_peer list \<Rightarrow> string" where
  "reply_text peers =
     concat (map (\<lambda>peer. peer_line peer (case encode_chunk_list (dp_chunks peer) (dp_has_all_chunks peer) of
       Inr t \<Rightarrow> t | Inl _ \<Rightarrow> []) @ [nl]) peers) @ ''END'' @ [nl]"

lemma good_encodes: "good_peer peer \<Longrightarrow> \<exists>t. encode_chunk_list (dp_chunks peer) (dp_has_all_chunks peer) = Inr t"
  by (auto simp: encode_chunk_list_Inr good_peer_def)

lemma write_peers_sent:
  assumes "\<And>m. Send_failed m \<notin> set (sending c)" and "\<forall>peer\<in>set peers. good_peer peer"
  shows "\<exists>es. write_peers peers c = (Inr (), c\<lparr>sending := es, sent := sent c @ reply_text peers\<rparr>)"
  using assms
proof (induction peers arbitrary: c)
  case Nil
  then show ?case using write_all_ok [of c "''END'' @ [nl]"] by (auto simp: reply_text_def)
next
  case (Cons peer peers)
  obtain t where t: "encode_chunk_list (dp_chunks peer) (dp_has_all_chunks peer) = Inr t"
    using Cons.prems(2) good_encodes by auto
  let ?l = "peer_line peer t @ [nl]"
  obtain es where w: "write_all ?l c = (Inr (), c\<lparr>sending := es, sent := sent c @ ?l\<rparr>)"
    "set es \<subseteq> set (sending c)"
    using write_all_ok Cons.prems(1) by blast
  let ?c = "c\<lparr>sending := es, sent := sent c @ ?l\<rparr>"
  have "Send_failed m \<notin> set (sending ?c)" for m using w(2) Cons.prems(1) by auto
  moreover have "\<forall>peer\<in>set peers. good_peer peer" using Cons.prems(2) by simp
  ultimately obtain es' where
    "write_peers peers ?c = (Inr (), ?c\<lparr>sending := es', sent := sent ?c @ reply_text peers\<rparr>)"
    using Cons.IH [of ?c] by blast
  with w t show ?case by (auto simp: io_bind_def io_lift_def reply_text_def)
qed

lemma peers_loop_reply:
  assumes "\<forall>peer\<in>set peers. good_peer peer \<and> deliverable peer" and "0 \<le> native_handle d"
    and "pending (incoming d) = reply_text peers @ rest"
  shows "\<exists>es. peers_loop d acc = (Inr (acc @ peers), d\<lparr>incoming := es\<rparr>) \<and> pending es = rest"
  using assms
proof (induction peers arbitrary: d acc)
  case Nil
  then have "pending (incoming d) = ''END'' @ nl # rest" by (simp add: reply_text_def)
  from read_line_delivered [OF this] Nil obtain es where
    "read_line kMaxHeaderBytes d = (Inr ''END'', d\<lparr>incoming := es\<rparr>)" "pending es = rest"
    by (auto simp: printable_def kMaxHeaderBytes_def)
  then show ?case by (subst peers_loop.simps) auto
next
  case (Cons peer peers)
  then have peer: "good_peer peer" "deliverable peer" by simp_all
  then obtain t where t: "encode_chunk_list (dp_chunks peer) (dp_has_all_chunks peer) = Inr t"
    using good_encodes by blast
  note facts = peer_line_facts [OF peer t]
  have "pending (incoming d) = peer_line peer t @ nl # (reply_text peers @ rest)"
    using Cons.prems(3) t by (simp add: reply_text_def)
  from read_line_delivered [OF this] facts Cons.prems(2) obtain es where
    es: "read_line kMaxHeaderBytes d = (Inr (peer_line peer t), d\<lparr>incoming := es\<rparr>)"
      "pending es = reply_text peers @ rest" by auto
  have "\<exists>es'. peers_loop (d\<lparr>incoming := es\<rparr>) (acc @ [peer]) =
      (Inr ((acc @ [peer]) @ peers), (d\<lparr>incoming := es\<rparr>)\<lparr>incoming := es'\<rparr>) \<and> pending es' = rest"
    using Cons.prems es(2) by (intro Cons.IH) auto
  with es(1) facts parse_peer_line [OF peer t] show ?case
    by (subst peers_loop.simps) auto
qed

text \<open>The two ends of a query: the server's reply to it, and what the client makes of that reply.\<close>

lemma query_answered:
  assumes "tracker_server_new p token ttl addr limits = Inr srv" and "tracker_reach srv swarms"
    and order: "\<And>ps. mset (order ps) = mset ps" and atoms: "safe_atom token" "safe_atom swarm_id"
    and sc: "pending (incoming sc) = ''PEERS '' @ token @ '' '' @ swarm_id @ [nl]" "0 \<le> native_handle sc"
      "\<And>m. Send_failed m \<notin> set (sending sc)" "sent sc = []"
    and fits: "\<And>q r. live ttl now swarms swarm_id q = Some r \<Longrightarrow> deliverable (pr_peer r)"
    and run: "handle_connection srv order now remote sc swarms = (sc', swarms')"
    and cc: "pending (incoming cc) = sent sc'" "0 \<le> native_handle cc"
  shows "\<exists>peers cc'. peers_loop cc [] = (Inr peers, cc') \<and> distinct (map dp_peer_id peers) \<and>
    length peers \<le> unat (max_response_peers limits) \<and>
    (\<forall>peer\<in>set peers. \<exists>r. live ttl now swarms swarm_id (dp_peer_id peer) = Some r \<and> pr_peer r = peer) \<and>
    (length peers < unat (max_response_peers limits) \<longrightarrow>
       (\<forall>q r. live ttl now swarms swarm_id q = Some r \<longrightarrow> pr_peer r \<in> set peers))"
proof -
  have srv: "ts_limits srv = limits" "ts_ttl srv = ttl" "ts_token srv = token" "wf_server srv"
    using assms(1) tracker_server_new_wf [OF assms(1)] by (auto simp: tracker_server_new_def split: if_splits)
  have ok: "registry_ok srv swarms" using tracker_reach_ok [OF assms(2) srv(4)] .
  let ?h = "join_with CHR '' '' [''PEERS'', token, swarm_id]"
  let ?req = "\<lparr>tr_kind = Peers, tr_token = token, tr_swarm_id = swarm_id, tr_peer_id = [], tr_listen_port = 0,
      tr_has_all_chunks = False, tr_chunks = []\<rparr>"
  have parse: "parse_tracker_request ?h = Inr ?req" using parse_peers [OF atoms] .
  have printable: "list_all printable ?h"
    by (rule join_with_printable) (use atoms in \<open>simp add: safe_atom_wf\<close>)
  have len: "length ?h \<le> kMaxHeaderBytes" using atoms by (simp add: safe_atom_def kMaxHeaderBytes_def)
  have "pending (incoming sc) = ?h @ nl # []" using sc(1) by simp
  from read_line_delivered [OF this printable len sc(2)] obtain es where
    rl: "read_line kMaxHeaderBytes sc = (Inr ?h, sc\<lparr>incoming := es\<rparr>)" by auto
  obtain peers s1 where q: "peers_locked srv order now ?req swarms = (peers, s1)" by fastforce
  have tok: "secure_token_equal (ts_token srv) (tr_token ?req)"
    using atoms by (simp add: srv secure_token_equal_iff safe_atom_def)
  have sc': "sc' = or_bad_request (write_peers peers) (sc\<lparr>incoming := es\<rparr>)"
    using run q tok by (simp add: handle_connection_def io_bind_def rl io_lift_def parse del: join_with.simps)
  note res = peers_locked_result [OF srv(4) ok order q]
  have good: "good_peer peer" if "peer \<in> set peers" for peer
  proof -
    from that res obtain r where r: "live ttl now swarms swarm_id (dp_peer_id peer) = Some r" "pr_peer r = peer"
      by (auto simp: srv)
    then obtain ps where "map_of swarms swarm_id = Some ps" "map_of ps (dp_peer_id peer) = Some r"
      by (auto simp: live_def registered_def split: option.splits if_splits)
    then have "(swarm_id, ps) \<in> set swarms" "(dp_peer_id peer, r) \<in> set ps" by (auto dest: map_of_SomeD)
    with ok r(2) show ?thesis by (auto simp: registry_ok_def swarm_ok_def)
  qed
  have deliver: "deliverable peer" if "peer \<in> set peers" for peer
    using that res fits by (fastforce simp: srv)
  obtain es' where "write_peers peers (sc\<lparr>incoming := es\<rparr>) =
      (Inr (), sc\<lparr>incoming := es, sending := es', sent := reply_text peers\<rparr>)"
    using write_peers_sent [of "sc\<lparr>incoming := es\<rparr>" peers] sc(3,4) good by auto
  then have "sent sc' = reply_text peers" by (simp add: sc' or_bad_request_def)
  then have "pending (incoming cc) = reply_text peers @ []" using cc(1) by simp
  from peers_loop_reply [OF _ cc(2) this, of "[]"] good deliver obtain cc' where
    "peers_loop cc [] = (Inr peers, cc')" by auto
  with res show ?thesis by (auto simp: srv)
qed


lemma quiet_peers_loop [simp]: "quiet (\<lambda>c. peers_loop c discovered)"
proof -
  have "sent (snd (peers_loop c discovered)) = sent c" for c
  proof (induction c discovered rule: peers_loop.induct)
    case (1 c discovered)
    obtain r c' where rl: "read_line kMaxHeaderBytes c = (r, c')" by fastforce
    then have "sent c' = sent c" using read_line_frame [OF rl] by auto
    with 1 rl show ?case by (subst peers_loop.simps) (auto split: sum.splits)
  qed
  then show ?thesis by (simp add: quiet_def)
qed

lemma quiet_expect_ok [simp]: "quiet expect_ok"
  unfolding expect_ok_def by (intro quiet_bind) auto

text \<open>A client that is connected sends its request, and then only reads.\<close>

lemma client_peers_sends:
  assumes "parse_tracker_request (''PEERS '' @ tc_token client @ '' '' @ swarm_id) = Inr request"
    and "connect_tcp net (tc_endpoint client) (tc_timeout client) t = (Inr cc, t')" and "\<And>m. Send_failed m \<notin> set (sending cc)"
  shows "\<exists>r cc' es. client_peers client swarm_id net t = (r, Some cc', socket_destroy (native_handle cc) t') \<and>
    sent cc' = ''PEERS '' @ tc_token client @ '' '' @ swarm_id @ [nl] \<and>
    peers_loop (cc\<lparr>sending := es, sent := sent cc'\<rparr>) [] = (r, cc')"
proof -
  let ?h = "''PEERS '' @ tc_token client @ '' '' @ swarm_id"
  obtain es where es: "io_bind (write_all (?h @ [nl])) (\<lambda>_ c. peers_loop c []) cc =
      peers_loop (cc\<lparr>sending := es, sent := sent cc @ ?h @ [nl]\<rparr>) []"
    "sent (snd (io_bind (write_all (?h @ [nl])) (\<lambda>_ c. peers_loop c []) cc)) = sent cc @ ?h @ [nl]"
    using request_then_quiet [where f = "\<lambda>_ c. peers_loop c []" and d = "?h @ [nl]", OF assms(3) quiet_peers_loop] by blast
  obtain r cc' where body: "io_bind (write_all (?h @ [nl])) (\<lambda>_ c. peers_loop c []) cc = (r, cc')" by fastforce
  then have sent: "sent cc' = ?h @ [nl]" using es(2) connect_tcp_sent [OF assms(2)] by simp
  have "client_peers client swarm_id net t = (r, Some cc', socket_destroy (native_handle cc) t')"
    using assms(1,2) body by (simp add: client_peers_def with_connection_def Let_def)
  moreover have "peers_loop (cc\<lparr>sending := es, sent := sent cc'\<rparr>) [] = (r, cc')"
    using es(1) body connect_tcp_sent [OF assms(2)] by (simp add: sent)
  ultimately show ?thesis using sent by auto
qed

text \<open>
  C17. Discovery works end to end (\<^verbatim>\<open>TrackerClient::peers\<close> against \<^verbatim>\<open>handle_connection\<close>): the client connects and asks for
  a swarm with the server's token; what it sends is what the server receives, and what the server sends is what the client
  receives, however the two byte streams are segmented. Then the client returns a list
  in which every entry is the current record of a different live peer of the swarm; the list
  has at most \<^verbatim>\<open>max_response_peers\<close> entries and misses no live peer if it has fewer. Needed is
  that the addresses of the live peers are safe atoms and their lines fit the header limit.
\<close>

theorem tracker_query_end_to_end:
  assumes "tracker_server_new p token ttl addr limits = Inr srv" and "tracker_reach srv swarms"
    and order: "\<And>ps. mset (order ps) = mset ps" and atoms: "safe_atom token" "safe_atom swarm_id"
    and client: "tc_token client = token" "connect_tcp net (tc_endpoint client) (tc_timeout client) t = (Inr cc, t')"
      "0 \<le> native_handle cc" "\<And>m. Send_failed m \<notin> set (sending cc)"
    and run: "client_peers client swarm_id net t = (r, Some cc', t'')"
    and sc: "0 \<le> native_handle sc" "\<And>m. Send_failed m \<notin> set (sending sc)"
    and served: "handle_connection srv order now remote sc swarms = (sc', swarms')"
    and linked: "exchange cc cc' sc sc'"
    and fits: "\<And>q r. live ttl now swarms swarm_id q = Some r \<Longrightarrow> deliverable (pr_peer r)"
  shows "\<exists>peers. r = Inr peers \<and> distinct (map dp_peer_id peers) \<and>
    length peers \<le> unat (max_response_peers limits) \<and>
    (\<forall>peer\<in>set peers. \<exists>r. live ttl now swarms swarm_id (dp_peer_id peer) = Some r \<and> pr_peer r = peer) \<and>
    (length peers < unat (max_response_peers limits) \<longrightarrow>
       (\<forall>q r. live ttl now swarms swarm_id q = Some r \<longrightarrow> pr_peer r \<in> set peers))"
proof -
  obtain request where "parse_tracker_request (''PEERS '' @ tc_token client @ '' '' @ swarm_id) = Inr request"
    using parse_peers [OF atoms] client(1) by simp
  from client_peers_sends [OF this client(2,4)] run client(1) obtain es where
    es: "sent cc' = ''PEERS '' @ token @ '' '' @ swarm_id @ [nl]"
      "peers_loop (cc\<lparr>sending := es, sent := sent cc'\<rparr>) [] = (r, cc')" by auto
  let ?c = "cc\<lparr>sending := es, sent := sent cc'\<rparr>"
  have "pending (incoming sc) = ''PEERS '' @ token @ '' '' @ swarm_id @ [nl]" "sent sc = []" "pending (incoming ?c) = sent sc'"
    using linked es(1) by (simp_all add: exchange_def)
  from query_answered [OF assms(1,2) order atoms this(1) sc this(2) fits served this(3)] client(3) es(2)
  show ?thesis by auto
qed

text \<open>The server's side of an announcement whose header arrives completely.\<close>

lemma announce_served:
  assumes "safe_atom (ts_token srv)" "safe_atom (ad_swarm_id ad)" "safe_atom (ad_peer_id ad)"
    and "ad_listen_port ad \<noteq> 0" and t: "encode_chunk_list (ad_chunks ad) (ad_has_all_chunks ad) = Inr t"
    and len: "length (announce_header (ts_token srv) ad t) \<le> kMaxHeaderBytes"
    and sc: "pending (incoming sc) = announce_header (ts_token srv) ad t @ [nl]" "0 \<le> native_handle sc"
      "\<And>m. Send_failed m \<notin> set (sending sc)"
  shows "\<exists>request es es'. tr_swarm_id request = ad_swarm_id ad \<and>
    request_record request remote now =
      \<lparr>pr_peer = \<lparr>dp_peer_id = ad_peer_id ad, dp_endpoint = \<lparr>host = host remote, port = ad_listen_port ad\<rparr>,
         dp_chunks = (if ad_has_all_chunks ad then [] else ad_chunks ad), dp_has_all_chunks = ad_has_all_chunks ad\<rparr>,
       last_seen = now\<rparr> \<and> tr_peer_id request = ad_peer_id ad \<and>
    handle_connection srv order now remote sc swarms =
      (let (accepted, swarms') = announce_locked srv now remote request swarms
       in (sc\<lparr>incoming := es, sending := es',
             sent := sent sc @ (if \<not> accepted then ''ERROR capacity'' else ''OK'') @ [nl]\<rparr>, swarms'))"
proof -
  let ?h = "announce_header (ts_token srv) ad t"
  let ?fs = "[''ANNOUNCE'', ts_token srv, ad_swarm_id ad, ad_peer_id ad, dec (unat (ad_listen_port ad)), t]"
  have h: "?h = join_with CHR '' '' ?fs" by (simp add: announce_header_def)
  define request where "request = \<lparr>tr_kind = Announce, tr_token = ts_token srv, tr_swarm_id = ad_swarm_id ad,
      tr_peer_id = ad_peer_id ad, tr_listen_port = ad_listen_port ad, tr_has_all_chunks = ad_has_all_chunks ad,
      tr_chunks = (if ad_has_all_chunks ad then [] else ad_chunks ad)\<rparr>"
  have parse: "parse_tracker_request ?h = Inr request"
    unfolding h request_def using assms(1-4) t len unfolding h by (intro parse_announce)
  have printable: "list_all printable ?h"
    unfolding h by (rule join_with_printable) (use assms(1-3) encoded_wf [OF t] in \<open>simp add: safe_atom_wf\<close>)
  have "pending (incoming sc) = ?h @ nl # []" using sc(1) by simp
  from read_line_delivered [OF this printable len sc(2)] obtain es where
    rl: "read_line kMaxHeaderBytes sc = (Inr ?h, sc\<lparr>incoming := es\<rparr>)" by auto
  have tok: "secure_token_equal (ts_token srv) (tr_token request)"
    using assms(1) by (simp add: request_def secure_token_equal_iff safe_atom_def)
  have kind: "tr_kind request = Announce" by (simp add: request_def)
  obtain accepted s1 where a: "announce_locked srv now remote request swarms = (accepted, s1)" by fastforce
  obtain es' where w: "write_all ((if \<not> accepted then ''ERROR capacity'' else ''OK'') @ [nl]) (sc\<lparr>incoming := es\<rparr>) =
      (Inr (), (sc\<lparr>incoming := es\<rparr>)\<lparr>sending := es', sent := sent sc @ (if \<not> accepted then ''ERROR capacity'' else ''OK'') @ [nl]\<rparr>)"
    using write_all_ok [of "sc\<lparr>incoming := es\<rparr>" "(if \<not> accepted then ''ERROR capacity'' else ''OK'') @ [nl]"] sc(3)
    by auto
  have "handle_connection srv order now remote sc swarms =
      (sc\<lparr>incoming := es, sending := es', sent := sent sc @ (if \<not> accepted then ''ERROR capacity'' else ''OK'') @ [nl]\<rparr>, s1)"
    using tok w kind
    by (simp add: handle_connection_def io_bind_def rl io_lift_def parse a or_bad_request_def del: if_split)
  with a show ?thesis
    by (intro exI [of _ request] exI [of _ es] exI [of _ es']) (simp add: request_def request_record_def)
qed

text \<open>The two ends of an announcement.\<close>

lemma announce_answered:
  assumes "safe_atom (ts_token srv)" "safe_atom (ad_swarm_id ad)" "safe_atom (ad_peer_id ad)" and "ad_listen_port ad \<noteq> 0"
    and t: "encode_chunk_list (ad_chunks ad) (ad_has_all_chunks ad) = Inr t"
    and "length (announce_header (ts_token srv) ad t) \<le> kMaxHeaderBytes"
    and sc: "pending (incoming sc) = announce_header (ts_token srv) ad t @ [nl]" "0 \<le> native_handle sc"
      "\<And>m. Send_failed m \<notin> set (sending sc)" "sent sc = []"
    and run: "handle_connection srv order now remote sc swarms = (sc', swarms')"
    and cc: "pending (incoming cc) = sent sc'" "0 \<le> native_handle cc"
  shows "\<exists>request accepted cc'. tr_swarm_id request = ad_swarm_id ad \<and> tr_peer_id request = ad_peer_id ad \<and>
    request_record request remote now =
      \<lparr>pr_peer = \<lparr>dp_peer_id = ad_peer_id ad, dp_endpoint = \<lparr>host = host remote, port = ad_listen_port ad\<rparr>,
         dp_chunks = (if ad_has_all_chunks ad then [] else ad_chunks ad), dp_has_all_chunks = ad_has_all_chunks ad\<rparr>,
       last_seen = now\<rparr> \<and>
    announce_locked srv now remote request swarms = (accepted, swarms') \<and>
    expect_ok cc = (if accepted then Inr () else throw ''Tracker rejected request: ERROR capacity'', cc')"
proof -
  obtain request es es' where req: "tr_swarm_id request = ad_swarm_id ad" "tr_peer_id request = ad_peer_id ad"
      "request_record request remote now =
        \<lparr>pr_peer = \<lparr>dp_peer_id = ad_peer_id ad, dp_endpoint = \<lparr>host = host remote, port = ad_listen_port ad\<rparr>,
           dp_chunks = (if ad_has_all_chunks ad then [] else ad_chunks ad), dp_has_all_chunks = ad_has_all_chunks ad\<rparr>,
         last_seen = now\<rparr>"
      "handle_connection srv order now remote sc swarms =
        (let (accepted, swarms') = announce_locked srv now remote request swarms
         in (sc\<lparr>incoming := es, sending := es',
               sent := sent sc @ (if \<not> accepted then ''ERROR capacity'' else ''OK'') @ [nl]\<rparr>, swarms'))"
    using announce_served [of srv ad t sc remote now order swarms] assms(1-6) sc by auto
  obtain accepted s1 where a: "announce_locked srv now remote request swarms = (accepted, s1)" by fastforce
  let ?m = "if \<not> accepted then ''ERROR capacity'' else ''OK''"
  have s1: "swarms' = s1" and "pending (incoming cc) = ?m @ nl # []"
    using run req(4) a cc(1) sc(4) by auto
  moreover have "list_all printable ?m" by (simp add: printable_def)
  moreover have "length ?m \<le> kMaxHeaderBytes" by (simp add: kMaxHeaderBytes_def)
  ultimately obtain cc' where rl: "read_line kMaxHeaderBytes cc = (Inr ?m, cc')"
    using read_line_delivered [OF _ _ _ cc(2), of ?m "[]"] by blast
  have "expect_ok cc = (if accepted then Inr () else throw ''Tracker rejected request: ERROR capacity'', cc')"
    using rl by (cases accepted) (simp_all add: expect_ok_def io_bind_def io_return_def io_lift_def)
  with req(1-3) a s1 show ?thesis by metis
qed

lemma announce_parses:
  assumes "safe_atom token" "safe_atom (ad_swarm_id ad)" "safe_atom (ad_peer_id ad)" "ad_listen_port ad \<noteq> 0"
    and "encode_chunk_list (ad_chunks ad) (ad_has_all_chunks ad) = Inr chunks"
    and "length (announce_header token ad chunks) \<le> kMaxHeaderBytes"
  shows "\<exists>request. parse_tracker_request (announce_header token ad chunks) = Inr request"
proof -
  have h: "announce_header token ad chunks =
      join_with CHR '' '' [''ANNOUNCE'', token, ad_swarm_id ad, ad_peer_id ad, dec (unat (ad_listen_port ad)), chunks]"
    by (simp add: announce_header_def)
  show ?thesis using parse_announce [OF assms(1-5)] assms(6) unfolding h by blast
qed

lemma client_announce_sends:
  assumes "encode_chunk_list (ad_chunks ad) (ad_has_all_chunks ad) = Inr chunks"
    and "parse_tracker_request (announce_header (tc_token client) ad chunks) = Inr request"
    and "connect_tcp net (tc_endpoint client) (tc_timeout client) t = (Inr cc, t')" and "\<And>m. Send_failed m \<notin> set (sending cc)"
  shows "\<exists>r cc' es. client_announce client ad net t = (r, Some cc', socket_destroy (native_handle cc) t') \<and>
    sent cc' = announce_header (tc_token client) ad chunks @ [nl] \<and>
    expect_ok (cc\<lparr>sending := es, sent := sent cc'\<rparr>) = (r, cc')"
proof -
  let ?h = "announce_header (tc_token client) ad chunks"
  obtain es where es: "io_bind (write_all (?h @ [nl])) (\<lambda>_. expect_ok) cc =
      expect_ok (cc\<lparr>sending := es, sent := sent cc @ ?h @ [nl]\<rparr>)"
    "sent (snd (io_bind (write_all (?h @ [nl])) (\<lambda>_. expect_ok) cc)) = sent cc @ ?h @ [nl]"
    using request_then_quiet [where f = "\<lambda>_. expect_ok" and d = "?h @ [nl]", OF assms(4) quiet_expect_ok] by blast
  obtain r cc' where body: "io_bind (write_all (?h @ [nl])) (\<lambda>_. expect_ok) cc = (r, cc')" by fastforce
  then have sent: "sent cc' = ?h @ [nl]" using es(2) connect_tcp_sent [OF assms(3)] by simp
  have "client_announce client ad net t = (r, Some cc', socket_destroy (native_handle cc) t')"
    using assms(1-3) body by (simp add: client_announce_def with_connection_def Let_def)
  moreover have "expect_ok (cc\<lparr>sending := es, sent := sent cc'\<rparr>) = (r, cc')"
    using es(1) body connect_tcp_sent [OF assms(3)] by (simp add: sent)
  ultimately show ?thesis using sent by auto
qed

section \<open>Limits of announcing and discovering\<close>

lemma chunk_text_length: "cs \<noteq> [] \<Longrightarrow> 2 * length cs \<le> Suc (length (chunk_text cs))"
proof (induction cs rule: induct_list012)
  case (2 c)
  then show ?case by (cases "dec (unat c)") auto
next
  case (3 c d cs)
  have "1 \<le> length (dec (unat c))" by (cases "dec (unat c)") auto
  with 3 show ?case by simp
qed simp

text \<open>
  C38. A partial peer can announce only so many chunks (\<^verbatim>\<open>TrackerClient::announce\<close>): with more than
  4096 completed chunks, and not all of them, the list does not fit the header limit and
  the call throws before it connects, whatever the chunks are. The downloader announces its
  completed chunks before it starts, so resuming such a download always fails.
\<close>

theorem announce_chunk_limit:
  assumes "\<not> ad_has_all_chunks ad" and "4096 < length (ad_chunks ad)"
  shows "\<exists>e. client_announce client ad net t = (Inl e, None, t)"
proof (cases "encode_chunk_list (ad_chunks ad) (ad_has_all_chunks ad)")
  case (Inl e)
  then show ?thesis by (simp add: client_announce_def)
next
  case (Inr x)
  have ne: "ad_chunks ad \<noteq> []" using assms(2) by auto
  with Inr assms have x: "x = chunk_text (ad_chunks ad)" by (simp add: encode_chunk_list_Inr)
  have "kMaxHeaderBytes < length x"
    using chunk_text_length [OF ne] assms(2) by (simp add: x kMaxHeaderBytes_def)
  then have "kMaxHeaderBytes < length (announce_header (tc_token client) ad x)"
    by (simp add: announce_header_def)
  from ph.split_too_long [OF this] show ?thesis using Inr
    by (auto simp: client_announce_def parse_tracker_request_def)
qed

theorem announce_chunk_limit_witness:
  "\<exists>e. client_announce \<lparr>tc_endpoint = sample_endpoint, tc_token = ''tok'', tc_timeout = 3000\<rparr>
     \<lparr>ad_swarm_id = ''s'', ad_peer_id = ''p'', ad_listen_port = 7001, ad_chunks = map of_nat [0 ..< 5000],
      ad_has_all_chunks = False\<rparr> (\<lambda>_. Inl ''unreachable'') sample_fds = (Inl e, None, sample_fds)"
  by (rule announce_chunk_limit) simp_all

text \<open>
  A registered peer whose address is not a safe atom, as a link-local IPv6 address with its zone
  (\<^verbatim>\<open>fe80::1%eth0\<close>), makes the client refuse the whole answer.
\<close>

lemma unsafe_host_rejected:
  assumes "\<not> safe_atom (host (dp_endpoint peer))" and "wf_field (host (dp_endpoint peer))"
    and "safe_atom (dp_peer_id peer)"
    and t: "encode_chunk_list (dp_chunks peer) (dp_has_all_chunks peer) = Inr t"
    and "length (peer_line peer t) \<le> kMaxHeaderBytes"
  shows "\<exists>e. parse_peer_response (peer_line peer t) = Inl e"
proof -
  let ?p = "dec (unat (port (dp_endpoint peer)))" and ?h = "host (dp_endpoint peer)"
  have line: "peer_line peer t = join_with CHR '' '' [''PEER'', dp_peer_id peer, ?h, ?p, t]"
    by (simp add: peer_line_def)
  have split: "split_response (peer_line peer t) = Inr [''PEER'', dp_peer_id peer, ?h, ?p, t]"
    unfolding line
    by (rule sp.split_join) (use assms encoded_wf [OF t] in \<open>auto simp: safe_atom_wf peer_line_def\<close>)
  have "parse_tracker_request (''PEERS check-token '' @ ?h) \<noteq> Inr r" for r
  proof
    assume ok: "parse_tracker_request (''PEERS check-token '' @ ?h) = Inr r"
    then obtain fs where fs: "split_header (''PEERS check-token '' @ ?h) = Inr fs"
      by (auto simp: parse_tracker_request_def result_simps)
    have "length (''PEERS check-token '' @ ?h) \<le> kMaxHeaderBytes" using fs unfolding ph.split_Inr by blast
    then have "split_header (join_with CHR '' '' [''PEERS'', ''check-token'', ?h]) = Inr [''PEERS'', ''check-token'', ?h]"
      using assms(2) by (intro ph.split_join) (auto simp: safe_atom_wf)
    with fs ok assms(1) show False
      by (auto simp: parse_tracker_request_def result_simps)
  qed
  then have "\<exists>e. parse_tracker_request (''PEERS check-token '' @ ?h) = Inl e"
    by (cases "parse_tracker_request (''PEERS check-token '' @ ?h)") auto
  with split show ?thesis
    by (cases "parse_tracker_request (''ANNOUNCE check-token check-swarm '' @ dp_peer_id peer @ '' '' @ ?p @ '' '' @ t)")
      (auto simp: parse_peer_response_def)
qed

lemma peers_loop_blocked:
  assumes "\<forall>peer\<in>set earlier. good_peer peer \<and> deliverable peer" and "0 \<le> native_handle d"
    and bad: "\<not> safe_atom (host (dp_endpoint bad))" "wf_field (host (dp_endpoint bad))" "good_peer bad"
      "encode_chunk_list (dp_chunks bad) (dp_has_all_chunks bad) = Inr t" "length (peer_line bad t) \<le> kMaxHeaderBytes"
    and "pending (incoming d) = reply_text (earlier @ bad # later)"
  shows "\<exists>e d'. peers_loop d acc = (Inl e, d')"
  using assms(1,2,8)
proof (induction earlier arbitrary: d acc)
  case Nil
  let ?fs = "[''PEER'', dp_peer_id bad, host (dp_endpoint bad), dec (unat (port (dp_endpoint bad))), t]"
  have id: "safe_atom (dp_peer_id bad)" using bad(3) by (simp add: good_peer_def)
  have line: "peer_line bad t = join_with CHR '' '' ?fs" by (simp add: peer_line_def)
  have "list_all printable (peer_line bad t)"
    unfolding line by (rule join_with_printable) (use bad(2) id encoded_wf [OF bad(4)] in \<open>auto simp: safe_atom_wf\<close>)
  moreover have "pending (incoming d) = peer_line bad t @ nl # reply_text later"
    using Nil bad(4) by (simp add: reply_text_def)
  ultimately obtain es where "read_line kMaxHeaderBytes d = (Inr (peer_line bad t), d\<lparr>incoming := es\<rparr>)"
    using read_line_delivered [of d "peer_line bad t"] Nil bad(5) by auto
  moreover have "peer_line bad t \<noteq> ''END''" "\<not> starts_with (peer_line bad t) ''ERROR ''"
    by (simp_all add: peer_line_def starts_with_def)
  ultimately show ?case using unsafe_host_rejected [OF bad(1,2) id bad(4,5)] by (subst peers_loop.simps) auto
next
  case (Cons peer earlier)
  then have peer: "good_peer peer" "deliverable peer" by simp_all
  then obtain u where u: "encode_chunk_list (dp_chunks peer) (dp_has_all_chunks peer) = Inr u"
    using good_encodes by blast
  note facts = peer_line_facts [OF peer u]
  have "pending (incoming d) = peer_line peer u @ nl # reply_text (earlier @ bad # later)"
    using Cons.prems(3) u by (simp add: reply_text_def)
  from read_line_delivered [OF this] facts Cons.prems(2) obtain es where
    es: "read_line kMaxHeaderBytes d = (Inr (peer_line peer u), d\<lparr>incoming := es\<rparr>)"
      "pending es = reply_text (earlier @ bad # later)" by auto
  have "\<exists>e d'. peers_loop (d\<lparr>incoming := es\<rparr>) (acc @ [peer]) = (Inl e, d')"
    using Cons.prems es(2) by (intro Cons.IH) auto
  with es(1) facts parse_peer_line [OF peer u] show ?case by (subst peers_loop.simps) auto
qed

text \<open>
  C40. One peer can hide a swarm (\<^verbatim>\<open>TrackerClient::peers\<close>): if an answer of the tracker lists, anywhere, a peer
  whose address is not a safe atom, as the link-local IPv6 address \<^verbatim>\<open>fe80::1%eth0\<close> with its
  zone, the client throws and returns none of the listed peers, although the tracker itself
  accepts such a peer and writes the line.
\<close>

theorem scoped_address_blocks_discovery:
  assumes "\<forall>peer\<in>set earlier. good_peer peer \<and> deliverable peer" and "0 \<le> native_handle d"
    and "\<not> safe_atom (host (dp_endpoint bad))" "wf_field (host (dp_endpoint bad))" "good_peer bad"
      "encode_chunk_list (dp_chunks bad) (dp_has_all_chunks bad) = Inr t" "length (peer_line bad t) \<le> kMaxHeaderBytes"
    and "pending (incoming d) = reply_text (earlier @ bad # later)"
  shows "\<exists>e d'. peers_loop d [] = (Inl e, d')"
  by (rule peers_loop_blocked [OF assms])

definition sample_scoped :: discovered_peer where
  "sample_scoped = \<lparr>dp_peer_id = ''peer-a'', dp_endpoint = \<lparr>host = ''fe80::1%eth0'', port = 7001\<rparr>,
    dp_chunks = [], dp_has_all_chunks = True\<rparr>"

theorem scoped_address_blocks_discovery_witness:
  "\<exists>e d'. peers_loop (sample_conn [Segment (reply_text [sample_scoped])]) [] = (Inl e, d')"
proof -
  have "length (peer_line sample_scoped ''all'') \<le> kMaxHeaderBytes"
    by (simp add: sample_scoped_def peer_line_def kMaxHeaderBytes_def dec.simps)
  moreover have "encode_chunk_list (dp_chunks sample_scoped) (dp_has_all_chunks sample_scoped) = Inr ''all''"
    by (simp add: sample_scoped_def encode_chunk_list_def)
  moreover have "good_peer sample_scoped" "wf_field (host (dp_endpoint sample_scoped))" "\<not> safe_atom (host (dp_endpoint sample_scoped))"
    by (simp_all add: sample_scoped_def good_peer_def safe_atom_def atom_char_def wf_field_def graphic_def)
  ultimately show ?thesis
    by (intro scoped_address_blocks_discovery [where earlier = "[]" and bad = sample_scoped and later = "[]"]) (simp_all add: sample_conn_def)
qed

section \<open>A concrete tracker\<close>

definition sample_limits :: tracker_limits where
  "sample_limits = \<lparr>max_connections = 32, worker_count = 4, max_swarms = 2, max_peers_per_swarm = 2,
     max_response_peers = 2\<rparr>"

definition sample_server :: tracker_server where
  "sample_server = \<lparr>ts_requested_port = 7000, ts_token = ''tok'', ts_ttl = 30, ts_bind_address = ''127.0.0.1'',
     ts_limits = sample_limits\<rparr>"

lemma sample_server_new: "tracker_server_new 7000 ''tok'' 30 ''127.0.0.1'' sample_limits = Inr sample_server"
  by (simp add: tracker_server_new_def sample_server_def sample_limits_def)

definition sample_ad :: peer_advertisement where
  "sample_ad = \<lparr>ad_swarm_id = ''s'', ad_peer_id = ''p'', ad_listen_port = 7001, ad_chunks = [0, 2],
     ad_has_all_chunks = False\<rparr>"

definition sample_record :: "int \<Rightarrow> peer_record" where
  "sample_record now = \<lparr>pr_peer = \<lparr>dp_peer_id = ''p'', dp_endpoint = \<lparr>host = ''10.0.0.7'', port = 7001\<rparr>,
     dp_chunks = [0, 2], dp_has_all_chunks = False\<rparr>, last_seen = now\<rparr>"

definition sample_swarms :: swarm_map where
  "sample_swarms = [(''s'', [(''p'', sample_record 5)])]"

definition sample_remote :: endpoint where
  "sample_remote = \<lparr>host = ''10.0.0.7'', port = 40001\<rparr>"

lemma sample_encoded: "encode_chunk_list (ad_chunks sample_ad) (ad_has_all_chunks sample_ad) = Inr ''0,2''"
  by (simp add: sample_ad_def encode_chunk_list_def dec.simps digit_simps)

lemma sample_header: "announce_header ''tok'' sample_ad ''0,2'' = ''ANNOUNCE tok s p 7001 0,2''"
  by (simp add: announce_header_def sample_ad_def dec.simps digit_simps)

lemma sample_atoms [simp]: "safe_atom ''tok''" "safe_atom ''s''" "safe_atom ''p''" "safe_atom ''10.0.0.7''"
  by (simp_all add: safe_atom_def atom_char_def)

definition sample_request_conn :: "string \<Rightarrow> conn" where
  "sample_request_conn h = sample_conn [Segment (take 3 h), Recv_interrupted, Segment (drop 3 h @ [nl])]"

lemma sample_request_conn_facts:
  "pending (incoming (sample_request_conn h)) = h @ [nl]" "0 \<le> native_handle (sample_request_conn h)"
  "Send_failed m \<notin> set (sending (sample_request_conn h))" "sent (sample_request_conn h) = []"
  by (simp_all add: sample_request_conn_def sample_conn_def)

lemma sample_announced:
  "\<exists>c'. handle_connection sample_server order 5 sample_remote (sample_request_conn ''ANNOUNCE tok s p 7001 0,2'') [] =
     (c', sample_swarms) \<and> sent c' = ''OK'' @ [nl]"
proof -
  have "\<exists>request es es'. tr_swarm_id request = ''s'' \<and> request_record request sample_remote 5 = sample_record 5 \<and>
      tr_peer_id request = ''p'' \<and>
      handle_connection sample_server order 5 sample_remote (sample_request_conn ''ANNOUNCE tok s p 7001 0,2'') [] =
      (let (accepted, swarms') = announce_locked sample_server 5 sample_remote request []
       in ((sample_request_conn ''ANNOUNCE tok s p 7001 0,2'')\<lparr>incoming := es, sending := es',
             sent := [] @ (if \<not> accepted then ''ERROR capacity'' else ''OK'') @ [nl]\<rparr>, swarms'))"
    using announce_served [OF _ _ _ _ sample_encoded, of sample_server "sample_request_conn ''ANNOUNCE tok s p 7001 0,2''"
        sample_remote 5 order "[]"]
    by (simp add: sample_server_def sample_header sample_request_conn_facts kMaxHeaderBytes_def)
      (simp add: sample_ad_def sample_record_def sample_remote_def)
  then obtain request es es' where r: "tr_swarm_id request = ''s''" "request_record request sample_remote 5 = sample_record 5"
      "tr_peer_id request = ''p''"
      "handle_connection sample_server order 5 sample_remote (sample_request_conn ''ANNOUNCE tok s p 7001 0,2'') [] =
      (let (accepted, swarms') = announce_locked sample_server 5 sample_remote request []
       in ((sample_request_conn ''ANNOUNCE tok s p 7001 0,2'')\<lparr>incoming := es, sending := es',
             sent := [] @ (if \<not> accepted then ''ERROR capacity'' else ''OK'') @ [nl]\<rparr>, swarms'))" by blast
  have "announce_locked sample_server 5 sample_remote request [] = (True, sample_swarms)"
    using r(1-3) by (simp add: announce_locked_def sample_server_def sample_limits_def sample_swarms_def)
  with r(4) show ?thesis by simp
qed

lemma sample_reach: "tracker_reach sample_server sample_swarms"
  using tracker_reach.Tracker_connection [OF tracker_reach.Tracker_init] sample_announced [of "\<lambda>x. x"] by blast


lemma sample_live: "live 30 6 sample_swarms s q = (if s = ''s'' \<and> q = ''p'' then Some (sample_record 5) else None)"
  by (simp add: live_def registered_def sample_swarms_def expired_def sample_record_def)

theorem tracker_registry_invariant_witness:
  "length sample_swarms \<le> unat (max_swarms sample_limits) \<and> sample_swarms \<noteq> []"
  using tracker_registry_invariant [OF sample_server_new sample_reach] by (simp add: sample_swarms_def)

definition sample_heartbeat :: tracker_request where
  "sample_heartbeat = \<lparr>tr_kind = Announce, tr_token = ''tok'', tr_swarm_id = ''s'', tr_peer_id = ''p'',
     tr_listen_port = 7001, tr_has_all_chunks = True, tr_chunks = []\<rparr>"

theorem tracker_announce_effect_witness:
  "registered (snd (announce_locked sample_server 6 sample_remote sample_heartbeat sample_swarms)) ''s'' ''p'' =
     Some (request_record sample_heartbeat sample_remote 6)"
  using tracker_announce_effect [OF sample_server_new sample_reach, of 6 sample_remote sample_heartbeat _ _ "''s''" "''p''"]
  by (cases "announce_locked sample_server 6 sample_remote sample_heartbeat sample_swarms")
    (auto simp: sample_live sample_heartbeat_def)

definition sample_query :: tracker_request where
  "sample_query = \<lparr>tr_kind = Peers, tr_token = ''tok'', tr_swarm_id = ''s'', tr_peer_id = [],
     tr_listen_port = 0, tr_has_all_chunks = False, tr_chunks = []\<rparr>"

theorem tracker_peers_effect_witness:
  "fst (peers_locked sample_server rev 6 sample_query sample_swarms) = [pr_peer (sample_record 5)]"
proof -
  obtain peers s where q: "peers_locked sample_server rev 6 sample_query sample_swarms = (peers, s)" by fastforce
  from tracker_peers_effect [OF sample_server_new sample_reach _ q]
  have "distinct (map dp_peer_id peers)" "\<forall>peer\<in>set peers. peer = pr_peer (sample_record 5)"
    "length peers < 2 \<Longrightarrow> pr_peer (sample_record 5) \<in> set peers"
    by (auto simp: sample_live sample_query_def sample_limits_def split: if_splits)
  then have "peers = [pr_peer (sample_record 5)]"
    by (cases peers rule: remdups_adj.cases) auto
  with q show ?thesis by simp
qed

theorem tracker_authorization_witness:
  "\<exists>c' swarms'. handle_connection sample_server (\<lambda>x. x) 6 sample_remote (sample_request_conn ''PEERS guess s'') sample_swarms =
     (c', swarms') \<and> swarms' = sample_swarms"
proof -
  have h: "''PEERS guess s'' = join_with CHR '' '' [''PEERS'', ''guess'', ''s'']" by simp
  have rl: "\<exists>es. read_line kMaxHeaderBytes (sample_request_conn ''PEERS guess s'') =
      (Inr ''PEERS guess s'', (sample_request_conn ''PEERS guess s'')\<lparr>incoming := es\<rparr>) \<and> pending es = []"
    by (rule read_line_delivered) (simp_all add: sample_request_conn_facts printable_def kMaxHeaderBytes_def)
  have parse: "\<exists>r. parse_tracker_request ''PEERS guess s'' = Inr r \<and> tr_token r = ''guess''"
    unfolding h by (subst parse_peers) (simp_all add: safe_atom_def atom_char_def)
  obtain c' swarms' where run: "handle_connection sample_server (\<lambda>x. x) 6 sample_remote
      (sample_request_conn ''PEERS guess s'') sample_swarms = (c', swarms')" by fastforce
  have "swarms' = sample_swarms"
    using tracker_authorization [OF run] rl parse
    by (auto simp: sample_request_conn_facts sample_server_def)
  with run show ?thesis by blast
qed

definition sample_client :: tracker_client where
  "sample_client = \<lparr>tc_endpoint = sample_endpoint, tc_token = ''tok'', tc_timeout = 3000\<rparr>"

lemma sample_deliverable: "deliverable (pr_peer (sample_record 5))"
proof -
  have "t = ''0,2''" if "encode_chunk_list [0, 2] False = Inr t" for t
    using that by (simp add: encode_chunk_list_def dec.simps digit_simps)
  then show ?thesis
    by (auto simp: deliverable_def sample_record_def peer_line_def kMaxHeaderBytes_def dec.simps)
qed

theorem tracker_query_end_to_end_witness:
  "\<exists>b cc' t'. client_peers sample_client ''s'' (\<lambda>_. Inr [sample_link b]) sample_fds = (Inr [pr_peer (sample_record 5)], Some cc', t') \<and>
     b = sent (fst (handle_connection sample_server rev 6 sample_remote (sample_request_conn ''PEERS tok s'') sample_swarms))"
proof -
  let ?sc = "sample_request_conn ''PEERS tok s''"
  obtain sc' swarms' where served: "handle_connection sample_server rev 6 sample_remote ?sc sample_swarms = (sc', swarms')"
    by fastforce
  let ?net = "\<lambda>_ :: endpoint. Inr [sample_link (sent sc')]" and ?cc = "link_conn (sent sc')"
  have client: "tc_token sample_client = ''tok''" "tc_endpoint sample_client = sample_endpoint" "tc_timeout sample_client = 3000"
    by (simp_all add: sample_client_def)
  have conn: "connect_tcp ?net (tc_endpoint sample_client) (tc_timeout sample_client) sample_fds = (Inr ?cc, open_fd 5 sample_fds)"
    using sample_connect [of sample_endpoint ?net "sent sc'" sample_fds] by (simp add: client sample_endpoint_def)
  obtain request where parse: "parse_tracker_request (''PEERS '' @ tc_token sample_client @ '' '' @ ''s'') = Inr request"
    using parse_peers [of "''tok''" "''s''"] by (simp add: client)
  from client_peers_sends [OF parse conn link_conn_facts(3)]
  obtain r cc' where run: "client_peers sample_client ''s'' ?net sample_fds =
      (r, Some cc', socket_destroy (native_handle ?cc) (open_fd 5 sample_fds))" "sent cc' = ''PEERS tok s'' @ [nl]"
    by (auto simp: client)
  have linked: "exchange ?cc cc' ?sc sc'" by (simp add: exchange_def link_conn_facts sample_request_conn_facts run(2))
  have "\<exists>peers. r = Inr peers \<and> distinct (map dp_peer_id peers) \<and>
    length peers \<le> unat (max_response_peers sample_limits) \<and>
    (\<forall>peer\<in>set peers. \<exists>r. live 30 6 sample_swarms ''s'' (dp_peer_id peer) = Some r \<and> pr_peer r = peer) \<and>
    (length peers < unat (max_response_peers sample_limits) \<longrightarrow>
       (\<forall>q r. live 30 6 sample_swarms ''s'' q = Some r \<longrightarrow> pr_peer r \<in> set peers))"
    by (rule tracker_query_end_to_end [OF sample_server_new sample_reach _ _ _ client(1) conn _ _ run(1) _ _ served linked])
      (auto simp: sample_request_conn_facts link_conn_facts sample_live sample_deliverable split: if_splits)
  then obtain peers where p: "r = Inr peers" "distinct (map dp_peer_id peers)"
    "\<forall>peer\<in>set peers. peer = pr_peer (sample_record 5)"
    "length peers < 2 \<Longrightarrow> pr_peer (sample_record 5) \<in> set peers"
    by (auto simp: sample_live sample_limits_def split: if_splits)
  then have "peers = [pr_peer (sample_record 5)]" by (cases peers rule: remdups_adj.cases) auto
  with run p(1) served show ?thesis by (intro exI [of _ "sent sc'"] exI [of _ cc']) auto
qed

end
