(* ===== verification/Connection_Pool.thy ===== *)
theory Connection_Pool
  imports Swarm_Prelude
begin

text \<open>
  The threads of the two servers. \<^verbatim>\<open>TrackerServer\<close> (\<^verbatim>\<open>src/tracker.cpp\<close>) and \<^verbatim>\<open>PeerServer\<close>
  (\<^verbatim>\<open>src/peer_server.cpp\<close>) have the same accepting thread, the same worker threads around a queue
  and an atomic counter of outstanding connections, and almost the same \<^verbatim>\<open>stop\<close>. The model is a
  step relation in which each atomic operation and each critical section of a thread is one
  step, so that every interleaving of the threads is a run. A connection is any value.
\<close>

section \<open>State\<close>

text \<open>
  Where the accepting thread is: at the loop condition, blocked in \<^verbatim>\<open>accept_tcp\<close>, holding a new
  connection, holding one that was counted over the limit, one that was counted within it, having queued one
  and about to call \<^verbatim>\<open>notify_one\<close>, holding one that was not queued because the server was stopped, or finished.
\<close>

datatype 'j acceptor = At_loop | Accepting | Got 'j | Over 'j | Counted 'j | Queued | Late 'j | Acceptor_done

text \<open>
  A worker is about to lock the mutex of the queue; has found nothing to do and, holding the mutex, is about to
  block on the condition variable; is blocked on it; serves a connection; or has returned.
\<close>

datatype 'j worker = Ready | Suspending | Asleep | Serving 'j | Worker_done

text \<open>Where the thread that calls \<^verbatim>\<open>start\<close> and \<^verbatim>\<open>stop\<close> is, and the listening socket.\<close>

datatype stop_phase = Down | Up | Shutting_down | Joining_acceptor | Notifying | Joining_workers

datatype listen_state = Closed | Listening | Shut_down

text \<open>The last four members only record what became of each connection.\<close>

record 'j pool =
  running :: bool
  outstanding :: u32
  acceptor :: "'j acceptor"
  queue :: "'j list"
  workers :: "'j worker list"
  phase :: stop_phase
  listen_sock :: listen_state
  taken :: "'j list"
  served :: "'j list"
  refused :: "'j list"
  dropped :: "'j list"

definition pool_init :: "'j pool" where
  "pool_init = \<lparr>running = False, outstanding = 0, acceptor = Acceptor_done, queue = [], workers = [],
     phase = Down, listen_sock = Closed, taken = [], served = [], refused = [], dropped = []\<rparr>"

text \<open>
  The critical sections are single steps, so \<^verbatim>\<open>queue_mutex_\<close> is held between steps only by a worker
  that is about to block.
\<close>

definition mutex_free :: "'j pool \<Rightarrow> bool" where
  "mutex_free s \<longleftrightarrow> Suspending \<notin> set (workers s)"

section \<open>The atomic operations\<close>

text \<open>\<^verbatim>\<open>start\<close>, once listening succeeded; its \<^verbatim>\<open>compare_exchange\<close> refuses a running server.\<close>

definition pool_start :: "nat \<Rightarrow> 'j pool \<Rightarrow> 'j pool" where
  "pool_start n s =
     s\<lparr>running := True, acceptor := At_loop, workers := replicate n Ready, phase := Up, listen_sock := Listening\<rparr>"

text \<open>The fetch-and-add of the accepting thread and its comparison with the limit.\<close>

definition pool_count :: "u32 \<Rightarrow> 'j \<Rightarrow> 'j pool \<Rightarrow> 'j pool" where
  "pool_count limit j s =
     (let current = outstanding s
      in s\<lparr>outstanding := current + 1, acceptor := (if current \<ge> limit then Over j else Counted j)\<rparr>)"

definition pool_refuse :: "'j \<Rightarrow> 'j pool \<Rightarrow> 'j pool" where
  "pool_refuse j s = s\<lparr>outstanding := outstanding s - 1, acceptor := At_loop, refused := refused s @ [j]\<rparr>"

text \<open>The critical section that queues the connection.\<close>

definition pool_push :: "'j \<Rightarrow> 'j pool \<Rightarrow> 'j pool" where
  "pool_push j s =
     (if running s then s\<lparr>queue := queue s @ [j], acceptor := Queued\<rparr> else s\<lparr>acceptor := Late j\<rparr>)"

definition pool_uncount :: "'j \<Rightarrow> 'j pool \<Rightarrow> 'j pool" where
  "pool_uncount j s = s\<lparr>outstanding := outstanding s - 1, acceptor := At_loop, dropped := dropped s @ [j]\<rparr>"

text \<open>\<^verbatim>\<open>notify_one\<close> wakes one of the blocked workers, if there is any.\<close>

definition wake :: "nat \<Rightarrow> 'j pool \<Rightarrow> 'j pool" where
  "wake i s = s\<lparr>workers := (workers s)[i := Ready]\<rparr>"

inductive notify_one :: "'j pool \<Rightarrow> 'j pool \<Rightarrow> bool" for s where
  Wakes: "i < length (workers s) \<Longrightarrow> workers s ! i = Asleep \<Longrightarrow> notify_one s (wake i s)"
| Wakes_none: "Asleep \<notin> set (workers s) \<Longrightarrow> notify_one s s"

text \<open>
  A worker locks the mutex and tests the predicate of its wait. Where that fails the worker will block;
  otherwise it goes on in the critical section. The flag may change in between only from true to false.
\<close>

definition pool_take :: "nat \<Rightarrow> 'j pool \<Rightarrow> 'j pool" where
  "pool_take i s =
     (if \<not> (\<not> running s \<or> queue s \<noteq> []) then s\<lparr>workers := (workers s)[i := Suspending]\<rparr>
      else if \<not> running s \<or> queue s = [] then s\<lparr>workers := (workers s)[i := Worker_done]\<rparr>
      else s\<lparr>workers := (workers s)[i := Serving (hd (queue s))], queue := tl (queue s)\<rparr>)"

text \<open>The worker blocks and releases the mutex, in one atomic step of the condition variable.\<close>

definition pool_suspend :: "nat \<Rightarrow> 'j pool \<Rightarrow> 'j pool" where
  "pool_suspend i s = s\<lparr>workers := (workers s)[i := Asleep]\<rparr>"

definition pool_finish :: "nat \<Rightarrow> 'j \<Rightarrow> 'j pool \<Rightarrow> 'j pool" where
  "pool_finish i j s =
     s\<lparr>workers := (workers s)[i := Ready], outstanding := outstanding s - 1, served := served s @ [j]\<rparr>"

text \<open>\<^verbatim>\<open>stop\<close>: the exchange of the flag, and the shutdown of the listening socket.\<close>

definition pool_stop :: "'j pool \<Rightarrow> 'j pool" where
  "pool_stop s = s\<lparr>running := False, phase := Shutting_down\<rparr>"

definition pool_shutdown :: "'j pool \<Rightarrow> 'j pool" where
  "pool_shutdown s =
     s\<lparr>listen_sock := (if listen_sock s \<noteq> Closed then Shut_down else Closed), phase := Joining_acceptor\<rparr>"

text \<open>Behind the join of the accepting thread: closing the socket and the critical section.\<close>

definition pool_clear :: "'j pool \<Rightarrow> 'j pool" where
  "pool_clear s =
     s\<lparr>listen_sock := Closed, queue := [], dropped := dropped s @ queue s,
       outstanding := (if queue s \<noteq> [] then outstanding s - of_nat (length (queue s)) else outstanding s),
       phase := Notifying\<rparr>"

fun woken :: "'j worker \<Rightarrow> 'j worker" where
  "woken Asleep = Ready"
| "woken w = w"

definition pool_notify_all :: "'j pool \<Rightarrow> 'j pool" where
  "pool_notify_all s = s\<lparr>workers := map woken (workers s), phase := Joining_workers\<rparr>"

text \<open>Behind the joins of the workers; where \<open>reset\<close> holds, the tracker's final store of 0.\<close>

definition pool_down :: "bool \<Rightarrow> 'j pool \<Rightarrow> 'j pool" where
  "pool_down reset s = s\<lparr>workers := [], outstanding := (if reset then 0 else outstanding s), phase := Down\<rparr>"

section \<open>Runs\<close>

text \<open>
  The steps the threads take by themselves. A blocked thread is not among them: \<^verbatim>\<open>accept\<close> returns of its
  own accord only when the socket is shut down, and a worker that is blocked on the condition variable has no step until it is
  notified. A handler returns, since its socket has timeouts.
\<close>

inductive pool_step :: "u32 \<Rightarrow> nat \<Rightarrow> bool \<Rightarrow> 'j pool \<Rightarrow> 'j pool \<Rightarrow> bool" for limit n reset where
  Start: "phase s = Down \<Longrightarrow> \<not> running s \<Longrightarrow> pool_step limit n reset s (pool_start n s)"
| Loop: "acceptor s = At_loop \<Longrightarrow>
    pool_step limit n reset s (s\<lparr>acceptor := (if running s then Accepting else Acceptor_done)\<rparr>)"
| Accept_shut: "acceptor s = Accepting \<Longrightarrow> listen_sock s = Shut_down \<Longrightarrow> pool_step limit n reset s (s\<lparr>acceptor := At_loop\<rparr>)"
| Count: "acceptor s = Got j \<Longrightarrow> pool_step limit n reset s (pool_count limit j s)"
| Refuse: "acceptor s = Over j \<Longrightarrow> pool_step limit n reset s (pool_refuse j s)"
| Push: "acceptor s = Counted j \<Longrightarrow> mutex_free s \<Longrightarrow> pool_step limit n reset s (pool_push j s)"
| Uncount: "acceptor s = Late j \<Longrightarrow> pool_step limit n reset s (pool_uncount j s)"
| Notify_one: "acceptor s = Queued \<Longrightarrow> notify_one s s1 \<Longrightarrow> pool_step limit n reset s (s1\<lparr>acceptor := At_loop\<rparr>)"
| Take: "i < length (workers s) \<Longrightarrow> workers s ! i = Ready \<Longrightarrow> mutex_free s \<Longrightarrow> pool_step limit n reset s (pool_take i s)"
| Suspend: "i < length (workers s) \<Longrightarrow> workers s ! i = Suspending \<Longrightarrow> pool_step limit n reset s (pool_suspend i s)"
| Finish: "i < length (workers s) \<Longrightarrow> workers s ! i = Serving j \<Longrightarrow> pool_step limit n reset s (pool_finish i j s)"
| Stop: "phase s = Up \<Longrightarrow> running s \<Longrightarrow> pool_step limit n reset s (pool_stop s)"
| Shutdown: "phase s = Shutting_down \<Longrightarrow> pool_step limit n reset s (pool_shutdown s)"
| Clear: "phase s = Joining_acceptor \<Longrightarrow> acceptor s = Acceptor_done \<Longrightarrow> mutex_free s \<Longrightarrow>
    pool_step limit n reset s (pool_clear s)"
| Notify_all: "phase s = Notifying \<Longrightarrow> pool_step limit n reset s (pool_notify_all s)"
| Stopped: "phase s = Joining_workers \<Longrightarrow> set (workers s) \<subseteq> {Worker_done} \<Longrightarrow>
    pool_step limit n reset s (pool_down reset s)"

inductive_cases pool_step_cases: "pool_step limit n reset s s'"

text \<open>
  What may happen to them from outside, or never: a connection arrives, \<^verbatim>\<open>accept\<close> or the setting of the timeout fails, a worker
  wakes up without having been notified.
\<close>

inductive pool_event :: "'j pool \<Rightarrow> 'j pool \<Rightarrow> bool" where
  Accept: "acceptor s = Accepting \<Longrightarrow> pool_event s (s\<lparr>acceptor := Got j, taken := taken s @ [j]\<rparr>)"
| Accept_error: "acceptor s = Accepting \<Longrightarrow> pool_event s (s\<lparr>acceptor := At_loop\<rparr>)"
| Timeout_error: "acceptor s = Got j \<Longrightarrow> pool_event s (s\<lparr>acceptor := At_loop, dropped := dropped s @ [j]\<rparr>)"
| Spurious: "i < length (workers s) \<Longrightarrow> workers s ! i = Asleep \<Longrightarrow> pool_event s (wake i s)"

definition pool_move :: "u32 \<Rightarrow> nat \<Rightarrow> bool \<Rightarrow> 'j pool \<Rightarrow> 'j pool \<Rightarrow> bool" where
  "pool_move limit n reset s s' \<longleftrightarrow> pool_step limit n reset s s' \<or> pool_event s s'"

inductive pool_reach :: "u32 \<Rightarrow> nat \<Rightarrow> bool \<Rightarrow> 'j pool \<Rightarrow> bool" for limit n reset where
  Pool_init: "pool_reach limit n reset pool_init"
| Pool_step: "pool_reach limit n reset s \<Longrightarrow> pool_move limit n reset s s' \<Longrightarrow> pool_reach limit n reset s'"

section \<open>The counter is exact\<close>

fun serving :: "'j worker list \<Rightarrow> 'j list" where
  "serving [] = []"
| "serving (Serving j # ws) = j # serving ws"
| "serving (_ # ws) = serving ws"

text \<open>The connections in the acceptor's hands, and those of them that are counted.\<close>

fun held :: "'j acceptor \<Rightarrow> 'j list" where
  "held (Got j) = [j]"
| "held (Over j) = [j]"
| "held (Counted j) = [j]"
| "held (Late j) = [j]"
| "held _ = []"

fun counted :: "'j acceptor \<Rightarrow> nat" where
  "counted (Over j) = 1"
| "counted (Counted j) = 1"
| "counted (Late j) = 1"
| "counted _ = 0"

fun admitted :: "'j acceptor \<Rightarrow> nat" where
  "admitted (Counted j) = 1"
| "admitted (Late j) = 1"
| "admitted _ = 0"

definition in_flight :: "'j pool \<Rightarrow> nat" where
  "in_flight s = length (queue s) + length (serving (workers s))"

text \<open>The counter, and where each connection is.\<close>

definition pool_inv :: "u32 \<Rightarrow> nat \<Rightarrow> 'j pool \<Rightarrow> bool" where
  "pool_inv limit n s \<longleftrightarrow>
     outstanding s = of_nat (in_flight s + counted (acceptor s)) \<and>
     in_flight s + admitted (acceptor s) \<le> unat limit \<and> length (workers s) \<le> n \<and>
     mset (taken s) = mset (held (acceptor s)) + mset (queue s) + mset (serving (workers s)) +
       mset (served s) + mset (refused s) + mset (dropped s)"

text \<open>The phases of the server: which thread can still be where.\<close>

definition phase_inv :: "nat \<Rightarrow> 'j pool \<Rightarrow> bool" where
  "phase_inv n s \<longleftrightarrow>
     (case phase s of
        Up \<Rightarrow> running s \<and> acceptor s \<noteq> Acceptor_done \<and> length (workers s) = n \<and> Worker_done \<notin> set (workers s) \<and> listen_sock s = Listening
      | Shutting_down \<Rightarrow> \<not> running s \<and> listen_sock s = Listening
      | Joining_acceptor \<Rightarrow> \<not> running s \<and> listen_sock s = Shut_down
      | Notifying \<Rightarrow> \<not> running s \<and> listen_sock s = Closed \<and> queue s = [] \<and> acceptor s = Acceptor_done \<and> mutex_free s
      | Joining_workers \<Rightarrow> \<not> running s \<and> listen_sock s = Closed \<and> queue s = [] \<and> acceptor s = Acceptor_done \<and> mutex_free s \<and>
          Asleep \<notin> set (workers s)
      | Down \<Rightarrow> \<not> running s \<and> listen_sock s = Closed \<and> queue s = [] \<and> acceptor s = Acceptor_done \<and> workers s = [])"

text \<open>
  No wake-up is lost: while the server runs and a connection is queued, the acceptor is about to notify or a worker
  is on its way to the queue. A worker that is about to block has the mutex and has seen the queue empty.
\<close>

definition attentive :: "'j worker \<Rightarrow> bool" where
  "attentive w \<longleftrightarrow> (case w of Ready \<Rightarrow> True | Serving _ \<Rightarrow> True | _ \<Rightarrow> False)"

definition wakeup_inv :: "'j pool \<Rightarrow> bool" where
  "wakeup_inv s \<longleftrightarrow>
     (\<not> mutex_free s \<longrightarrow> queue s = []) \<and>
     (running s \<and> queue s \<noteq> [] \<longrightarrow> acceptor s = Queued \<or> (\<exists>w\<in>set (workers s). attentive w))"

lemma serving_append: "serving (xs @ ys) = serving xs @ serving ys"
  by (induction xs rule: serving.induct) auto

lemma serving_update:
  assumes "i < length ws"
  shows "mset (serving (ws[i := w])) + mset (serving [ws ! i]) = mset (serving ws) + mset (serving [w])"
proof -
  have "serving ws = serving (take i ws) @ serving [ws ! i] @ serving (drop (Suc i) ws)"
    by (metis (no_types, lifting) assms id_take_nth_drop serving_append append_Cons append_Nil)
  moreover have "serving (ws[i := w]) = serving (take i ws) @ serving [w] @ serving (drop (Suc i) ws)"
    using assms by (simp add: upd_conv_take_nth_drop serving_append [symmetric])
  ultimately show ?thesis by simp
qed

lemma serving_replicate [simp]: "serving (replicate n Ready) = []"
  by (induction n) auto

lemma serving_done [simp]: "set ws \<subseteq> {Worker_done} \<Longrightarrow> serving ws = []"
  by (induction ws) auto

lemma serving_woken [simp]: "serving (map woken ws) = serving ws"
  by (induction ws rule: serving.induct) auto

lemma serving_other:
  assumes "i < length ws" and "serving [ws ! i] = []" and "serving [w] = []"
  shows "mset (serving (ws[i := w])) = mset (serving ws)" and "length (serving (ws[i := w])) = length (serving ws)"
proof -
  show "mset (serving (ws[i := w])) = mset (serving ws)" using serving_update [OF assms(1), of w] assms(2,3) by simp
  then show "length (serving (ws[i := w])) = length (serving ws)" by (rule mset_eq_length)
qed

lemma serving_take:
  assumes "i < length ws" and "ws ! i = Ready"
  shows "mset (serving (ws[i := Serving j])) = add_mset j (mset (serving ws))"
  using serving_update [OF assms(1), of "Serving j"] assms(2) by simp

lemma serving_finish:
  assumes "i < length ws" and "ws ! i = Serving j"
  shows "mset (serving ws) = add_mset j (mset (serving (ws[i := Ready])))"
  using serving_update [OF assms(1), of Ready] assms(2) by simp

lemma mset_eq_lengthD: "mset xs = add_mset j (mset ys) \<Longrightarrow> length xs = Suc (length ys)"
  by (metis size_add_mset size_mset)

lemma pool_inv_count:
  assumes "pool_inv limit n s" and "acceptor s = Got j"
  shows "pool_inv limit n (pool_count limit j s) \<and>
    (acceptor (pool_count limit j s) = Over j \<longleftrightarrow> in_flight s = unat limit)"
proof -
  have out: "outstanding s = of_nat (in_flight s)" and le: "in_flight s \<le> unat limit"
    using assms by (simp_all add: pool_inv_def)
  have "unat limit < 2 ^ 32" using unsigned_less [of limit] by simp
  with le have "unat (outstanding s) = in_flight s" by (simp add: out unat_of_nat take_bit_nat_eq_self)
  then have "outstanding s \<ge> limit \<longleftrightarrow> in_flight s = unat limit" using le by (auto simp: word_le_nat_alt)
  with assms le out show ?thesis
    by (auto simp: pool_inv_def pool_count_def in_flight_def Let_def)
qed

text \<open>A worker moves between places where it serves nothing.\<close>

lemma pool_inv_idle:
  assumes "pool_inv limit n s" and "i < length (workers s)" and "serving [workers s ! i] = []" and "serving [w] = []"
  shows "pool_inv limit n (s\<lparr>workers := (workers s)[i := w]\<rparr>)"
  using assms(1) serving_other [OF assms(2-4)] by (simp add: pool_inv_def in_flight_def)

lemma pool_inv_take:
  assumes "pool_inv limit n s" and "i < length (workers s)" and "workers s ! i = Ready"
  shows "pool_inv limit n (pool_take i s)"
proof (cases "\<not> running s \<or> queue s = []")
  case True
  with pool_inv_idle [OF assms(1,2)] assms(3) show ?thesis by (simp add: pool_take_def)
next
  case False
  then obtain j q where q: "queue s = j # q" by (cases "queue s") auto
  have m: "mset (serving ((workers s)[i := Serving j])) = add_mset j (mset (serving (workers s)))"
    using assms(2,3) by (rule serving_take)
  from mset_eq_lengthD [OF this] m assms False q show ?thesis
    by (auto simp: pool_inv_def pool_take_def in_flight_def)
qed

lemma pool_inv_finish:
  assumes "pool_inv limit n s" and "i < length (workers s)" and "workers s ! i = Serving j"
  shows "pool_inv limit n (pool_finish i j s)"
proof -
  have m: "mset (serving (workers s)) = add_mset j (mset (serving ((workers s)[i := Ready])))"
    using assms(2,3) by (rule serving_finish)
  from mset_eq_lengthD [OF this] m assms(1,2) show ?thesis
    by (auto simp: pool_inv_def pool_finish_def in_flight_def)
qed

lemma pool_inv_acceptor:
  assumes "pool_inv limit n s" and "held a = held (acceptor s)" "counted a = counted (acceptor s)" "admitted a = admitted (acceptor s)"
  shows "pool_inv limit n (s\<lparr>acceptor := a\<rparr>)"
  using assms by (simp add: pool_inv_def in_flight_def)

lemma pool_inv_notify:
  assumes "notify_one s s1" and "pool_inv limit n s"
  shows "pool_inv limit n s1" "acceptor s1 = acceptor s"
  using assms by (auto elim!: notify_one.cases simp: wake_def pool_inv_idle)

lemma pool_inv_step:
  assumes "pool_step limit n reset s s'" and inv: "pool_inv limit n s" and "phase_inv n s"
  shows "pool_inv limit n s'"
  using assms(1)
proof cases
  case (Count j)
  then show ?thesis using pool_inv_count [OF inv] by simp
next
  case (Take i)
  with inv show ?thesis by (simp add: pool_inv_take)
next
  case (Suspend i)
  with inv show ?thesis by (simp add: pool_suspend_def pool_inv_idle)
next
  case (Finish i j)
  with inv show ?thesis by (simp add: pool_inv_finish)
next
  case (Notify_one s1)
  with pool_inv_notify [OF Notify_one(3) inv] show ?thesis by (auto intro: pool_inv_acceptor)
next
  case Start
  with inv assms(3) show ?thesis by (simp add: pool_inv_def phase_inv_def pool_start_def in_flight_def)
next
  case Loop
  with inv show ?thesis by (auto intro: pool_inv_acceptor)
next
  case Accept_shut
  with inv show ?thesis by (auto intro: pool_inv_acceptor)
next
  case (Refuse j)
  with inv show ?thesis by (simp add: pool_inv_def pool_refuse_def in_flight_def)
next
  case (Push j)
  with inv show ?thesis by (simp add: pool_inv_def pool_push_def in_flight_def)
next
  case (Uncount j)
  with inv show ?thesis by (simp add: pool_inv_def pool_uncount_def in_flight_def)
next
  case Clear
  with inv show ?thesis by (auto simp: pool_inv_def pool_clear_def in_flight_def)
next
  case Stopped
  with inv assms(3) show ?thesis by (simp add: pool_inv_def phase_inv_def pool_down_def in_flight_def)
qed (use inv in \<open>simp_all add: pool_inv_def pool_stop_def pool_shutdown_def pool_notify_all_def in_flight_def\<close>)

lemma pool_inv_event:
  assumes "pool_event s s'" and inv: "pool_inv limit n s"
  shows "pool_inv limit n s'"
  using assms(1)
proof cases
  case (Spurious i)
  with inv show ?thesis by (simp add: wake_def pool_inv_idle)
qed (use inv in \<open>simp_all add: pool_inv_def in_flight_def\<close>)

section \<open>The phases\<close>

lemma set_updateD: "x \<in> set (xs[i := y]) \<Longrightarrow> x = y \<or> x \<in> set xs"
  using set_update_subset_insert [of xs i y] by blast

lemma woken_asleep [simp]: "woken w \<noteq> Asleep" "Asleep \<noteq> woken w"
  by (cases w; simp)+

lemma woken_suspending [simp]: "woken w = Suspending \<longleftrightarrow> w = Suspending" "Suspending = woken w \<longleftrightarrow> w = Suspending"
  by (cases w; auto)+

lemma woken_done [simp]: "woken w = Worker_done \<longleftrightarrow> w = Worker_done" "Worker_done = woken w \<longleftrightarrow> w = Worker_done"
  by (cases w; auto)+

lemma phase_inv_running: "phase_inv n s \<Longrightarrow> running s \<longleftrightarrow> phase s = Up"
  by (auto simp: phase_inv_def split: stop_phase.splits)

lemma phase_inv_worker:
  assumes "phase_inv n s" and "i < length (workers s)"
    and "w = Suspending \<longrightarrow> running s" and "w = Worker_done \<longrightarrow> \<not> running s" and "w = Asleep \<longrightarrow> phase s \<noteq> Joining_workers"
  shows "phase_inv n (s\<lparr>workers := (workers s)[i := w]\<rparr>)"
  using assms by (cases "phase s") (auto simp: phase_inv_def mutex_free_def dest!: set_updateD)

lemma phase_inv_same:
  assumes "phase_inv n s" and "phase s' = phase s" "running s' = running s" "workers s' = workers s" "listen_sock s' = listen_sock s"
    and "acceptor s' = acceptor s \<or> acceptor s \<noteq> Acceptor_done \<and> (acceptor s' = Acceptor_done \<longrightarrow> \<not> running s)"
    and "queue s' = queue s \<or> running s"
  shows "phase_inv n s'"
  using assms by (cases "phase s") (auto simp: phase_inv_def mutex_free_def)

lemma phase_inv_step:
  assumes "pool_step limit n reset s s'" and inv: "phase_inv n s"
  shows "phase_inv n s'"
  using assms(1)
proof cases
  case (Take i)
  show ?thesis
  proof (cases "running s \<and> queue s \<noteq> []")
    case True
    have "phase_inv n (s\<lparr>workers := (workers s)[i := Serving (hd (queue s))]\<rparr>)" using inv Take by (intro phase_inv_worker) simp_all
    from phase_inv_same [OF this, of s'] True Take show ?thesis by (simp add: pool_take_def)
  next
    case False
    with Take inv show ?thesis by (auto simp: pool_take_def intro!: phase_inv_worker)
  qed
next
  case (Suspend i)
  then have "Suspending \<in> set (workers s)" by (metis nth_mem)
  then have "phase s \<noteq> Joining_workers" using inv by (auto simp: phase_inv_def mutex_free_def)
  with Suspend inv show ?thesis by (simp add: pool_suspend_def phase_inv_worker)
next
  case (Finish i j)
  then have "phase_inv n (s\<lparr>workers := (workers s)[i := Ready]\<rparr>)" using inv by (intro phase_inv_worker) simp_all
  from phase_inv_same [OF this, of s'] Finish show ?thesis by (simp add: pool_finish_def)
next
  case (Notify_one s1)
  have "phase_inv n s1 \<and> acceptor s1 = Queued \<and> phase s1 = phase s"
    using Notify_one(3) inv Notify_one(2) by cases (auto simp: wake_def intro!: phase_inv_worker)
  with phase_inv_same [of n s1 s'] Notify_one show ?thesis by simp
next
  case Start
  with inv show ?thesis by (auto simp: phase_inv_def pool_start_def)
next
  case Stop
  with inv show ?thesis by (simp add: phase_inv_def pool_stop_def)
next
  case Shutdown
  with inv show ?thesis by (simp add: phase_inv_def pool_shutdown_def)
next
  case Clear
  with inv show ?thesis by (simp add: phase_inv_def pool_clear_def mutex_free_def)
next
  case Notify_all
  with inv show ?thesis by (auto simp: phase_inv_def pool_notify_all_def mutex_free_def)
next
  case Stopped
  with inv show ?thesis by (simp add: phase_inv_def pool_down_def)
qed (rule phase_inv_same [OF inv]; simp add: pool_count_def pool_refuse_def pool_push_def pool_uncount_def Let_def)+

lemma phase_inv_event:
  assumes "pool_event s s'" and inv: "phase_inv n s"
  shows "phase_inv n s'"
  using assms(1)
proof cases
  case (Spurious i)
  with inv show ?thesis by (simp add: wake_def phase_inv_worker)
qed (rule phase_inv_same [OF inv]; simp)+

section \<open>No wake-up is lost\<close>

lemma attentive_simps [simp]: "attentive Ready" "attentive (Serving j)" "\<not> attentive Asleep" "\<not> attentive Suspending" "\<not> attentive Worker_done"
  by (simp_all add: attentive_def)

lemma attentive_update:
  assumes "\<exists>v\<in>set ws. attentive v" and "i < length ws" and "attentive w \<or> \<not> attentive (ws ! i)"
  shows "\<exists>v\<in>set (ws[i := w]). attentive v"
  using assms by (metis in_set_conv_nth length_list_update nth_list_update)

lemma wakeup_inv_worker:
  assumes "wakeup_inv s" and "i < length (workers s)" and "w = Suspending \<longrightarrow> queue s = []"
    and "attentive w \<or> \<not> attentive (workers s ! i) \<or> queue s = [] \<or> \<not> running s"
  shows "wakeup_inv (s\<lparr>workers := (workers s)[i := w]\<rparr>)"
proof -
  have "Suspending \<in> set ((workers s)[i := w]) \<Longrightarrow> w = Suspending \<or> Suspending \<in> set (workers s)" by (auto dest: set_updateD)
  with assms attentive_update [OF _ assms(2), of w] show ?thesis by (simp add: wakeup_inv_def mutex_free_def) blast
qed

lemma all_attentive:
  assumes "0 < n" and "phase_inv n s" and "mutex_free s" and "running s" and "Asleep \<notin> set (workers s)"
  shows "\<exists>w\<in>set (workers s). attentive w"
proof -
  have up: "length (workers s) = n" "Worker_done \<notin> set (workers s)"
    using phase_inv_running [OF assms(2)] assms(2,4) by (simp_all add: phase_inv_def)
  then obtain w ws where w: "workers s = w # ws" using assms(1) by (cases "workers s") auto
  then have "w \<noteq> Worker_done" "w \<noteq> Suspending" "w \<noteq> Asleep" using up(2) assms(3,5) by (auto simp: mutex_free_def)
  then have "attentive w" by (cases w) simp_all
  with w show ?thesis by simp
qed

lemma wakeup_inv_notify:
  assumes "notify_one s s1" and inv: "wakeup_inv s" and phase: "phase_inv n s" and "0 < n"
  shows "wakeup_inv (s1\<lparr>acceptor := a\<rparr>)"
  using assms(1)
proof cases
  case (Wakes i)
  then have "Ready \<in> set (workers s1)" by (auto simp: wake_def set_update_memI)
  then have "\<exists>w\<in>set (workers s1). attentive w" using attentive_simps(1) by blast
  moreover have "wakeup_inv s1" using Wakes wakeup_inv_worker [OF inv Wakes(2), of Ready] by (simp add: wake_def)
  ultimately show ?thesis by (simp add: wakeup_inv_def mutex_free_def)
next
  case Wakes_none
  with all_attentive [OF assms(4) phase] inv show ?thesis by (auto simp: wakeup_inv_def mutex_free_def)
qed

lemma wakeup_inv_step:
  assumes "pool_step limit n reset s s'" and inv: "wakeup_inv s" and phase: "phase_inv n s" and n: "0 < n"
  shows "wakeup_inv s'"
  using assms(1)
proof cases
  case (Take i)
  show ?thesis
  proof (cases "\<not> running s \<or> queue s = []")
    case True
    define w :: "'a worker" where "w = (if running s then Suspending else Worker_done)"
    have "s' = s\<lparr>workers := (workers s)[i := w]\<rparr>" using Take(1) True by (simp add: pool_take_def w_def)
    moreover have "w = Suspending \<longrightarrow> queue s = []" "queue s = [] \<or> \<not> running s" using True by (auto simp: w_def)
    ultimately show ?thesis using wakeup_inv_worker [OF inv Take(2)] by blast
  next
    case False
    let ?w = "Serving (hd (queue s))"
    have "\<exists>w\<in>set ((workers s)[i := ?w]). attentive w"
      by (rule bexI [where x = ?w]) (use set_update_memI [OF Take(2)] in simp_all)
    moreover have "Suspending \<notin> set ((workers s)[i := ?w])"
      using Take(4) set_updateD [of Suspending "workers s" i ?w] by (auto simp: mutex_free_def)
    ultimately show ?thesis using Take False by (simp add: wakeup_inv_def pool_take_def mutex_free_def)
  qed
next
  case (Suspend i)
  with inv show ?thesis by (simp add: pool_suspend_def wakeup_inv_worker)
next
  case (Finish i j)
  with wakeup_inv_worker [OF inv Finish(2), of Ready] show ?thesis by (simp add: pool_finish_def wakeup_inv_def mutex_free_def)
next
  case (Notify_one s1)
  with wakeup_inv_notify [OF _ inv phase n] show ?thesis by simp
next
  case Notify_all
  with phase show ?thesis by (auto simp: wakeup_inv_def phase_inv_def pool_notify_all_def)
qed (use inv phase in \<open>auto simp: wakeup_inv_def phase_inv_def mutex_free_def pool_start_def pool_count_def pool_refuse_def pool_push_def
    pool_uncount_def pool_stop_def pool_shutdown_def pool_clear_def pool_down_def Let_def\<close>)

lemma wakeup_inv_event:
  assumes "pool_event s s'" and inv: "wakeup_inv s"
  shows "wakeup_inv s'"
  using assms(1)
proof cases
  case (Spurious i)
  with inv show ?thesis by (simp add: wake_def wakeup_inv_worker)
qed (use inv in \<open>auto simp: wakeup_inv_def mutex_free_def\<close>)

lemma pool_reach_inv: "pool_reach limit n reset s \<Longrightarrow> pool_inv limit n s \<and> phase_inv n s \<and> (0 < n \<longrightarrow> wakeup_inv s)"
proof (induction rule: pool_reach.induct)
  case Pool_init
  then show ?case by (simp add: pool_inv_def phase_inv_def wakeup_inv_def mutex_free_def pool_init_def in_flight_def)
next
  case (Pool_step s s')
  then show ?case
    using pool_inv_step phase_inv_step wakeup_inv_step pool_inv_event phase_inv_event wakeup_inv_event
    unfolding pool_move_def by metis
qed

text \<open>\<^verbatim>\<open>stop\<close> returns only behind its joins.\<close>

lemma joined_before_down:
  assumes "pool_move limit n reset s0 s" and "phase s = Down" and "phase s0 \<noteq> Down" and "phase_inv n s0"
  shows "set (workers s0) \<subseteq> {Worker_done} \<and> acceptor s0 = Acceptor_done"
proof -
  have "pool_step limit n reset s0 s"
    using assms(1-3) by (auto simp: pool_move_def wake_def elim!: pool_event.cases)
  then show ?thesis
  proof cases
    case (Notify_one s1)
    from Notify_one(3) assms(2,3) Notify_one(1) show ?thesis by cases (simp_all add: wake_def)
  qed (use assms(2-4) in \<open>auto simp: phase_inv_def pool_start_def pool_count_def pool_refuse_def pool_push_def pool_uncount_def pool_take_def
      pool_suspend_def pool_finish_def pool_stop_def pool_shutdown_def pool_clear_def pool_notify_all_def Let_def split: if_splits\<close>)
qed

lemma serving_length: "length (serving ws) \<le> length ws"
  by (induction ws rule: serving.induct) auto

text \<open>
  C23. The connection limit holds in every interleaving (\<^verbatim>\<open>accept_loop\<close>, \<^verbatim>\<open>worker_loop\<close>, \<^verbatim>\<open>stop\<close> of both
  servers): at most \<^verbatim>\<open>max_connections\<close> connections are queued or being served, at most one per
  worker is being served; a new connection is counted over the limit exactly if that many are
  in flight at that moment; and every connection that was accepted is in exactly one
  place: with the acceptor, queued, being served, served, refused or dropped.
\<close>

theorem pool_bounded:
  assumes "pool_reach limit n reset s"
  shows "in_flight s \<le> unat limit \<and> length (serving (workers s)) \<le> n \<and>
    (\<forall>j. acceptor s = Got j \<longrightarrow> (acceptor (pool_count limit j s) = Over j \<longleftrightarrow> in_flight s = unat limit)) \<and>
    mset (taken s) = mset (held (acceptor s)) + mset (queue s) + mset (serving (workers s)) +
      mset (served s) + mset (refused s) + mset (dropped s)"
proof -
  have inv: "pool_inv limit n s" using pool_reach_inv [OF assms] by simp
  then have "length (serving (workers s)) \<le> n"
    using serving_length [of "workers s"] by (simp add: pool_inv_def)
  with inv pool_inv_count [OF inv] show ?thesis by (simp add: pool_inv_def)
qed

text \<open>
  C24. A stopped server holds nothing and runs nothing (\<^verbatim>\<open>stop\<close> of both servers): when the last join is done every worker has
  returned; and once \<^verbatim>\<open>stop\<close> has returned, the accepting thread has finished, no worker thread exists, the flag
  is clear and the listening socket closed, no connection is queued or being served, each accepted connection was served,
  refused or dropped, and the counter is 0, also in the peer server, which never stores 0, so that a later \<^verbatim>\<open>start\<close> has
  its full capacity.
\<close>

theorem pool_stopped:
  assumes "pool_reach limit n reset s" and "phase s = Down"
  shows "acceptor s = Acceptor_done \<and> workers s = [] \<and> \<not> running s \<and> listen_sock s = Closed \<and>
    outstanding s = 0 \<and> queue s = [] \<and> in_flight s = 0 \<and>
    mset (taken s) = mset (served s) + mset (refused s) + mset (dropped s) \<and>
    (\<forall>s0. pool_reach limit n reset s0 \<and> phase s0 \<noteq> Down \<and> pool_move limit n reset s0 s \<longrightarrow>
       set (workers s0) \<subseteq> {Worker_done} \<and> acceptor s0 = Acceptor_done)"
proof -
  have inv: "pool_inv limit n s" "phase_inv n s" using pool_reach_inv [OF assms(1)] by simp_all
  have "set (workers s0) \<subseteq> {Worker_done} \<and> acceptor s0 = Acceptor_done"
    if "pool_reach limit n reset s0" "phase s0 \<noteq> Down" "pool_move limit n reset s0 s" for s0
    using joined_before_down that assms(2) pool_reach_inv [OF that(1)] by blast
  with inv assms(2) show ?thesis by (auto simp: pool_inv_def phase_inv_def in_flight_def)
qed

section \<open>Stopping comes to an end\<close>

fun acceptor_rank :: "'j acceptor \<Rightarrow> nat" where
  "acceptor_rank Accepting = 5"
| "acceptor_rank (Got j) = 4"
| "acceptor_rank (Counted j) = 3"
| "acceptor_rank (Over j) = 2"
| "acceptor_rank (Late j) = 2"
| "acceptor_rank Queued = 2"
| "acceptor_rank At_loop = 1"
| "acceptor_rank Acceptor_done = 0"

fun worker_rank :: "'j worker \<Rightarrow> nat" where
  "worker_rank (Serving j) = 4"
| "worker_rank Suspending = 3"
| "worker_rank Asleep = 2"
| "worker_rank Ready = 1"
| "worker_rank Worker_done = 0"

fun phase_rank :: "stop_phase \<Rightarrow> nat" where
  "phase_rank Up = 5"
| "phase_rank Shutting_down = 4"
| "phase_rank Joining_acceptor = 3"
| "phase_rank Notifying = 2"
| "phase_rank Joining_workers = 1"
| "phase_rank Down = 0"

definition stop_measure :: "'j pool \<Rightarrow> nat" where
  "stop_measure s = acceptor_rank (acceptor s) + sum_list (map worker_rank (workers s)) + phase_rank (phase s)"

lemma stop_measure_bound:
  assumes "\<not> running s" and "phase_inv n s" and "length (workers s) \<le> n"
  shows "stop_measure s \<le> 4 * n + 9"
proof -
  have "sum_list (map worker_rank ws) \<le> 4 * length ws" for ws :: "'a worker list"
  proof (induction ws)
    case (Cons w ws)
    then show ?case by (cases w) auto
  qed simp
  from this [of "workers s"] assms(3) have "sum_list (map worker_rank (workers s)) \<le> 4 * n" by simp
  moreover have "acceptor_rank (acceptor s) \<le> 5" by (cases "acceptor s") auto
  moreover have "phase_rank (phase s) \<le> 4" using assms(1,2) by (cases "phase s") (auto simp: phase_inv_def)
  ultimately show ?thesis by (simp add: stop_measure_def)
qed

lemma sum_rank_update:
  assumes "i < length ws" and "worker_rank w < worker_rank (ws ! i)"
  shows "sum_list (map worker_rank (ws[i := w])) < sum_list (map worker_rank ws)"
proof -
  have "sum_list (map worker_rank ws) =
      sum_list (map worker_rank (take i ws)) + worker_rank (ws ! i) + sum_list (map worker_rank (drop (Suc i) ws))"
    by (metis (no_types, lifting) assms(1) add.assoc id_take_nth_drop list.simps(9) map_append
        sum_list.Cons sum_list_append)
  moreover have "sum_list (map worker_rank (ws[i := w])) =
      sum_list (map worker_rank (take i ws)) + worker_rank w + sum_list (map worker_rank (drop (Suc i) ws))"
    using assms(1) by (simp add: upd_conv_take_nth_drop)
  ultimately show ?thesis using assms(2) by simp
qed

lemma sum_rank_woken: "sum_list (map worker_rank (map woken ws)) \<le> sum_list (map worker_rank ws)"
proof (induction ws)
  case (Cons w ws)
  then show ?case by (cases w) auto
qed simp

lemma stop_decreases_step:
  assumes "pool_step limit n reset s s'" and off: "\<not> running s" "phase s \<noteq> Down"
  shows "stop_measure s' < stop_measure s \<and> \<not> running s'"
  using assms(1)
proof cases
  case (Take i)
  with sum_rank_update [OF Take(2), of Worker_done] off show ?thesis by (simp add: stop_measure_def pool_take_def)
next
  case (Suspend i)
  with sum_rank_update [OF Suspend(2), of Asleep] off show ?thesis by (simp add: stop_measure_def pool_suspend_def)
next
  case (Finish i j)
  with sum_rank_update [OF Finish(2), of Ready] off show ?thesis by (simp add: stop_measure_def pool_finish_def)
next
  case (Notify_one s1)
  from Notify_one(3) show ?thesis
  proof cases
    case (Wakes i)
    with sum_rank_update [OF Wakes(2), of Ready] Notify_one off show ?thesis by (simp add: stop_measure_def wake_def)
  qed (use Notify_one off in \<open>simp add: stop_measure_def\<close>)
next
  case Notify_all
  with sum_rank_woken [of "workers s"] off show ?thesis by (simp add: stop_measure_def pool_notify_all_def)
next
  case (Count j)
  with off show ?thesis by (simp add: stop_measure_def pool_count_def Let_def)
next
  case Stopped
  with off show ?thesis by (simp add: stop_measure_def pool_down_def)
qed (use off in \<open>simp_all add: stop_measure_def pool_refuse_def pool_push_def pool_uncount_def pool_shutdown_def pool_clear_def\<close>)

lemma stop_decreases_event:
  assumes "pool_event s s'" and off: "\<not> running s"
  shows "stop_measure s' < stop_measure s \<and> \<not> running s'"
  using assms(1)
proof cases
  case (Spurious i)
  with sum_rank_update [OF Spurious(2), of Ready] off show ?thesis by (simp add: stop_measure_def wake_def)
qed (use off in \<open>simp_all add: stop_measure_def\<close>)

text \<open>A thread that holds the mutex, or could have it, has a step.\<close>

lemma suspending_step: "\<not> mutex_free s \<Longrightarrow> \<exists>s'. pool_step limit n reset s s'"
  unfolding mutex_free_def by (metis in_set_conv_nth pool_step.Suspend)

lemma pool_acceptor_step:
  assumes "acceptor s \<noteq> Acceptor_done" and "acceptor s = Accepting \<longrightarrow> listen_sock s = Shut_down"
  shows "\<exists>s'. pool_step limit n reset s s'"
proof (cases "mutex_free s")
  case False
  then show ?thesis by (rule suspending_step)
next
  case True
  have "\<exists>s1. notify_one s s1"
    by (metis in_set_conv_nth notify_one.Wakes notify_one.Wakes_none)
  with True assms show ?thesis by (cases "acceptor s") (auto intro: pool_step.intros)
qed

lemma pool_worker_step:
  assumes "i < length (workers s)" and "workers s ! i \<noteq> Worker_done" and "workers s ! i \<noteq> Asleep"
  shows "\<exists>s'. pool_step limit n reset s s'"
proof (cases "mutex_free s")
  case False
  then show ?thesis by (rule suspending_step)
next
  case True
  with assms show ?thesis by (cases "workers s ! i") (auto intro: pool_step.intros)
qed

lemma stop_progress:
  assumes inv: "phase_inv n s" and "\<not> running s" and "phase s \<noteq> Down"
  shows "\<exists>s'. pool_step limit n reset s s'"
proof (cases "phase s")
  case Joining_acceptor
  show ?thesis
  proof (cases "acceptor s = Acceptor_done \<and> mutex_free s")
    case True
    with Joining_acceptor show ?thesis by (auto intro: pool_step.Clear)
  next
    case False
    with Joining_acceptor inv show ?thesis using suspending_step pool_acceptor_step by (fastforce simp: phase_inv_def)
  qed
next
  case Joining_workers
  show ?thesis
  proof (cases "set (workers s) \<subseteq> {Worker_done}")
    case True
    with Joining_workers show ?thesis by (auto intro: pool_step.Stopped)
  next
    case False
    then obtain i where "i < length (workers s)" "workers s ! i \<noteq> Worker_done"
      by (metis in_set_conv_nth insertI1 subsetI)
    moreover have "Asleep \<notin> set (workers s)" using inv Joining_workers by (simp add: phase_inv_def)
    ultimately show ?thesis by (intro pool_worker_step) (auto dest: nth_mem)
  qed
qed (use assms in \<open>auto simp: phase_inv_def intro: pool_step.Shutdown pool_step.Notify_all\<close>)

text \<open>
  C25. No thread is left blocked (\<^verbatim>\<open>stop\<close>, \<^verbatim>\<open>accept_loop\<close> and \<^verbatim>\<open>worker_loop\<close> of both servers, with the condition variable and
  the shutdown of the listening socket). From the moment \<^verbatim>\<open>stop\<close> clears the flag until it returns, some thread can take a step
  by itself, without a connection arriving, an error or a spurious wake-up; and every step and every such event brings the
  threads closer to the end by a measure that is at most \<open>4 * n + 9\<close> for \<open>n\<close> workers. So no interleaving deadlocks or runs on. A
  worker that tested the flag just before it was cleared cannot miss \<^verbatim>\<open>notify_all\<close>, because \<^verbatim>\<open>stop\<close> passes through the
  mutex in between. And while the server runs, a connection is never queued with all workers blocked, unless the acceptor is about
  to call \<^verbatim>\<open>notify_one\<close>.
\<close>

theorem pool_stop_terminates:
  assumes "pool_reach limit n reset s" and "0 < n"
  shows "(\<not> running s \<and> phase s \<noteq> Down \<longrightarrow>
      (\<exists>s'. pool_step limit n reset s s') \<and> stop_measure s \<le> 4 * n + 9 \<and>
      (\<forall>s'. pool_move limit n reset s s' \<longrightarrow> stop_measure s' < stop_measure s \<and> \<not> running s')) \<and>
    (running s \<and> queue s \<noteq> [] \<longrightarrow>
      acceptor s = Queued \<or> (\<exists>w\<in>set (workers s). w = Ready \<or> (\<exists>j. w = Serving j)))"
proof -
  have inv: "pool_inv limit n s" "phase_inv n s" "wakeup_inv s" using pool_reach_inv [OF assms(1)] assms(2) by simp_all
  have "w = Ready \<or> (\<exists>j. w = Serving j)" if "attentive w" for w :: "'a worker" using that by (cases w) simp_all
  with inv(3) have "running s \<and> queue s \<noteq> [] \<longrightarrow>
      acceptor s = Queued \<or> (\<exists>w\<in>set (workers s). w = Ready \<or> (\<exists>j. w = Serving j))"
    unfolding wakeup_inv_def by metis
  moreover have "stop_measure s \<le> 4 * n + 9" if "\<not> running s"
    using stop_measure_bound [OF that inv(2)] inv(1) by (simp add: pool_inv_def)
  ultimately show ?thesis
    using stop_progress [OF inv(2)] stop_decreases_step stop_decreases_event unfolding pool_move_def by metis
qed

section \<open>A concrete run\<close>

text \<open>One worker that has gone to sleep, a limit of one, a connection that is queued when the server stops.\<close>

definition sample_pool :: "bool \<Rightarrow> u32 \<Rightarrow> nat acceptor \<Rightarrow> nat list \<Rightarrow> nat worker \<Rightarrow> stop_phase \<Rightarrow> listen_state \<Rightarrow> nat list \<Rightarrow> nat list \<Rightarrow> nat pool" where
  "sample_pool r out a q w ph l tk dr =
     \<lparr>running = r, outstanding = out, acceptor = a, queue = q, workers = [w], phase = ph, listen_sock = l,
      taken = tk, served = [], refused = [], dropped = dr\<rparr>"

lemma sample_pool_step: "pool_reach 1 1 False s \<Longrightarrow> pool_step 1 1 False s s' \<Longrightarrow> pool_reach 1 1 False s'"
  by (auto intro: pool_reach.Pool_step simp: pool_move_def)

lemma sample_idle: "pool_reach 1 1 False (sample_pool True 0 Accepting [] Asleep Up Listening [] [])"
proof -
  let ?s = "\<lambda>a w. sample_pool True 0 a [] w Up Listening [] []"
  note go = sample_pool_step
  have 0: "pool_reach 1 1 False (?s At_loop Ready)"
    using go [OF pool_reach.Pool_init pool_step.Start] by (simp add: sample_pool_def pool_init_def pool_start_def)
  have 1: "pool_reach 1 1 False (?s Accepting Ready)"
    using go [OF 0 pool_step.Loop] by (simp add: sample_pool_def)
  have 2: "pool_reach 1 1 False (?s Accepting Suspending)"
    using go [OF 1 pool_step.Take [where i = 0]] by (simp add: sample_pool_def pool_take_def mutex_free_def)
  show ?thesis
    using go [OF 2 pool_step.Suspend [where i = 0]] by (simp add: sample_pool_def pool_suspend_def)
qed

lemma sample_queued: "pool_reach 1 1 False (sample_pool True 1 Queued [7] Asleep Up Listening [7] [])"
proof -
  let ?s = "\<lambda>out a tk. sample_pool True out a [] Asleep Up Listening tk []"
  have 1: "pool_reach 1 1 False (?s 0 (Got 7) [7])"
    using pool_reach.Pool_step [OF sample_idle, of "?s 0 (Got 7) [7]"] pool_event.Accept [of "?s 0 Accepting []" 7]
    by (simp add: sample_pool_def pool_move_def)
  have 2: "pool_reach 1 1 False (?s 1 (Counted 7) [7])"
    using sample_pool_step [OF 1 pool_step.Count [where j = 7]] by (simp add: sample_pool_def pool_count_def)
  show ?thesis
    using sample_pool_step [OF 2 pool_step.Push [where j = 7]] by (simp add: sample_pool_def pool_push_def mutex_free_def)
qed

text \<open>The idle server is stopped: \<^verbatim>\<open>accept\<close> returns because of the shutdown, and \<^verbatim>\<open>notify_all\<close> is about to wake the worker.\<close>

definition sample_stopping :: "nat pool" where
  "sample_stopping = sample_pool False 0 Acceptor_done [] Asleep Notifying Closed [] []"

lemma sample_stopping_reach: "pool_reach 1 1 False sample_stopping"
proof -
  let ?s = "\<lambda>a ph l. sample_pool False 0 a [] Asleep ph l [] []"
  note go = sample_pool_step
  have 1: "pool_reach 1 1 False (?s Accepting Shutting_down Listening)"
    using go [OF sample_idle pool_step.Stop] by (simp add: sample_pool_def pool_stop_def)
  have 2: "pool_reach 1 1 False (?s Accepting Joining_acceptor Shut_down)"
    using go [OF 1 pool_step.Shutdown] by (simp add: sample_pool_def pool_shutdown_def)
  have 3: "pool_reach 1 1 False (?s At_loop Joining_acceptor Shut_down)"
    using go [OF 2 pool_step.Accept_shut] by (simp add: sample_pool_def)
  have 4: "pool_reach 1 1 False (?s Acceptor_done Joining_acceptor Shut_down)"
    using go [OF 3 pool_step.Loop] by (simp add: sample_pool_def)
  show ?thesis
    using go [OF 4 pool_step.Clear] by (simp add: sample_stopping_def sample_pool_def pool_clear_def mutex_free_def)
qed

theorem pool_bounded_witness:
  "in_flight (sample_pool True 1 Queued [7] Asleep Up Listening [7] []) \<le> unat (1 :: u32)"
  using pool_bounded [OF sample_queued] by simp

theorem pool_stop_terminates_witness:
  "(\<exists>s'. pool_step 1 1 False sample_stopping s') \<and> stop_measure sample_stopping \<le> 13 \<and>
   acceptor (sample_pool True 1 Queued [7] Asleep Up Listening [7] []) = Queued"
  using pool_stop_terminates [OF sample_stopping_reach] pool_stop_terminates [OF sample_queued]
  by (simp add: sample_stopping_def sample_pool_def)

text \<open>The server is stopped with a connection in its queue.\<close>

lemma sample_stopped: "\<exists>s :: nat pool. pool_reach 1 1 False s \<and> phase s = Down \<and> taken s = [7] \<and> dropped s = [7]"
proof -
  let ?s = "\<lambda>a w ph l. sample_pool False 1 a [7] w ph l [7] []" and ?t = "\<lambda>ph. sample_pool False 0 Acceptor_done [] Worker_done ph Closed [7] [7]"
  note go = sample_pool_step
  have 1: "pool_reach 1 1 False (?s Queued Asleep Shutting_down Listening)"
    using go [OF sample_queued pool_step.Stop] by (simp add: sample_pool_def pool_stop_def)
  have 2: "pool_reach 1 1 False (?s Queued Asleep Joining_acceptor Shut_down)"
    using go [OF 1 pool_step.Shutdown] by (simp add: sample_pool_def pool_shutdown_def)
  have 3: "pool_reach 1 1 False (?s At_loop Ready Joining_acceptor Shut_down)"
    using go [OF 2 pool_step.Notify_one [OF _ notify_one.Wakes [where i = 0]]] by (simp add: sample_pool_def wake_def)
  have 4: "pool_reach 1 1 False (?s Acceptor_done Ready Joining_acceptor Shut_down)"
    using go [OF 3 pool_step.Loop] by (simp add: sample_pool_def)
  have 5: "pool_reach 1 1 False (?s Acceptor_done Worker_done Joining_acceptor Shut_down)"
    using go [OF 4 pool_step.Take [where i = 0]] by (simp add: sample_pool_def pool_take_def mutex_free_def)
  have 6: "pool_reach 1 1 False (?t Notifying)"
    using go [OF 5 pool_step.Clear] by (simp add: sample_pool_def pool_clear_def mutex_free_def)
  have 7: "pool_reach 1 1 False (?t Joining_workers)"
    using go [OF 6 pool_step.Notify_all] by (simp add: sample_pool_def pool_notify_all_def)
  have "pool_reach 1 1 False (pool_down False (?t Joining_workers))"
    using go [OF 7 pool_step.Stopped] by (simp add: sample_pool_def)
  then show ?thesis by (intro exI conjI) (assumption, simp_all add: sample_pool_def pool_down_def)
qed

theorem pool_stopped_witness:
  "\<exists>s :: nat pool. pool_reach 1 1 False s \<and> taken s = [7] \<and> outstanding s = 0 \<and> workers s = [] \<and> acceptor s = Acceptor_done"
  using sample_stopped pool_stopped by blast

end
