(* ===== verification/Peer_Server.thy ===== *)
theory Peer_Server
  imports Manifest Tracker Connection_Pool
begin

text \<open>
  The component \<^verbatim>\<open>src/peer_server.cpp\<close>: serving verified chunks of one file. The threads of the
  server are the steps of \<open>Connection_Pool\<close>; this theory has the constructor, the availability
  check and the handling of one connection.
\<close>

section \<open>Definitions\<close>

record peer_server_config =
  ps_manifest :: manifest
  ps_file_path :: path
  ps_token :: string
  ps_port :: u16
  ps_bind_address :: string
  ps_max_connections :: u32
  ps_has_chunk :: "(u32 \<Rightarrow> bool result) option"

definition peer_server_new :: "peer_server_config \<Rightarrow> peer_server_config result" where
  "peer_server_new config =
     rbind (manifest_validate (ps_manifest config)) (\<lambda>_.
     if ps_file_path config = [] \<or> ps_token config = [] \<or> ps_bind_address config = [] \<or>
        ps_max_connections config = 0
     then throw ''Peer server requires file, token, bind address, and connection limit''
     else Inr config)"

text \<open>The threads of the two servers, with their limits and numbers of workers.\<close>

definition tracker_pool_step :: "tracker_limits \<Rightarrow> 'j pool \<Rightarrow> 'j pool \<Rightarrow> bool" where
  "tracker_pool_step limits = pool_step (max_connections limits) (unat (worker_count limits)) True"

definition peer_pool_step :: "peer_server_config \<Rightarrow> 'j pool \<Rightarrow> 'j pool \<Rightarrow> bool" where
  "peer_pool_step config = pool_step (ps_max_connections config) (unat (min (ps_max_connections config) 4)) False"

text \<open>\<^verbatim>\<open>send_error\<close> is \<^verbatim>\<open>noexcept\<close>: it ignores a failing write.\<close>

definition send_error :: "string \<Rightarrow> unit io" where
  "send_error code c = (Inr (), snd (write_all (''ERROR '' @ code @ [nl]) c))"

definition has_chunk :: "peer_server_config \<Rightarrow> u32 \<Rightarrow> bool result" where
  "has_chunk config index = (case ps_has_chunk config of None \<Rightarrow> Inr True | Some available \<Rightarrow> available index)"

text \<open>The condition \<^verbatim>\<open>chunk_index >= size || !has_chunk(chunk_index)\<close>, with its short circuit.\<close>

definition chunk_unavailable :: "peer_server_config \<Rightarrow> u32 \<Rightarrow> bool result" where
  "chunk_unavailable config index =
     (if unat index \<ge> length (chunk_hashes (ps_manifest config)) then Inr True
      else rbind (has_chunk config index) (\<lambda>available. Inr (\<not> available)))"

definition chunk_reply :: "bytes \<Rightarrow> string \<Rightarrow> unit io" where
  "chunk_reply b hash =
     io_bind (write_all (''DATA '' @ dec (length b) @ '' '' @ hash @ [nl])) (\<lambda>_. write_all b)"

text \<open>
  Reading, verifying and sending an available chunk; \<open>f\<close> is the file system.
\<close>

definition serve_chunk :: "'c evp \<Rightarrow> peer_server_config \<Rightarrow> fs \<Rightarrow> u32 \<Rightarrow> unit io" where
  "serve_chunk evp config f index =
     io_bind (io_lift (manifest_chunk_size (ps_manifest config) index)) (\<lambda>expected_size.
     case open_in f (ps_file_path config) of
       None \<Rightarrow> send_error ''io_failure''
     | Some input \<Rightarrow>
         io_bind (io_lift (manifest_chunk_offset (ps_manifest config) index)) (\<lambda>offset.
         let b = fst (stream_read (stream_seek input offset) (unat expected_size));
             expected = chunk_hashes (ps_manifest config) ! unat index
         in if length b \<noteq> unat expected_size then send_error ''corrupt''
            else
              io_bind (io_lift (sha256_hex evp b)) (\<lambda>hash.
              if hash \<noteq> expected then send_error ''corrupt'' else chunk_reply b expected)))"

text \<open>The checks on a parsed request.\<close>

definition serve_request :: "'c evp \<Rightarrow> peer_server_config \<Rightarrow> fs \<Rightarrow> chunk_request \<Rightarrow> unit io" where
  "serve_request evp config f request =
     (if \<not> secure_token_equal (ps_token config) (cr_token request) then send_error ''unauthorized''
      else
        io_bind (io_lift (manifest_swarm_id evp (ps_manifest config))) (\<lambda>swarm_id.
        if cr_swarm_id request \<noteq> swarm_id then send_error ''wrong_swarm''
        else
          io_bind (io_lift (chunk_unavailable config (cr_chunk_index request))) (\<lambda>unavailable.
          if unavailable then send_error ''unavailable''
          else serve_chunk evp config f (cr_chunk_index request))))"

definition serve_connection :: "'c evp \<Rightarrow> peer_server_config \<Rightarrow> fs \<Rightarrow> conn \<Rightarrow> conn" where
  "serve_connection evp config f c =
     (case io_bind (read_line kMaxHeaderBytes) (\<lambda>header.
           io_bind (io_lift (parse_chunk_request header)) (serve_request evp config f)) c of
        (Inr _, c) \<Rightarrow> c
      | (Inl _, c) \<Rightarrow> snd (send_error ''bad_request'' c))"

section \<open>Only verified chunks are served\<close>

definition sends_ok :: "conn \<Rightarrow> bool" where
  "sends_ok c \<longleftrightarrow> (\<forall>m. Send_failed m \<notin> set (sending c))"

lemma write_all_sends:
  "sends_ok c \<Longrightarrow> \<exists>es. write_all d c = (Inr (), c\<lparr>sending := es, sent := sent c @ d\<rparr>) \<and>
     sends_ok (c\<lparr>sending := es, sent := sent c @ d\<rparr>)"
  using write_all_ok [of c d] by (auto simp: sends_ok_def)

definition error_line :: "string \<Rightarrow> string" where
  "error_line code = ''ERROR '' @ code @ [nl]"

definition peer_error_codes :: "string list" where
  "peer_error_codes = [''unauthorized'', ''wrong_swarm'', ''unavailable'', ''io_failure'', ''corrupt'', ''bad_request'']"

definition data_reply :: "bytes \<Rightarrow> string \<Rightarrow> string" where
  "data_reply b hash = ''DATA '' @ dec (length b) @ '' '' @ hash @ [nl] @ b"

lemma send_error_sends:
  "sends_ok c \<Longrightarrow> \<exists>es. send_error code c = (Inr (), c\<lparr>sending := es, sent := sent c @ error_line code\<rparr>) \<and>
     sends_ok (c\<lparr>sending := es, sent := sent c @ error_line code\<rparr>)"
  using write_all_sends [of c "error_line code"] by (auto simp: send_error_def error_line_def)

lemma chunk_reply_sends:
  assumes "sends_ok c"
  shows "\<exists>es. chunk_reply b hash c = (Inr (), c\<lparr>sending := es, sent := sent c @ data_reply b hash\<rparr>)"
proof -
  obtain es where 1: "write_all (''DATA '' @ dec (length b) @ '' '' @ hash @ [nl]) c =
      (Inr (), c\<lparr>sending := es, sent := sent c @ ''DATA '' @ dec (length b) @ '' '' @ hash @ [nl]\<rparr>)"
    "sends_ok (c\<lparr>sending := es, sent := sent c @ ''DATA '' @ dec (length b) @ '' '' @ hash @ [nl]\<rparr>)"
    using write_all_sends [OF assms] by blast
  from write_all_sends [OF 1(2), of b] 1(1) show ?thesis
    by (auto simp: chunk_reply_def io_bind_def data_reply_def)
qed

text \<open>The bytes a chunk may be answered with: read from the file at its place, complete and verified.\<close>

definition verified_chunk :: "'c evp \<Rightarrow> peer_server_config \<Rightarrow> fs \<Rightarrow> u32 \<Rightarrow> bytes \<Rightarrow> bool" where
  "verified_chunk evp config f index b \<longleftrightarrow>
     manifest_chunk_size (ps_manifest config) index = Inr (of_nat (length b)) \<and>
     sha256_hex evp b = Inr (chunk_hashes (ps_manifest config) ! unat index) \<and>
     (\<exists>input offset. open_in f (ps_file_path config) = Some input \<and>
        manifest_chunk_offset (ps_manifest config) index = Inr offset \<and>
        b = fst (stream_read (stream_seek input offset) (length b)))"

text \<open>What a handler does to a connection: it throws before it wrote, or sends an error line, or the data.\<close>

definition replies :: "unit result \<times> conn \<Rightarrow> conn \<Rightarrow> (bytes \<Rightarrow> bool) \<Rightarrow> string \<Rightarrow> bool" where
  "replies out c P hash \<longleftrightarrow>
     (\<exists>e. out = (Inl e, c)) \<or>
     (\<exists>es code. code \<in> set peer_error_codes \<and> out = (Inr (), c\<lparr>sending := es, sent := sent c @ error_line code\<rparr>)) \<or>
     (\<exists>es b. P b \<and> out = (Inr (), c\<lparr>sending := es, sent := sent c @ data_reply b hash\<rparr>))"

lemma replies_error:
  "sends_ok c \<Longrightarrow> code \<in> set peer_error_codes \<Longrightarrow> replies (send_error code c) c P hash"
  using send_error_sends [of c code] by (auto simp: replies_def)

lemma replies_throw [simp]: "replies (Inl e, c) c P hash"
  by (simp add: replies_def)

lemma replies_bind:
  "(\<And>x. r = Inr x \<Longrightarrow> replies (k x c) c P hash) \<Longrightarrow> replies (io_bind (io_lift r) k c) c P hash"
  by (cases r) (simp_all add: io_bind_def io_lift_def)

lemma replies_if: "(b \<Longrightarrow> replies (x c) c P h) \<Longrightarrow> (\<not> b \<Longrightarrow> replies (y c) c P h) \<Longrightarrow> replies ((if b then x else y) c) c P h"
  by simp

lemma error_codes:
  "''unauthorized'' \<in> set peer_error_codes" "''wrong_swarm'' \<in> set peer_error_codes"
  "''unavailable'' \<in> set peer_error_codes" "''io_failure'' \<in> set peer_error_codes"
  "''corrupt'' \<in> set peer_error_codes" "''bad_request'' \<in> set peer_error_codes"
  by (simp_all add: peer_error_codes_def)

lemma serve_chunk_replies:
  assumes "sends_ok c"
  shows "replies (serve_chunk evp config f index c) c (verified_chunk evp config f index)
    (chunk_hashes (ps_manifest config) ! unat index)"
  unfolding serve_chunk_def
proof (rule replies_bind)
  let ?R = "\<lambda>out. replies out c (verified_chunk evp config f index) (chunk_hashes (ps_manifest config) ! unat index)"
  fix n assume n: "manifest_chunk_size (ps_manifest config) index = Inr n"
  show "?R ((case open_in f (ps_file_path config) of
      None \<Rightarrow> send_error ''io_failure''
    | Some input \<Rightarrow>
        io_bind (io_lift (manifest_chunk_offset (ps_manifest config) index)) (\<lambda>offset.
        let b = fst (stream_read (stream_seek input offset) (unat n));
            expected = chunk_hashes (ps_manifest config) ! unat index
        in if length b \<noteq> unat n then send_error ''corrupt''
           else io_bind (io_lift (sha256_hex evp b)) (\<lambda>hash.
             if hash \<noteq> expected then send_error ''corrupt'' else chunk_reply b expected))) c)"
  proof (cases "open_in f (ps_file_path config)")
    case None
    then show ?thesis using replies_error [OF assms error_codes(4)] by simp
  next
    case (Some input)
    show ?thesis unfolding Some option.case Let_def
    proof (intro replies_bind replies_if replies_error assms error_codes)
      fix offset hash
      let ?b = "fst (stream_read (stream_seek input offset) (unat n))"
      assume "manifest_chunk_offset (ps_manifest config) index = Inr offset" "sha256_hex evp ?b = Inr hash"
        "\<not> length ?b \<noteq> unat n" "\<not> hash \<noteq> chunk_hashes (ps_manifest config) ! unat index"
      then have "verified_chunk evp config f index ?b"
        using n Some by (auto simp: verified_chunk_def)
      with chunk_reply_sends [OF assms] show "?R (chunk_reply ?b (chunk_hashes (ps_manifest config) ! unat index) c)"
        by (fastforce simp: replies_def)
    qed
  qed
qed

text \<open>Which requests are answered with data.\<close>

definition authorised_request :: "'c evp \<Rightarrow> peer_server_config \<Rightarrow> chunk_request \<Rightarrow> bool" where
  "authorised_request evp config request \<longleftrightarrow>
     secure_token_equal (ps_token config) (cr_token request) \<and>
     manifest_swarm_id evp (ps_manifest config) = Inr (cr_swarm_id request) \<and>
     unat (cr_chunk_index request) < length (chunk_hashes (ps_manifest config)) \<and>
     has_chunk config (cr_chunk_index request) = Inr True"

lemma chunk_available:
  "chunk_unavailable config index = Inr False \<longleftrightarrow>
     unat index < length (chunk_hashes (ps_manifest config)) \<and> has_chunk config index = Inr True"
  by (auto simp: chunk_unavailable_def result_simps)

lemma serve_request_replies:
  assumes "sends_ok c"
  shows "replies (serve_request evp config f request c) c
    (\<lambda>b. authorised_request evp config request \<and> verified_chunk evp config f (cr_chunk_index request) b)
    (chunk_hashes (ps_manifest config) ! unat (cr_chunk_index request))"
  unfolding serve_request_def
proof (intro replies_bind replies_if replies_error assms error_codes)
  fix swarm_id unavailable
  assume "\<not> \<not> secure_token_equal (ps_token config) (cr_token request)"
    "manifest_swarm_id evp (ps_manifest config) = Inr swarm_id" "\<not> cr_swarm_id request \<noteq> swarm_id"
    "chunk_unavailable config (cr_chunk_index request) = Inr unavailable" "\<not> unavailable"
  then have "authorised_request evp config request"
    using chunk_available [of config "cr_chunk_index request"] by (simp add: authorised_request_def)
  with serve_chunk_replies [OF assms, of evp config f "cr_chunk_index request"]
  show "replies (serve_chunk evp config f (cr_chunk_index request) c) c
      (\<lambda>b. authorised_request evp config request \<and> verified_chunk evp config f (cr_chunk_index request) b)
      (chunk_hashes (ps_manifest config) ! unat (cr_chunk_index request))"
    by (auto simp: replies_def)
qed

text \<open>
  C6. A peer sends nothing unverified and nothing to strangers (\<^verbatim>\<open>serve_connection\<close>): whatever arrives
  on a connection and whatever has become of the file, the answer is one of six fixed error
  lines, or a data header followed by bytes that were read at the chunk's place, have the
  size the manifest gives the chunk and hash to the digest the manifest lists. The latter only for
  a request with the server's token and swarm, for a chunk of the manifest that the peer
  has.
\<close>

theorem peer_serves_only_verified:
  assumes "\<And>m. Send_failed m \<notin> set (sending c)" and "length (ps_token config) < 2 ^ 64"
  shows "(\<exists>code\<in>set peer_error_codes. sent (serve_connection evp config f c) = sent c @ ''ERROR '' @ code @ [nl]) \<or>
    (\<exists>h c1 request b. read_line kMaxHeaderBytes c = (Inr h, c1) \<and> parse_chunk_request h = Inr request \<and>
       cr_token request = ps_token config \<and>
       manifest_swarm_id evp (ps_manifest config) = Inr (cr_swarm_id request) \<and>
       unat (cr_chunk_index request) < length (chunk_hashes (ps_manifest config)) \<and>
       has_chunk config (cr_chunk_index request) = Inr True \<and>
       verified_chunk evp config f (cr_chunk_index request) b \<and>
       sent (serve_connection evp config f c) = sent c @ ''DATA '' @ dec (length b) @ '' '' @
         chunk_hashes (ps_manifest config) ! unat (cr_chunk_index request) @ [nl] @ b)"
    (is "?error \<or> ?data")
proof -
  have ok: "sends_ok c" using assms(1) by (simp add: sends_ok_def)
  let ?bad = "\<lambda>c. snd (send_error ''bad_request'' c)"
  have bad: "sent (?bad d) = sent d @ error_line ''bad_request''" if "sends_ok d" for d
    using send_error_sends [OF that, of "''bad_request''"] by auto
  obtain r c1 where rl: "read_line kMaxHeaderBytes c = (r, c1)" by fastforce
  with read_line_frame have c1: "sent c1 = sent c" "sends_ok c1"
    using ok by (fastforce simp: sends_ok_def)+
  show ?thesis
  proof (cases "\<exists>h request. r = Inr h \<and> parse_chunk_request h = Inr request")
    case False
    then have "serve_connection evp config f c = ?bad c1"
      using rl by (cases r) (auto simp: serve_connection_def io_bind_def io_lift_def split: sum.splits)
    with bad [OF c1(2)] c1(1) have "sent (serve_connection evp config f c) = sent c @ ''ERROR '' @ ''bad_request'' @ [nl]"
      by (simp add: error_line_def)
    then have ?error by (intro bexI [OF _ error_codes(6)])
    then show ?thesis by (rule disjI1)
  next
    case True
    then obtain h request where h: "r = Inr h" "parse_chunk_request h = Inr request" by blast
    let ?out = "serve_request evp config f request c1"
    have run: "serve_connection evp config f c = (case ?out of (Inr _, c) \<Rightarrow> c | (Inl _, c) \<Rightarrow> ?bad c)"
      using rl h by (simp add: serve_connection_def io_bind_def io_lift_def)
    from serve_request_replies [OF c1(2), of evp config f request]
    consider (throws) e where "?out = (Inl e, c1)"
      | (error) es code where "code \<in> set peer_error_codes"
          "?out = (Inr (), c1\<lparr>sending := es, sent := sent c1 @ error_line code\<rparr>)"
      | (data) es b where "authorised_request evp config request" "verified_chunk evp config f (cr_chunk_index request) b"
          "?out = (Inr (), c1\<lparr>sending := es, sent := sent c1 @ data_reply b
             (chunk_hashes (ps_manifest config) ! unat (cr_chunk_index request))\<rparr>)"
      by (auto simp: replies_def)
    then show ?thesis
    proof cases
      case throws
      with run bad [OF c1(2)] c1(1) have "sent (serve_connection evp config f c) = sent c @ ''ERROR '' @ ''bad_request'' @ [nl]"
        by (simp add: error_line_def)
      then have ?error by (intro bexI [OF _ error_codes(6)])
      then show ?thesis by (rule disjI1)
    next
      case error
      with run c1(1) have "sent (serve_connection evp config f c) = sent c @ ''ERROR '' @ code @ [nl]"
        by (simp add: error_line_def)
      with error(1) have ?error by blast
      then show ?thesis by (rule disjI1)
    next
      case data
      have "cr_token request = ps_token config"
        using data(1) h(2) assms(2) secure_token_equal_iff [of "ps_token config" "cr_token request"]
        by (auto simp: authorised_request_def parse_chunk_request_def result_simps safe_atom_def split: if_splits)
      with run data c1(1) rl h have ?data by (auto simp: authorised_request_def data_reply_def)
      then show ?thesis by (rule disjI2)
    qed
  qed
qed

section \<open>An intact chunk is served\<close>

lemma lower_hex_atom: "is_lower_hex c \<Longrightarrow> atom_char c"
  by (auto simp: is_lower_hex_def atom_char_def Let_def)

lemma sha256_atom: "is_sha256_hex h \<Longrightarrow> safe_atom h"
  by (auto simp: is_sha256_hex_def safe_atom_def list_all_iff lower_hex_atom)

lemma sha256_hex_is_hex: "sha256_hex evp b = Inr h \<Longrightarrow> is_sha256_hex h"
  by (auto simp: sha256_hex_def result_simps finish_digest_is_sha256_hex)

lemma swarm_id_atom: "manifest_swarm_id evp m = Inr s \<Longrightarrow> is_sha256_hex s \<and> safe_atom s"
  by (auto simp: manifest_swarm_id_def result_simps dest: sha256_hex_is_hex sha256_atom)

definition get_line :: "string \<Rightarrow> string \<Rightarrow> u32 \<Rightarrow> string" where
  "get_line token swarm index = ''GET '' @ token @ '' '' @ swarm @ '' '' @ dec (unat index)"

lemma get_line_facts:
  assumes "safe_atom token" and "safe_atom swarm"
  shows "parse_chunk_request (get_line token swarm index) =
      Inr \<lparr>cr_token = token, cr_swarm_id = swarm, cr_chunk_index = index\<rparr> \<and>
    list_all printable (get_line token swarm index) \<and> length (get_line token swarm index) \<le> kMaxHeaderBytes"
proof -
  let ?fs = "[''GET'', token, swarm, dec (unat index)]"
  have line: "get_line token swarm index = join_with CHR '' '' ?fs" by (simp add: get_line_def)
  have "length (dec (unat index)) \<le> 10"
    using dec_length [of "unat index" 10] unsigned_less [of index, where 'a = nat] by simp
  then have len: "length (get_line token swarm index) \<le> kMaxHeaderBytes"
    using assms by (simp add: get_line_def safe_atom_def kMaxHeaderBytes_def)
  have wf: "list_all wf_field ?fs" using assms by (simp add: safe_atom_wf)
  have "split_header (get_line token swarm index) = Inr ?fs"
    using wf len unfolding line by (intro ph.split_join) auto
  then have "parse_chunk_request (get_line token swarm index) =
      Inr \<lparr>cr_token = token, cr_swarm_id = swarm, cr_chunk_index = index\<rparr>"
    using assms by (simp add: parse_chunk_request_def require_atom_safe)
  with len join_with_printable [OF wf] line show ?thesis by metis
qed

lemma peer_server_new_valid:
  "peer_server_new config = Inr config' \<Longrightarrow> config' = config \<and> manifest_validate (ps_manifest config) = Inr ()"
  by (auto simp: peer_server_new_def result_simps split: if_splits)

text \<open>A request that may be answered is answered with the chunk.\<close>

lemma serve_connection_chunk:
  assumes "peer_server_new config = Inr config'"
    and disk: "nodes f (ps_file_path config) = Some (Regular d)" "\<not> unreadable f (ps_file_path config)"
      "fault_at f (ps_file_path config) = None" "length d = unat (file_size_bytes (ps_manifest config))"
    and chunk: "unat i < length (chunk_hashes (ps_manifest config))" "has_chunk config i = Inr True"
      "sha256_hex evp (chunk_bytes (ps_manifest config) d (unat i)) = Inr (chunk_hashes (ps_manifest config) ! unat i)"
    and swarm: "manifest_swarm_id evp (ps_manifest config) = Inr swarm" and token: "safe_atom (ps_token config)"
    and c: "pending (incoming c) = ''GET '' @ ps_token config @ '' '' @ swarm @ '' '' @ dec (unat i) @ [nl]"
      "0 \<le> native_handle c" "\<And>m. Send_failed m \<notin> set (sending c)"
  shows "sent (serve_connection evp config f c) = sent c @
    ''DATA '' @ dec (length (chunk_bytes (ps_manifest config) d (unat i))) @ '' '' @
    chunk_hashes (ps_manifest config) ! unat i @ [nl] @ chunk_bytes (ps_manifest config) d (unat i)"
proof -
  let ?m = "ps_manifest config" and ?h = "get_line (ps_token config) swarm i"
  let ?req = "\<lparr>cr_token = ps_token config, cr_swarm_id = swarm, cr_chunk_index = i\<rparr>"
  have valid: "manifest_validate ?m = Inr ()" using assms(1) peer_server_new_valid by blast
  note line = get_line_facts [OF token, of swarm i] swarm_id_atom [OF swarm]
  have "pending (incoming c) = ?h @ nl # []" using c(1) by (simp add: get_line_def)
  from read_line_delivered [OF this] line c(2) obtain es where
    rl: "read_line kMaxHeaderBytes c = (Inr ?h, c\<lparr>incoming := es\<rparr>)" by auto
  obtain ofs sz where rd: "manifest_chunk_offset ?m i = Inr ofs" "manifest_chunk_size ?m i = Inr sz"
    "length (chunk_bytes ?m d (unat i)) = unat sz"
    "fst (stream_read (stream_seek (stream_of d) ofs) (unat sz)) = chunk_bytes ?m d (unat i)"
    using read_chunk [OF valid chunk(1) disk(4)] by metis
  have open': "open_in f (ps_file_path config) = Some (stream_of d)" using open_in_plain disk(1-3) by simp
  have tok: "secure_token_equal (ps_token config) (ps_token config)"
    using token by (simp add: secure_token_equal_iff safe_atom_def)
  have avail: "chunk_unavailable config i = Inr False" using chunk(1,2) chunk_available by simp
  have "serve_request evp config f ?req = chunk_reply (chunk_bytes ?m d (unat i)) (chunk_hashes ?m ! unat i)"
    by (rule ext) (simp add: serve_request_def serve_chunk_def io_bind_def io_lift_def tok swarm avail rd open' chunk(3) Let_def)
  moreover obtain es' where "chunk_reply (chunk_bytes ?m d (unat i)) (chunk_hashes ?m ! unat i) (c\<lparr>incoming := es\<rparr>) =
      (Inr (), (c\<lparr>incoming := es\<rparr>)\<lparr>sending := es', sent := sent c @ data_reply (chunk_bytes ?m d (unat i)) (chunk_hashes ?m ! unat i)\<rparr>)"
    using chunk_reply_sends [of "c\<lparr>incoming := es\<rparr>" "chunk_bytes ?m d (unat i)" "chunk_hashes ?m ! unat i"] c(3)
    by (auto simp: sends_ok_def)
  ultimately show ?thesis using line
    by (simp add: serve_connection_def io_bind_def io_lift_def rl data_reply_def)
qed

text \<open>
  A peer serves what it has (\<^verbatim>\<open>serve_connection\<close>): to a request with its token and swarm for a
  chunk it has, and whose bytes in the file still match the manifest, the server answers with
  a data header and exactly the bytes of that chunk, however the request is segmented.
\<close>

theorem peer_serves_chunk:
  assumes "peer_server_new config = Inr config'"
    and disk: "nodes f (ps_file_path config) = Some (Regular d)" "\<not> unreadable f (ps_file_path config)"
      "fault_at f (ps_file_path config) = None" "length d = unat (file_size_bytes (ps_manifest config))"
    and chunk: "unat i < length (chunk_hashes (ps_manifest config))" "has_chunk config i = Inr True"
      "sha256_hex evp (chunk_bytes (ps_manifest config) d (unat i)) = Inr (chunk_hashes (ps_manifest config) ! unat i)"
    and swarm: "manifest_swarm_id evp (ps_manifest config) = Inr swarm" and token: "safe_atom (ps_token config)"
    and c: "pending (incoming c) = ''GET '' @ ps_token config @ '' '' @ swarm @ '' '' @ dec (unat i) @ [nl]"
      "0 \<le> native_handle c" "\<And>m. Send_failed m \<notin> set (sending c)"
  shows "sent (serve_connection evp config f c) = sent c @
    ''DATA '' @ dec (length (chunk_bytes (ps_manifest config) d (unat i))) @ '' '' @
    chunk_hashes (ps_manifest config) ! unat i @ [nl] @ chunk_bytes (ps_manifest config) d (unat i)"
  by (rule serve_connection_chunk [OF assms])

section \<open>A concrete peer\<close>

definition sample_seed :: manifest where
  "sample_seed = \<lparr>file_name = ''a.bin'', file_size_bytes = 8, chunk_size_bytes = 3,
     file_sha256 = hex_encode (sample_digest ''abcdefgh''),
     chunk_hashes = [hex_encode (sample_digest ''abc''), hex_encode (sample_digest ''def''),
       hex_encode (sample_digest ''gh'')]\<rparr>"

definition sample_peer :: peer_server_config where
  "sample_peer = \<lparr>ps_manifest = sample_seed, ps_file_path = ''a.bin'', ps_token = ''tok'', ps_port = 0,
     ps_bind_address = ''127.0.0.1'', ps_max_connections = 32, ps_has_chunk = None\<rparr>"

lemma sample_sha: "sha256_hex sample_evp b = Inr (hex_encode (sample_digest b))"
  using sample_evp_computes by (rule sha256_hex_computes)

lemma sample_seed_valid: "manifest_validate sample_seed = Inr ()"
proof -
  have "is_sha256_hex (hex_encode (sample_digest b))" for b using sha256_hex_is_hex [OF sample_sha] .
  then show ?thesis
    by (simp add: manifest_validate_Inr sample_seed_def safe_file_name_def kMaxChunkSize_def kMaxChunkCount_def
        expected_chunk_count_def)
qed

lemma sample_peer_new: "peer_server_new sample_peer = Inr sample_peer"
  using sample_seed_valid by (simp add: peer_server_new_def) (simp add: sample_peer_def)

lemma sample_swarm: "\<exists>s. manifest_swarm_id sample_evp sample_seed = Inr s"
  using sample_seed_valid by (simp add: manifest_swarm_id_def manifest_serialize_def sample_sha)

theorem peer_serves_only_verified_witness:
  "\<exists>code\<in>set peer_error_codes. sent (serve_connection sample_evp sample_peer (no_faults ''a.bin'' ''abcdefgh'')
     (sample_request_conn (get_line ''guess'' ''s'' 1))) = ''ERROR '' @ code @ [nl]"
proof -
  define h where "h = get_line ''guess'' ''s'' 1"
  define c where "c = sample_request_conn h"
  define f where "f = no_faults ''a.bin'' ''abcdefgh''"
  have "safe_atom ''guess''" by (simp add: safe_atom_def atom_char_def)
  note line = get_line_facts [OF this sample_atoms(2), of 1, folded h_def]
  obtain es where rl: "read_line kMaxHeaderBytes c = (Inr h, c\<lparr>incoming := es\<rparr>)"
    using read_line_delivered [of c h "[]"] line by (auto simp: c_def sample_request_conn_facts)
  have "''guess'' \<noteq> ps_token sample_peer" by (simp add: sample_peer_def)
  with line have no: "parse_chunk_request h = Inr request \<Longrightarrow> cr_token request \<noteq> ps_token sample_peer" for request
    by auto
  have ok: "Send_failed m \<notin> set (sending c)" for m by (simp add: c_def sample_request_conn_facts)
  have fin: "length (ps_token sample_peer) < 2 ^ 64" by (simp add: sample_peer_def)
  have "sent c = []" by (simp add: c_def sample_request_conn_facts)
  with peer_serves_only_verified [of c sample_peer sample_evp f, OF ok fin] no rl
  show ?thesis unfolding h_def [symmetric] c_def [symmetric] f_def [symmetric] by auto
qed

theorem peer_serves_chunk_witness:
  "\<exists>swarm. sent (serve_connection sample_evp sample_peer (no_faults ''a.bin'' ''abcdefgh'')
     (sample_request_conn (get_line ''tok'' swarm 2))) =
     ''DATA '' @ dec 2 @ '' '' @ hex_encode (sample_digest ''gh'') @ [nl] @ ''gh''"
proof -
  obtain swarm where swarm: "manifest_swarm_id sample_evp sample_seed = Inr swarm" using sample_swarm by blast
  define c where "c = sample_request_conn (get_line ''tok'' swarm 2)"
  define f where "f = no_faults ''a.bin'' ''abcdefgh''"
  have cfg: "ps_manifest sample_peer = sample_seed" "ps_file_path sample_peer = ''a.bin''"
    "ps_token sample_peer = ''tok''" "has_chunk sample_peer 2 = Inr True"
    by (simp_all add: sample_peer_def has_chunk_def)
  have f: "nodes f ''a.bin'' = Some (Regular ''abcdefgh'')" "\<not> unreadable f ''a.bin''" "fault_at f ''a.bin'' = None"
    by (simp_all add: f_def no_faults_def)
  have two: "unat (2 :: u32) = 2" by simp
  have m: "length ''abcdefgh'' = unat (file_size_bytes sample_seed)" "2 < length (chunk_hashes sample_seed)"
    "chunk_hashes sample_seed ! 2 = hex_encode (sample_digest ''gh'')"
    "chunk_bytes sample_seed ''abcdefgh'' 2 = ''gh''"
    by (simp_all add: chunk_bytes_def sample_seed_def)
  have c: "pending (incoming c) = ''GET '' @ ''tok'' @ '' '' @ swarm @ '' '' @ dec (unat (2 :: u32)) @ [nl]"
    "0 \<le> native_handle c" "Send_failed e \<notin> set (sending c)" "sent c = []" for e
    by (simp_all add: c_def sample_request_conn_facts get_line_def)
  have "sent (serve_connection sample_evp sample_peer f c) = sent c @ ''DATA '' @ dec (length ''gh'') @ '' '' @
      hex_encode (sample_digest ''gh'') @ [nl] @ ''gh''"
    using peer_serves_chunk [OF sample_peer_new, unfolded cfg, OF f m(1), of 2 sample_evp swarm c] swarm c
    unfolding two m(3,4) by (simp only: cfg m(2) sample_sha sample_atoms simp_thms)
  then show ?thesis
    unfolding c(4) c_def f_def by (intro exI [of _ swarm]) (simp add: eval_nat_numeral sample_request_conn_facts)
qed

end
