(* ===== verification/Resume_Store.thy ===== *)
theory Resume_Store
  imports Swarm_Prelude
begin

text \<open>
  The component \<^verbatim>\<open>src/resume_store.cpp\<close>: the record of the chunks that are safely in the
  partial file, its text format, and its atomic replacement on disk. The file-system calls of
  \<^verbatim>\<open>write_atomic\<close> answer as a parameter says, and the model keeps every intermediate state of
  the file system, so that a crash between any two calls can be discussed.
\<close>

section \<open>Atomic replacement of a file\<close>

datatype write_event = Wrote nat | Write_interrupted | Write_failed string

text \<open>The answers of the calls; \<open>None\<close> is success, \<open>Some e\<close> the error text.\<close>

record atomic_env =
  wa_mkdir :: "string option"
  wa_open :: "string option"
  wa_writes :: "write_event list"
  wa_fsync :: "string option"
  wa_close :: "string option"
  wa_rename :: "string option"

text \<open>
  The write loop on the temporary file, which holds \<open>stored\<close> so far; \<open>rest\<close> is
  \<^verbatim>\<open>content.substr(offset)\<close>. The result carries the states after each call. When the script
  is used up, the last \<^verbatim>\<open>write\<close> takes everything.
\<close>

fun atomic_write_loop :: "write_event list \<Rightarrow> fs \<Rightarrow> path \<Rightarrow> bytes \<Rightarrow> bytes \<Rightarrow> unit result \<times> fs list" where
  "atomic_write_loop [] f tmp stored rest = (Inr (), [write_node f tmp (stored @ rest)])"
| "atomic_write_loop (e # es) f tmp stored rest =
     (if rest = [] then (Inr (), [write_node f tmp stored])
      else case e of
        Wrote k \<Rightarrow>
          let (r, trace) = atomic_write_loop es f tmp (stored @ take k rest) (drop k rest)
          in (r, write_node f tmp (stored @ take k rest) # trace)
      | Write_interrupted \<Rightarrow> atomic_write_loop es f tmp stored rest
      | Write_failed m \<Rightarrow>
          (throw (''Unable to write temporary resume state: '' @ m), [write_node f tmp stored]))"

definition remove_node :: "fs \<Rightarrow> path \<Rightarrow> fs" where
  "remove_node f p = f\<lparr>nodes := (nodes f)(p := None), unsynced := (unsynced f)(p := {})\<rparr>"

text \<open>
  \<^verbatim>\<open>rename\<close> replaces the target in one step. Besides the faults of the environment, making a
  directory below a file, opening a directory for writing and renaming onto a directory fail.
\<close>

definition rename_node :: "fs \<Rightarrow> path \<Rightarrow> path \<Rightarrow> fs" where
  "rename_node f old new =
     f\<lparr>nodes := (nodes f)(new := nodes f old, old := None),
       unsynced := (unsynced f)(new := unsynced f old, old := {})\<rparr>"

definition or_fault :: "string option \<Rightarrow> bool \<Rightarrow> string \<Rightarrow> string option" where
  "or_fault injected broken msg = (if injected = None \<and> broken then Some msg else injected)"

definition mkdir_fault :: "atomic_env \<Rightarrow> fs \<Rightarrow> path \<Rightarrow> string option" where
  "mkdir_fault env f parent =
     (if parent = [] then None
      else or_fault (wa_mkdir env)
        (list_ex (\<lambda>q. nodes f q \<noteq> None \<and> nodes f q \<noteq> Some Directory) (dir_prefixes parent))
        ''Not a directory'')"

definition open_fault :: "atomic_env \<Rightarrow> fs \<Rightarrow> path \<Rightarrow> string option" where
  "open_fault env f tmp = or_fault (wa_open env) (nodes f tmp = Some Directory) ''Is a directory''"

definition rename_fault :: "atomic_env \<Rightarrow> fs \<Rightarrow> path \<Rightarrow> string option" where
  "rename_fault env f p = or_fault (wa_rename env) (nodes f p = Some Directory) ''Is a directory''"

text \<open>
  The calls inside the \<^verbatim>\<open>try\<close> block, from the open descriptor on: the result and all states.
\<close>

definition atomic_publish :: "atomic_env \<Rightarrow> fs \<Rightarrow> path \<Rightarrow> path \<Rightarrow> bytes \<Rightarrow> unit result \<times> fs list" where
  "atomic_publish env f p tmp content =
     (let (r, trace) = atomic_write_loop (wa_writes env) f tmp [] content; g = last trace
      in case r of
           Inl e \<Rightarrow> (Inl e, trace)
         | Inr _ \<Rightarrow>
             (case wa_fsync env of
                Some e \<Rightarrow> (throw (''Unable to flush temporary resume state: '' @ e), trace)
              | None \<Rightarrow>
             let g = sync_node g tmp; trace = trace @ [g]
             in (case wa_close env of
                Some e \<Rightarrow> (throw (''Unable to close temporary resume state: '' @ e), trace)
              | None \<Rightarrow>
             (case rename_fault env g p of
                Some e \<Rightarrow> (throw (''Unable to publish resume state: '' @ e), trace)
              | None \<Rightarrow> (Inr (), trace @ [rename_node g tmp p])))))"

text \<open>
  The result and the list of all states of the file system, the initial one first and the
  final one last; an exception inside the \<^verbatim>\<open>try\<close> block removes the temporary file.
\<close>

definition write_atomic :: "atomic_env \<Rightarrow> fs \<Rightarrow> path \<Rightarrow> bytes \<Rightarrow> unit result \<times> fs list" where
  "write_atomic env f p content =
     (let parent = path_parent p
      in case mkdir_fault env f parent of
           Some e \<Rightarrow> (Inl (Filesystem_error e), [f])
         | None \<Rightarrow>
             let f1 = (if parent \<noteq> [] then create_directories f parent else f);
                 tmp = p @ ''.tmp''
             in case open_fault env f1 tmp of
                  Some e \<Rightarrow> (throw (''Unable to open temporary resume state: '' @ e), [f, f1])
                | None \<Rightarrow>
                    let f2 = write_node f1 tmp [];
                        (r, trace) = atomic_publish env f2 p tmp content
                    in case r of
                         Inl e \<Rightarrow> (Inl e, f # f1 # f2 # trace @ [remove_node (last trace) tmp])
                       | Inr _ \<Rightarrow> (Inr (), f # f1 # f2 # trace))"

section \<open>The store\<close>

record resume_store =
  rs_path :: path
  rs_swarm_id :: string
  rs_chunk_count :: u32
  rs_completed :: "bool list"
  rs_revision :: u64
  rs_dirty :: bool

definition resume_parse_unsigned :: "string \<Rightarrow> string \<Rightarrow> 'w::len word result" where
  "resume_parse_unsigned value field =
     (if value = [] then throw (''Resume field is empty: '' @ field)
      else let (end', error, parsed) = from_chars value
           in if error \<noteq> Errc_ok \<or> end' \<noteq> []
              then throw (''Resume field is not an unsigned integer: '' @ field)
              else Inr parsed)"

definition resume_read_line :: "ifstream \<Rightarrow> path \<Rightarrow> (string \<times> ifstream) result" where
  "resume_read_line input p =
     (case stream_getline input of
        (None, _) \<Rightarrow> throw (''Unexpected end of resume state: '' @ p)
      | (Some line, input) \<Rightarrow> Inr (strip_cr line, input))"

definition resume_require_field :: "string \<Rightarrow> string \<Rightarrow> string result" where
  "resume_require_field line field =
     (let prefix = field @ ''=''
      in if \<not> starts_with line prefix then throw (''Expected resume field: '' @ field)
         else Inr (drop (length prefix) line))"

text \<open>The constructor.\<close>

definition resume_new :: "path \<Rightarrow> string \<Rightarrow> u32 \<Rightarrow> resume_store result" where
  "resume_new p swarm_id n_chunks =
     (if p = [] \<or> swarm_id = [] then throw ''Resume state requires a path and swarm identifier''
      else Inr \<lparr>rs_path = p, rs_swarm_id = swarm_id, rs_chunk_count = n_chunks,
                rs_completed = replicate (unat n_chunks) False, rs_revision = 0, rs_dirty = True\<rparr>)"

text \<open>The new object of the move constructor and the target of the move assignment.\<close>

definition resume_move :: "resume_store \<Rightarrow> resume_store" where
  "resume_move other =
     \<lparr>rs_path = rs_path other, rs_swarm_id = rs_swarm_id other, rs_chunk_count = rs_chunk_count other,
      rs_completed = rs_completed other, rs_revision = rs_revision other, rs_dirty = rs_dirty other\<rparr>"

definition resume_check_index :: "resume_store \<Rightarrow> u32 \<Rightarrow> unit result" where
  "resume_check_index s index =
     (if index \<ge> rs_chunk_count s then throw ''Resume chunk index is outside the manifest'' else Inr ())"

definition resume_mark_complete :: "u32 \<Rightarrow> resume_store \<Rightarrow> resume_store result" where
  "resume_mark_complete index s =
     rbind (resume_check_index s index) (\<lambda>_.
     if \<not> rs_completed s ! unat index
     then Inr (s\<lparr>rs_completed := (rs_completed s)[unat index := True],
                 rs_revision := rs_revision s + 1, rs_dirty := True\<rparr>)
     else Inr s)"

definition resume_mark_incomplete :: "u32 \<Rightarrow> resume_store \<Rightarrow> resume_store result" where
  "resume_mark_incomplete index s =
     rbind (resume_check_index s index) (\<lambda>_.
     if rs_completed s ! unat index
     then Inr (s\<lparr>rs_completed := (rs_completed s)[unat index := False],
                 rs_revision := rs_revision s + 1, rs_dirty := True\<rparr>)
     else Inr s)"

definition resume_complete :: "u32 \<Rightarrow> resume_store \<Rightarrow> bool result" where
  "resume_complete index s = rbind (resume_check_index s index) (\<lambda>_. Inr (rs_completed s ! unat index))"

definition resume_all_complete :: "resume_store \<Rightarrow> bool" where
  "resume_all_complete s \<longleftrightarrow> list_all (\<lambda>complete. complete) (rs_completed s)"

definition resume_completed_chunks :: "resume_store \<Rightarrow> u32 list" where
  "resume_completed_chunks s =
     map of_nat (filter (\<lambda>index. rs_completed s ! index) [0 ..< unat (rs_chunk_count s)])"

section \<open>The text format\<close>

text \<open>The loop over the indexes: the text so far and the flag \<^verbatim>\<open>first\<close>.\<close>

fun resume_index_loop :: "bool list \<Rightarrow> nat list \<Rightarrow> bool \<Rightarrow> string \<Rightarrow> string \<times> bool" where
  "resume_index_loop completed [] first out = (out, first)"
| "resume_index_loop completed (index # rest) first out =
     (if completed ! index
      then resume_index_loop completed rest False ((if \<not> first then out @ '','' else out) @ dec index)
      else resume_index_loop completed rest first out)"

definition resume_serialize :: "resume_store \<Rightarrow> string" where
  "resume_serialize s =
     (let (out, first) =
        resume_index_loop (rs_completed s) [0 ..< unat (rs_chunk_count s)] True
          (''SWARMSYNC_RESUME_V1'' @ [nl] @
           ''swarm_id='' @ rs_swarm_id s @ [nl] @
           ''chunk_count='' @ dec (unat (rs_chunk_count s)) @ [nl] @
           ''complete='')
      in (if first then out @ ''none'' else out) @ [nl])"

text \<open>The loop of \<^verbatim>\<open>load_existing\<close>; \<open>rest\<close> is the part of the value from \<^verbatim>\<open>start\<close> on.\<close>

function resume_load_loop :: "u32 \<Rightarrow> string \<Rightarrow> u32 option \<Rightarrow> bool list \<Rightarrow> bool list result" where
  "resume_load_loop n_chunks rest previous completed =
     (if rest = [] then Inr completed
      else rbind (resume_parse_unsigned (before CHR '','' rest) ''completed chunk'') (\<lambda>index.
        if index \<ge> n_chunks \<or> (previous \<noteq> None \<and> index \<le> the previous)
        then throw ''Resume state contains an invalid completed chunk list''
        else
          let completed = completed[unat index := True]
          in if CHR '','' \<notin> set rest then Inr completed
             else if behind CHR '','' rest = []
               then throw ''Resume state contains an empty completed chunk entry''
             else resume_load_loop n_chunks (behind CHR '','' rest) (Some index) completed))"
  by pat_completeness auto
termination
  by (relation "measure (\<lambda>(n_chunks, rest, previous, completed). length rest)") (auto simp: length_behind)

declare resume_load_loop.simps [simp del]

definition resume_field :: "ifstream \<Rightarrow> path \<Rightarrow> string \<Rightarrow> (string \<times> ifstream) result" where
  "resume_field input p field =
     rbind (resume_read_line input p) (\<lambda>(line, input).
     rbind (resume_require_field line field) (\<lambda>value. Inr (value, input)))"

text \<open>\<^verbatim>\<open>load_existing\<close> from the open stream on: the completion flags it sets.\<close>

definition resume_parse :: "resume_store \<Rightarrow> ifstream \<Rightarrow> bool list result" where
  "resume_parse s input =
     rbind (resume_read_line input (rs_path s)) (\<lambda>(line, input).
     if line \<noteq> ''SWARMSYNC_RESUME_V1'' then throw ''Unsupported resume state format''
     else
       rbind (resume_field input (rs_path s) ''swarm_id'') (\<lambda>(stored_swarm, input).
       rbind (resume_field input (rs_path s) ''chunk_count'') (\<lambda>(value, input).
       rbind (resume_parse_unsigned value ''chunk_count'') (\<lambda>stored_count.
       rbind (resume_field input (rs_path s) ''complete'') (\<lambda>(completed, input).
       if fst (stream_getline input) \<noteq> None then throw ''Resume state contains unexpected trailing data''
       else if stored_swarm \<noteq> rs_swarm_id s \<or> stored_count \<noteq> rs_chunk_count s
         then throw ''Resume state does not match the selected manifest''
       else if completed = ''none'' then Inr (rs_completed s)
       else resume_load_loop (rs_chunk_count s) completed None (rs_completed s))))))"

definition resume_load_existing :: "fs \<Rightarrow> resume_store \<Rightarrow> resume_store result" where
  "resume_load_existing f s =
     (case open_in f (rs_path s) of
        None \<Rightarrow> throw (''Unable to open resume state: '' @ rs_path s)
      | Some input \<Rightarrow> rbind (resume_parse s input) (\<lambda>completed. Inr (s\<lparr>rs_completed := completed\<rparr>)))"

definition resume_load_or_create :: "fs \<Rightarrow> path \<Rightarrow> string \<Rightarrow> u32 \<Rightarrow> resume_store result" where
  "resume_load_or_create f p swarm_id n_chunks =
     rbind (resume_new p swarm_id n_chunks) (\<lambda>store.
     if fs_exists f p
     then rbind (resume_load_existing f store) (\<lambda>store. Inr (store\<lparr>rs_dirty := False\<rparr>))
     else Inr store)"

section \<open>Flushing\<close>

text \<open>
  \<^verbatim>\<open>flush\<close> holds the mutex while it takes its snapshot and again when it clears the dirty flag,
  but not while it writes. The two critical sections, and their composition when nothing
  happens in between.
\<close>

definition flush_begin :: "resume_store \<Rightarrow> (string \<times> u64) option" where
  "flush_begin s = (if \<not> rs_dirty s then None else Some (resume_serialize s, rs_revision s))"

definition flush_end :: "u64 \<Rightarrow> resume_store \<Rightarrow> resume_store" where
  "flush_end revision s = (if rs_revision s = revision then s\<lparr>rs_dirty := False\<rparr> else s)"

definition resume_flush :: "atomic_env \<Rightarrow> resume_store \<Rightarrow> fs \<Rightarrow> unit result \<times> resume_store \<times> fs list" where
  "resume_flush env s f =
     (case flush_begin s of
        None \<Rightarrow> (Inr (), s, [f])
      | Some (snapshot, revision) \<Rightarrow>
          (case write_atomic env f (rs_path s) snapshot of
             (Inl e, states) \<Rightarrow> (Inl e, s, states)
           | (Inr _, states) \<Rightarrow> (Inr (), flush_end revision s, states)))"

section \<open>The parsers keep their contracts\<close>

interpretation rp: unsigned_parser resume_parse_unsigned
proof
  show "resume_parse_unsigned s field = Inr w \<longleftrightarrow> s \<noteq> [] \<and> list_all is_digit s \<and> dec_value s = unat w"
    for s field and w :: "'w::len word"
    using from_chars_complete [of s w]
    by (auto simp: resume_parse_unsigned_def split: prod.splits)
qed

interpretation rr: record_reader resume_read_line resume_require_field
proof
  show "stream_getline i = (Some l, i') \<Longrightarrow> resume_read_line i p = Inr (strip_cr l, i')" for i l i' p
    by (simp add: resume_read_line_def)
  show "stream_getline i = (None, i') \<Longrightarrow> \<exists>e. resume_read_line i p = Inl e" for i i' p
    by (simp add: resume_read_line_def)
  show "resume_require_field line field = Inr v \<longleftrightarrow> line = field @ CHR ''='' # v" for line field v
    by (simp add: resume_require_field_def starts_with_field)
qed

section \<open>A crash never leaves half a resume file\<close>

lemma nodes_write_node: "nodes (write_node f p d) q = (if q = p then Some (Regular d) else nodes f q)"
  by (simp add: write_node_def)

lemma nodes_remove_node: "nodes (remove_node f p) q = (if q = p then None else nodes f q)"
  by (simp add: remove_node_def)

lemma nodes_rename_node:
  "old \<noteq> new \<Longrightarrow>
     nodes (rename_node f old new) q = (if q = new then nodes f old else if q = old then None else nodes f q)"
  by (simp add: rename_node_def)

lemma fs_frame [simp]:
  "unreadable (write_node f p d) = unreadable f" "fault_at (write_node f p d) = fault_at f"
  "unreadable (remove_node f p) = unreadable f" "fault_at (remove_node f p) = fault_at f"
  "unreadable (rename_node f p q) = unreadable f" "fault_at (rename_node f p q) = fault_at f"
  "unreadable (sync_node f p) = unreadable f" "fault_at (sync_node f p) = fault_at f" "nodes (sync_node f p) = nodes f"
  by (simp_all add: write_node_def remove_node_def rename_node_def sync_node_def)

text \<open>What each call leaves unsynced.\<close>

lemma unsynced_simps:
  "unsynced (write_node f p d) q = (if q = p then unsynced f p \<union> changed_bytes (file_data f p) d else unsynced f q)"
  "unsynced (sync_node f p) q = (if q = p then {} else unsynced f q)"
  "unsynced (remove_node f p) q = (if q = p then {} else unsynced f q)"
  "unsynced (rename_node f old new) q = (if q = old then {} else if q = new then unsynced f old else unsynced f q)"
  "unsynced (create_directories f p) = unsynced f"
  by (simp_all add: write_node_def sync_node_def remove_node_def rename_node_def create_directories_def)

lemmas node_simps = nodes_write_node nodes_remove_node nodes_rename_node

text \<open>The parent of a path with a file name is shorter, so making it does not touch the path.\<close>

lemma path_parent_shorter:
  assumes "path_filename p \<noteq> []"
  shows "length (path_parent p) < length p"
proof -
  define d where "d = take (length p - length (path_filename p)) p"
  define stem where "stem = rev (dropWhile (\<lambda>c. c = CHR ''/'') (rev d))"
  have "0 < length (path_filename p)" using assms by simp
  moreover have "length (path_filename p) \<le> length p"
    unfolding path_filename_def by (metis length_rev length_takeWhile_le)
  moreover have "length d = length p - length (path_filename p)" by (simp add: d_def)
  ultimately have d: "length d < length p" by linarith
  have stem: "length stem \<le> length d"
    unfolding stem_def by (metis length_rev length_dropWhile_le)
  have "path_parent p = (if stem = [] \<and> d \<noteq> [] then ''/'' else stem)"
    by (simp add: path_parent_def d_def stem_def Let_def)
  moreover have "d \<noteq> [] \<Longrightarrow> Suc 0 < length p" using d by (cases d) auto
  ultimately show ?thesis using d stem by (cases "stem = [] \<and> d \<noteq> []") auto
qed

lemma dir_prefixes_length: "q \<in> set (dir_prefixes p) \<Longrightarrow> length q \<le> length p"
  by (auto simp: dir_prefixes_def)

lemma nodes_create_directories:
  "length p < length q \<or> nodes f q \<noteq> None \<Longrightarrow> nodes (create_directories f p) q = nodes f q"
  using dir_prefixes_length [of q p] by (auto simp: create_directories_def)

lemma atomic_write_loop_trace:
  "atomic_write_loop es f tmp stored rest = (r, trace) \<Longrightarrow>
     trace \<noteq> [] \<and> (\<forall>g\<in>set trace. \<exists>d. g = write_node f tmp d) \<and>
     (r = Inr () \<longrightarrow> last trace = write_node f tmp (stored @ rest))"
proof (induction es f tmp stored rest arbitrary: r trace rule: atomic_write_loop.induct)
  case (1 f tmp stored rest)
  then show ?case by auto
next
  case (2 e es f tmp stored rest)
  show ?case
  proof (cases "rest = []")
    case True
    with "2.prems" show ?thesis by auto
  next
    case False
    show ?thesis
    proof (cases e)
      case (Wrote k)
      obtain r' trace' where rec:
        "atomic_write_loop es f tmp (stored @ take k rest) (drop k rest) = (r', trace')"
        by fastforce
      with "2.prems" False Wrote have *: "r = r'" "trace = write_node f tmp (stored @ take k rest) # trace'"
        by simp_all
      from "2.IH"(1) [OF False Wrote rec] show ?thesis unfolding * by auto
    next
      case Write_interrupted
      with "2.IH"(2) [OF False Write_interrupted] "2.prems" False show ?thesis by simp
    next
      case (Write_failed m)
      with "2.prems" False show ?thesis by auto
    qed
  qed
qed

text \<open>
  Inside the \<^verbatim>\<open>try\<close> block only the temporary file changes, until it is published whole, and its
  bytes are on the device by then.
\<close>

definition only_written :: "fs \<Rightarrow> path \<Rightarrow> fs \<Rightarrow> bool" where
  "only_written f tmp h \<longleftrightarrow> (\<exists>d. h = write_node f tmp d \<or> h = sync_node (write_node f tmp d) tmp)"

lemma only_written_facts:
  assumes "only_written f tmp h"
  shows "q \<noteq> tmp \<Longrightarrow> nodes h q = nodes f q" and "q \<noteq> tmp \<Longrightarrow> unsynced h q = unsynced f q"
    and "unreadable h = unreadable f" and "fault_at h = fault_at f"
  using assms by (auto simp: only_written_def nodes_write_node unsynced_simps)

lemma atomic_publish_trace:
  assumes "atomic_publish env f p tmp content = (r, trace)" and "tmp \<noteq> p"
  shows "trace \<noteq> [] \<and>
    (r = Inr () \<longrightarrow> (\<exists>t. trace = t @ [rename_node (sync_node (write_node f tmp content) tmp) tmp p] \<and>
       (\<forall>h\<in>set t. only_written f tmp h))) \<and>
    (r \<noteq> Inr () \<longrightarrow> (\<forall>h\<in>set trace. only_written f tmp h))"
proof -
  obtain r' t where loop: "atomic_write_loop (wa_writes env) f tmp [] content = (r', t)" by fastforce
  note T = atomic_write_loop_trace [OF loop]
  then have all: "t \<noteq> [] \<and> (\<forall>h\<in>set t. only_written f tmp h)" by (auto simp: only_written_def)
  show ?thesis
  proof (cases r')
    case (Inl e)
    with assms(1) all show ?thesis by (auto simp: atomic_publish_def loop)
  next
    case (Inr u)
    then have last: "last t = write_node f tmp content" using T by simp
    then have "only_written f tmp (sync_node (last t) tmp)" by (auto simp: only_written_def)
    with assms(1) all Inr last show ?thesis
      by (auto simp: atomic_publish_def loop Let_def split: option.splits)
  qed
qed

lemma write_atomic_trace:
  assumes "path_filename p \<noteq> []" and "write_atomic env f p content = (r, states)"
  shows "(\<forall>g\<in>set states. nodes g p = nodes f p \<or> nodes g p = Some (Regular content)) \<and>
    (r = Inr () \<longrightarrow> nodes (last states) p = Some (Regular content) \<and>
       nodes (last states) (p @ ''.tmp'') = None) \<and>
    (r \<noteq> Inr () \<longrightarrow> (\<forall>g\<in>set states. nodes g p = nodes f p)) \<and>
    (\<forall>g\<in>set states. \<forall>q. q \<noteq> p \<longrightarrow> q \<noteq> p @ ''.tmp'' \<longrightarrow> nodes f q \<noteq> None \<longrightarrow> nodes g q = nodes f q) \<and>
    (\<forall>g\<in>set states. unreadable g = unreadable f \<and> fault_at g = fault_at f) \<and> states \<noteq> [] \<and>
    (unsynced f p = {} \<longrightarrow> (\<forall>g\<in>set states. unsynced g p = {})) \<and>
    (r = Inr () \<longrightarrow> unsynced (last states) p = {}) \<and>
    (\<forall>g\<in>set states. \<forall>q. q \<noteq> p \<longrightarrow> q \<noteq> p @ ''.tmp'' \<longrightarrow> unsynced g q = unsynced f q)"
proof -
  let ?tmp = "p @ ''.tmp''"
  define f1 where "f1 = (if path_parent p \<noteq> [] then create_directories f (path_parent p) else f)"
  have f1p: "nodes f1 p = nodes f p"
    using path_parent_shorter [OF assms(1)] by (simp add: f1_def nodes_create_directories)
  have f1q: "nodes f q \<noteq> None \<Longrightarrow> nodes f1 q = nodes f q" for q
    by (simp add: f1_def nodes_create_directories)
  have f1f: "unreadable f1 = unreadable f \<and> fault_at f1 = fault_at f \<and> unsynced f1 = unsynced f"
    by (simp add: f1_def create_directories_def)
  note defs = write_atomic_def Let_def f1_def [symmetric]
  show ?thesis
  proof (cases "mkdir_fault env f (path_parent p) = None \<and> open_fault env f1 ?tmp = None")
    case False
    then have "r \<noteq> Inr () \<and> set states \<subseteq> {f, f1} \<and> states \<noteq> []"
      using assms(2) unfolding defs by (auto split: option.splits)
    then show ?thesis using f1p f1q f1f by auto
  next
    case True
    obtain r' t where pub: "atomic_publish env (write_node f1 ?tmp []) p ?tmp content = (r', t)" by fastforce
    have st: "r = r'" "states = f # f1 # write_node f1 ?tmp [] # t @
        (if r' = Inr () then [] else [remove_node (last t) ?tmp])"
      using assms(2) True unfolding defs by (auto simp: pub split: sum.splits)
    note P = atomic_publish_trace [OF pub]
    show ?thesis
    proof (cases "r' = Inr ()")
      case True
      with P obtain t' where
        t: "t = t' @ [rename_node (sync_node (write_node (write_node f1 ?tmp []) ?tmp content) ?tmp) ?tmp p]"
        and t': "\<forall>h\<in>set t'. only_written (write_node f1 ?tmp []) ?tmp h" by auto
      show ?thesis unfolding st t using True f1p f1q f1f t'
        by (auto simp: node_simps unsynced_simps only_written_facts)
    next
      case False
      with P have ne: "t \<noteq> []" and t: "\<forall>h\<in>set t. only_written (write_node f1 ?tmp []) ?tmp h" by auto
      then have "only_written (write_node f1 ?tmp []) ?tmp (last t)" using last_in_set by blast
      with t False f1p f1q f1f show ?thesis unfolding st
        by (auto simp: node_simps unsynced_simps only_written_facts)
    qed
  qed
qed

lemma write_atomic_states:
  assumes "path_filename p \<noteq> []" and "write_atomic env f p content = (r, states)"
  shows "(\<forall>g\<in>set states. nodes g p = nodes f p \<or> nodes g p = Some (Regular content)) \<and>
    (r = Inr () \<longrightarrow> nodes (last states) p = Some (Regular content) \<and>
       nodes (last states) (p @ ''.tmp'') = None) \<and>
    (r \<noteq> Inr () \<longrightarrow> (\<forall>g\<in>set states. nodes g p = nodes f p)) \<and>
    (\<forall>g\<in>set states. \<forall>q. q \<noteq> p \<longrightarrow> q \<noteq> p @ ''.tmp'' \<longrightarrow> nodes f q \<noteq> None \<longrightarrow> nodes g q = nodes f q) \<and>
    (\<forall>g\<in>set states. unreadable g = unreadable f \<and> fault_at g = fault_at f) \<and> states \<noteq> []"
  using write_atomic_trace [OF assms] by simp

lemma write_atomic_synced:
  assumes "path_filename p \<noteq> []" and "write_atomic env f p content = (r, states)"
  shows "unsynced f p = {} \<Longrightarrow> g \<in> set states \<Longrightarrow> unsynced g p = {}"
    and "r = Inr () \<Longrightarrow> unsynced (last states) p = {}"
    and "q \<noteq> p \<Longrightarrow> q \<noteq> p @ ''.tmp'' \<Longrightarrow> g \<in> set states \<Longrightarrow> unsynced g q = unsynced f q"
  using write_atomic_trace [OF assms] by simp_all

text \<open>
  C15. Atomic replacement (\<^verbatim>\<open>write_atomic\<close>): whatever the system calls answer, and after
  whichever of them the process dies, the file at the target path is either the old one or
  the complete new one. When the call returns, it is the new one and the temporary file is
  gone; when it throws, the target was never touched. No other existing file changes. The same
  holds when the power fails: if the old file was on the device, no state has a byte at the
  target that was not synced, and the file that is there when the call returns is synced.
\<close>

theorem write_atomic_crash_safe:
  assumes "path_filename p \<noteq> []" and "write_atomic env f p content = (r, states)"
  shows "(\<forall>g\<in>set states. nodes g p = nodes f p \<or> nodes g p = Some (Regular content)) \<and>
    (r = Inr () \<longrightarrow> nodes (last states) p = Some (Regular content) \<and>
       nodes (last states) (p @ ''.tmp'') = None) \<and>
    (r \<noteq> Inr () \<longrightarrow> (\<forall>g\<in>set states. nodes g p = nodes f p)) \<and>
    (\<forall>g\<in>set states. \<forall>q. q \<noteq> p \<longrightarrow> q \<noteq> p @ ''.tmp'' \<longrightarrow> nodes f q \<noteq> None \<longrightarrow> nodes g q = nodes f q) \<and>
    (unsynced f p = {} \<longrightarrow> (\<forall>g\<in>set states. unsynced g p = {})) \<and>
    (r = Inr () \<longrightarrow> unsynced (last states) p = {})"
  using write_atomic_trace [OF assms] by simp

section \<open>A disk that works\<close>

text \<open>System calls that report no error; writes may still be short and interrupted.\<close>

definition atomic_works :: "atomic_env \<Rightarrow> bool" where
  "atomic_works env \<longleftrightarrow> wa_mkdir env = None \<and> wa_open env = None \<and> wa_fsync env = None \<and> wa_close env = None \<and>
     wa_rename env = None \<and> (\<forall>m. Write_failed m \<notin> set (wa_writes env))"

text \<open>The place of the resume file: its directories are there, and it is not a directory itself.\<close>

definition resume_site :: "fs \<Rightarrow> path \<Rightarrow> bool" where
  "resume_site f p \<longleftrightarrow> (\<forall>q\<in>set (dir_prefixes (path_parent p)). nodes f q = Some Directory) \<and>
     nodes f p \<noteq> Some Directory \<and> nodes f (p @ ''.tmp'') \<noteq> Some Directory"

lemma atomic_write_loop_works:
  "\<forall>m. Write_failed m \<notin> set es \<Longrightarrow> fst (atomic_write_loop es f tmp stored rest) = Inr ()"
  by (induction es f tmp stored rest rule: atomic_write_loop.induct) (auto simp: Let_def split: write_event.splits prod.splits)

lemma write_atomic_works:
  assumes name: "path_filename p \<noteq> []" and site: "resume_site f p" and env: "atomic_works env"
  shows "\<exists>states. write_atomic env f p content = (Inr (), states) \<and> resume_site (last states) p"
proof -
  let ?tmp = "p @ ''.tmp''"
  define f1 where "f1 = (if path_parent p \<noteq> [] then create_directories f (path_parent p) else f)"
  have f1: "nodes f1 p = nodes f p" "nodes f1 ?tmp = nodes f ?tmp"
    using path_parent_shorter [OF name] by (simp_all add: f1_def nodes_create_directories)
  obtain r trace where loop: "atomic_write_loop (wa_writes env) (write_node f1 ?tmp []) ?tmp [] content = (r, trace)" by fastforce
  have r: "r = Inr ()"
    using atomic_write_loop_works [of "wa_writes env" "write_node f1 ?tmp []" ?tmp "[]" content] loop env by (simp add: atomic_works_def)
  then have last: "last trace = write_node (write_node f1 ?tmp []) ?tmp content"
    using atomic_write_loop_trace [OF loop] by simp
  have "nodes (last trace) p \<noteq> Some Directory" using site f1 by (simp add: last node_simps resume_site_def)
  then obtain t where pub: "atomic_publish env (write_node f1 ?tmp []) p ?tmp content = (Inr (), t)"
    using env by (simp add: atomic_publish_def loop r atomic_works_def rename_fault_def or_fault_def Let_def)
  have "mkdir_fault env f (path_parent p) = None"
    using site env by (auto simp: mkdir_fault_def or_fault_def atomic_works_def resume_site_def list_ex_iff)
  moreover have "open_fault env f1 ?tmp = None"
    using site env f1 by (simp add: open_fault_def or_fault_def atomic_works_def resume_site_def)
  ultimately obtain states where w: "write_atomic env f p content = (Inr (), states)"
    by (simp add: write_atomic_def f1_def [symmetric] pub Let_def)
  have W: "nodes (last states) p = Some (Regular content)" "nodes (last states) ?tmp = None"
    "\<And>q. q \<noteq> p \<Longrightarrow> q \<noteq> ?tmp \<Longrightarrow> nodes f q \<noteq> None \<Longrightarrow> nodes (last states) q = nodes f q"
    using write_atomic_states [OF name w] by simp_all
  have "nodes (last states) q = Some Directory" if "q \<in> set (dir_prefixes (path_parent p))" for q
  proof -
    have "length q < length p" using dir_prefixes_length [OF that] path_parent_shorter [OF name] by simp
    then show ?thesis using W(3) [of q] site that by (auto simp: resume_site_def)
  qed
  with w W(1,2) show ?thesis by (simp add: resume_site_def)
qed

lemma resume_flush_works:
  assumes "path_filename (rs_path s) \<noteq> []" and "resume_site f (rs_path s)" and "atomic_works env"
  shows "\<exists>s' states. resume_flush env s f = (Inr (), s', states) \<and> resume_site (last states) (rs_path s)"
proof (cases "rs_dirty s")
  case True
  with write_atomic_works [OF assms, of "resume_serialize s"] show ?thesis by (auto simp: resume_flush_def flush_begin_def)
qed (use assms in \<open>auto simp: resume_flush_def flush_begin_def\<close>)

lemma flush_trace_nonempty: "resume_flush env s f = (r, s', states) \<Longrightarrow> states \<noteq> []"
  by (auto simp: resume_flush_def write_atomic_def Let_def split: option.splits prod.splits sum.splits)

text \<open>A state directory with an older file, and a write that is split and interrupted.\<close>

definition sample_atomic_env :: atomic_env where
  "sample_atomic_env = \<lparr>wa_mkdir = None, wa_open = None, wa_writes = [Wrote 1, Write_interrupted, Wrote 2],
     wa_fsync = None, wa_close = None, wa_rename = None\<rparr>"

definition empty_fs :: fs where
  "empty_fs = \<lparr>nodes = Map.empty, unreadable = (\<lambda>_. False), fault_at = (\<lambda>_. None), unsynced = (\<lambda>_. {})\<rparr>"

lemma sample_atomic_works: "atomic_works sample_atomic_env"
  by (simp add: atomic_works_def sample_atomic_env_def)

lemma sample_atomic_ok:
  assumes "nodes f ''r'' \<noteq> Some Directory" and "nodes f ''r.tmp'' \<noteq> Some Directory"
  shows "write_atomic sample_atomic_env f ''r'' b = (Inr (), snd (write_atomic sample_atomic_env f ''r'' b))"
proof -
  have "path_filename ''r'' \<noteq> []" "resume_site f ''r''"
    using assms by (simp_all add: path_filename_def path_parent_def dir_prefixes_def resume_site_def)
  from write_atomic_works [OF this sample_atomic_works, of b] show ?thesis by auto
qed

lemma sample_atomic_run:
  "write_atomic sample_atomic_env (write_node empty_fs ''r'' ''old'') ''r'' ''abcd'' =
     (Inr (), snd (write_atomic sample_atomic_env (write_node empty_fs ''r'' ''old'') ''r'' ''abcd''))"
  by (rule sample_atomic_ok) (simp_all add: node_simps empty_fs_def)

theorem write_atomic_crash_safe_witness:
  "nodes (last (snd (write_atomic sample_atomic_env (write_node empty_fs ''r'' ''old'') ''r'' ''abcd''))) ''r'' =
     Some (Regular ''abcd'') \<and>
   unsynced (last (snd (write_atomic sample_atomic_env (write_node empty_fs ''r'' ''old'') ''r'' ''abcd''))) ''r'' = {}"
  using write_atomic_crash_safe [OF _ sample_atomic_run] by (simp add: path_filename_def)

section \<open>The store as a set of chunks\<close>

definition wf_store :: "resume_store \<Rightarrow> bool" where
  "wf_store s \<longleftrightarrow> length (rs_completed s) = unat (rs_chunk_count s)"

definition done_chunks :: "resume_store \<Rightarrow> u32 set" where
  "done_chunks s = {i. i < rs_chunk_count s \<and> rs_completed s ! unat i}"

text \<open>What the download coordinator and the peer server rely on when they use the store.\<close>

locale chunk_ledger =
  fixes wf :: "'s \<Rightarrow> bool"
    and bound :: "'s \<Rightarrow> u32"
    and members :: "'s \<Rightarrow> u32 set"
    and mark :: "u32 \<Rightarrow> 's \<Rightarrow> 's result"
    and unmark :: "u32 \<Rightarrow> 's \<Rightarrow> 's result"
    and query :: "u32 \<Rightarrow> 's \<Rightarrow> bool result"
    and everything :: "'s \<Rightarrow> bool"
    and listing :: "'s \<Rightarrow> u32 list"
  assumes members_bound: "wf s \<Longrightarrow> i \<in> members s \<Longrightarrow> i < bound s"
    and mark_Inr: "wf s \<Longrightarrow> i < bound s \<Longrightarrow>
      \<exists>s'. mark i s = Inr s' \<and> wf s' \<and> bound s' = bound s \<and> members s' = insert i (members s)"
    and unmark_Inr: "wf s \<Longrightarrow> i < bound s \<Longrightarrow>
      \<exists>s'. unmark i s = Inr s' \<and> wf s' \<and> bound s' = bound s \<and> members s' = members s - {i}"
    and query_Inr: "wf s \<Longrightarrow> i < bound s \<Longrightarrow> query i s = Inr (i \<in> members s)"
    and outside: "\<not> i < bound s \<Longrightarrow>
      (\<exists>e. mark i s = Inl e) \<and> (\<exists>e. unmark i s = Inl e) \<and> (\<exists>e. query i s = Inl e)"
    and everything_iff: "wf s \<Longrightarrow> everything s \<longleftrightarrow> members s = {i. i < bound s}"
    and listing_set: "wf s \<Longrightarrow> set (listing s) = members s \<and> sorted (listing s) \<and> distinct (listing s)"
begin

text \<open>Striking out the listed chunks that fail a test leaves the ones that pass.\<close>

lemma strike_out:
  "wf s \<Longrightarrow> set is \<subseteq> {i. i < bound s} \<Longrightarrow>
     \<exists>s'. rfold (\<lambda>i s. if ok i then Inr s else unmark i s) is s = Inr s' \<and> wf s' \<and> bound s' = bound s \<and>
       members s' = members s - {i \<in> set is. \<not> ok i}"
proof (induction "is" arbitrary: s)
  case (Cons i "is")
  show ?case
  proof (cases "ok i")
    case True
    with Cons.IH [of s] Cons.prems obtain s' where
      "rfold (\<lambda>i s. if ok i then Inr s else unmark i s) is s = Inr s'" "wf s'" "bound s' = bound s"
      "members s' = members s - {i \<in> set is. \<not> ok i}" by auto
    with True show ?thesis by (intro exI [of _ s']) auto
  next
    case False
    obtain t where t: "unmark i s = Inr t" "wf t" "bound t = bound s" "members t = members s - {i}"
      using unmark_Inr [of s i] Cons.prems by auto
    with Cons.IH [of t] Cons.prems obtain s' where
      "rfold (\<lambda>i s. if ok i then Inr s else unmark i s) is t = Inr s'" "wf s'" "bound s' = bound s"
      "members s' = members s - {i} - {i \<in> set is. \<not> ok i}" by auto
    with t False show ?thesis by (intro exI [of _ s']) auto
  qed
qed simp

lemma strike_out_listing:
  assumes "wf s"
  shows "\<exists>s'. rfold (\<lambda>i s. if ok i then Inr s else unmark i s) (listing s) s = Inr s' \<and> wf s' \<and>
    bound s' = bound s \<and> members s' = {i \<in> members s. ok i}"
proof -
  have "set (listing s) \<subseteq> {i. i < bound s}" using listing_set members_bound assms by auto
  from strike_out [OF assms this, of ok] obtain s' where
    "rfold (\<lambda>i s. if ok i then Inr s else unmark i s) (listing s) s = Inr s'" "wf s'" "bound s' = bound s"
    "members s' = members s - {i \<in> set (listing s). \<not> ok i}" by auto
  moreover have "members s - {i \<in> set (listing s). \<not> ok i} = {i \<in> members s. ok i}"
    using listing_set [OF assms] by auto
  ultimately show ?thesis by simp
qed

lemma mark_all:
  "wf s \<Longrightarrow> set is \<subseteq> {i. i < bound s} \<Longrightarrow>
     \<exists>s'. rfold mark is s = Inr s' \<and> wf s' \<and> bound s' = bound s \<and> members s' = members s \<union> set is"
proof (induction "is" arbitrary: s)
  case (Cons i "is")
  obtain t where t: "mark i s = Inr t" "wf t" "bound t = bound s" "members t = insert i (members s)"
    using mark_Inr [of s i] Cons.prems by auto
  with Cons.IH [of t] Cons.prems show ?case by auto
qed simp

end

lemma nth_update_unat:
  "length xs = unat n \<Longrightarrow> i < n \<Longrightarrow> xs[unat i := b] ! unat j = (if j = i then b else xs ! unat j)"
  by (auto simp: nth_list_update word_less_nat_alt dest: injD [OF inj_unat])

lemma completed_indexes:
  "map unat (resume_completed_chunks s) =
     filter (\<lambda>i. rs_completed s ! i) [0..<unat (rs_chunk_count s)]"
proof -
  have "unat (rs_chunk_count s) < 2 ^ 32" using unsigned_less [of "rs_chunk_count s"] by simp
  then show ?thesis unfolding resume_completed_chunks_def by (intro map_unat_of_nat) auto
qed

lemma completed_listing:
  "set (resume_completed_chunks s) = done_chunks s \<and> sorted (resume_completed_chunks s) \<and>
    distinct (resume_completed_chunks s)"
proof (intro conjI)
  have "unat ` set (resume_completed_chunks s) = {i. i < unat (rs_chunk_count s) \<and> rs_completed s ! i}"
    unfolding set_map [symmetric] completed_indexes by auto
  also have "\<dots> = unat ` done_chunks s"
    unfolding done_chunks_def by (auto simp: word_less_nat_alt image_iff)
      (metis le_unat_uoi less_or_eq_imp_le)
  finally show "set (resume_completed_chunks s) = done_chunks s"
    by (simp add: inj_image_eq_iff inj_unat)
  have "sorted (map unat (resume_completed_chunks s))" "distinct (map unat (resume_completed_chunks s))"
    unfolding completed_indexes by (simp_all add: sorted_filter [of id, simplified])
  then show "sorted (resume_completed_chunks s)" "distinct (resume_completed_chunks s)"
    by (simp_all only: sorted_map_unat distinct_map_unat)
qed


lemma mark_complete_done:
  assumes "wf_store s" and "i < rs_chunk_count s"
  shows "\<exists>s'. resume_mark_complete i s = Inr s' \<and> wf_store s' \<and> rs_chunk_count s' = rs_chunk_count s \<and>
    done_chunks s' = insert i (done_chunks s)"
proof (cases "rs_completed s ! unat i")
  case True
  with assms show ?thesis by (auto simp: resume_mark_complete_def resume_check_index_def done_chunks_def)
next
  case False
  with assms show ?thesis
    by (auto simp: resume_mark_complete_def resume_check_index_def done_chunks_def wf_store_def
        nth_update_unat split: if_splits)
qed

lemma mark_incomplete_done:
  assumes "wf_store s" and "i < rs_chunk_count s"
  shows "\<exists>s'. resume_mark_incomplete i s = Inr s' \<and> wf_store s' \<and> rs_chunk_count s' = rs_chunk_count s \<and>
    done_chunks s' = done_chunks s - {i}"
proof (cases "rs_completed s ! unat i")
  case False
  with assms show ?thesis by (auto simp: resume_mark_incomplete_def resume_check_index_def done_chunks_def)
next
  case True
  with assms show ?thesis
    by (auto simp: resume_mark_incomplete_def resume_check_index_def done_chunks_def wf_store_def
        nth_update_unat split: if_splits)
qed

lemma all_complete_done:
  assumes "wf_store s"
  shows "resume_all_complete s \<longleftrightarrow> done_chunks s = {i. i < rs_chunk_count s}"
proof -
  have "resume_all_complete s \<longleftrightarrow> (\<forall>k < unat (rs_chunk_count s). rs_completed s ! k)"
    using assms by (simp add: resume_all_complete_def list_all_length wf_store_def)
  also have "\<dots> \<longleftrightarrow> (\<forall>i < rs_chunk_count s. rs_completed s ! unat i)"
    by (auto simp: word_less_nat_alt) (metis le_unat_uoi less_or_eq_imp_le)
  finally show ?thesis by (auto simp: done_chunks_def)
qed

lemmas resume_op_defs = resume_mark_complete_def resume_mark_incomplete_def resume_complete_def
  resume_check_index_def

interpretation rl: chunk_ledger wf_store rs_chunk_count done_chunks resume_mark_complete
  resume_mark_incomplete resume_complete resume_all_complete resume_completed_chunks
proof
  show "wf_store s \<Longrightarrow> i \<in> done_chunks s \<Longrightarrow> i < rs_chunk_count s" for s i
    by (simp add: done_chunks_def)
  show "wf_store s \<Longrightarrow> i < rs_chunk_count s \<Longrightarrow> resume_complete i s = Inr (i \<in> done_chunks s)" for s i
    by (simp add: resume_op_defs done_chunks_def)
  show "\<not> i < rs_chunk_count s \<Longrightarrow> (\<exists>e. resume_mark_complete i s = Inl e) \<and>
      (\<exists>e. resume_mark_incomplete i s = Inl e) \<and> (\<exists>e. resume_complete i s = Inl e)" for s i
    by (simp add: resume_op_defs)
qed (simp_all only: mark_complete_done mark_incomplete_done all_complete_done completed_listing)

text \<open>
  C27. The store behaves as a finite set of chunk indexes (\<^verbatim>\<open>mark_complete\<close>,
  \<^verbatim>\<open>mark_incomplete\<close>, \<^verbatim>\<open>complete\<close>, \<^verbatim>\<open>all_complete\<close>, \<^verbatim>\<open>completed_chunks\<close>): marking adds the
  index, unmarking removes it, the query is membership, and each throws for an index outside
  the manifest; the listing enumerates the set in ascending order without repetition; and
  \<^verbatim>\<open>all_complete\<close> holds exactly when every index of the manifest is in the set.
\<close>

theorem resume_store_is_set:
  assumes "wf_store s"
  shows "(if i < rs_chunk_count s
      then (\<exists>s'. resume_mark_complete i s = Inr s' \<and> wf_store s' \<and> done_chunks s' = insert i (done_chunks s)) \<and>
        (\<exists>s'. resume_mark_incomplete i s = Inr s' \<and> wf_store s' \<and> done_chunks s' = done_chunks s - {i}) \<and>
        resume_complete i s = Inr (i \<in> done_chunks s)
      else (\<exists>e. resume_mark_complete i s = Inl e) \<and> (\<exists>e. resume_mark_incomplete i s = Inl e) \<and>
        (\<exists>e. resume_complete i s = Inl e)) \<and>
    set (resume_completed_chunks s) = done_chunks s \<and> sorted (resume_completed_chunks s) \<and>
    distinct (resume_completed_chunks s) \<and>
    (resume_all_complete s \<longleftrightarrow> done_chunks s = {i. i < rs_chunk_count s})"
  using rl.mark_Inr [OF assms, of i] rl.unmark_Inr [OF assms, of i] rl.query_Inr [OF assms, of i]
    rl.outside [of i s] rl.listing_set [OF assms] rl.everything_iff [OF assms]
  by auto

definition sample_store :: resume_store where
  "sample_store = \<lparr>rs_path = ''r'', rs_swarm_id = ''ab'', rs_chunk_count = 3,
     rs_completed = [True, False, True], rs_revision = 4, rs_dirty = True\<rparr>"

lemma sample_store_wf: "wf_store sample_store"
  by (simp add: wf_store_def sample_store_def)

theorem resume_store_is_set_witness:
  "resume_complete 1 sample_store = Inr ((1::u32) \<in> done_chunks sample_store) \<and>
   (\<exists>e. resume_complete 3 sample_store = Inl e)"
  using resume_store_is_set [OF sample_store_wf, of 1] resume_store_is_set [OF sample_store_wf, of 3]
  by (simp add: sample_store_def split: if_splits)

section \<open>Writing and reading back\<close>

lemma resume_index_loop_eq:
  "resume_index_loop completed is first out =
     (let ks = filter (\<lambda>i. completed ! i) is
      in (out @ (if ks \<noteq> [] \<and> \<not> first then '','' else []) @ join_with CHR '','' (map dec ks), first \<and> ks = []))"
  by (induction "is" arbitrary: first out) (auto simp: Let_def join_with_Cons)

lemma resume_serialize_lines:
  "resume_serialize s =
     ''SWARMSYNC_RESUME_V1'' @ nl # ''swarm_id='' @ rs_swarm_id s @ nl #
     ''chunk_count='' @ dec (unat (rs_chunk_count s)) @ nl # ''complete='' @
     (if resume_completed_chunks s = [] then ''none'' else chunk_text (resume_completed_chunks s)) @ [nl]"
proof -
  let ?ks = "filter (\<lambda>i. rs_completed s ! i) [0..<unat (rs_chunk_count s)]"
  have "chunk_text (resume_completed_chunks s) = join_with CHR '','' (map dec ?ks)"
    unfolding chunk_text_def completed_indexes [symmetric] by (simp add: comp_def)
  moreover have "resume_completed_chunks s = [] \<longleftrightarrow> ?ks = []"
    unfolding completed_indexes [symmetric] by simp
  ultimately show ?thesis
    unfolding resume_serialize_def resume_index_loop_eq Let_def by simp
qed

text \<open>A strictly ascending list of indexes below the bound is accepted entry by entry.\<close>

lemma resume_load_loop_chunks:
  assumes "sorted cs" and "distinct cs" and "\<forall>c\<in>set cs. c < n"
    and "\<forall>p. previous = Some p \<longrightarrow> (\<forall>c\<in>set cs. p < c)" and "cs \<noteq> []"
  shows "resume_load_loop n (chunk_text cs) previous completed =
    Inr (foldl (\<lambda>flags c. flags[unat c := True]) completed cs)"
  using assms
proof (induction cs arbitrary: previous completed)
  case (Cons c cs)
  have ok: "\<not> (n \<le> c \<or> (previous \<noteq> None \<and> c \<le> the previous))"
    using Cons.prems by (cases previous) auto
  have digits: "CHR '','' \<notin> set (dec (unat c))" by simp
  show ?case
  proof (cases "cs = []")
    case True
    with ok show ?thesis by (subst resume_load_loop.simps) simp
  next
    case False
    have later: "\<forall>p. Some c = Some p \<longrightarrow> (\<forall>d\<in>set cs. p < d)"
      using Cons.prems by (auto simp: less_le)
    have "resume_load_loop n (chunk_text cs) (Some c) (completed[unat c := True]) =
        Inr (foldl (\<lambda>flags c. flags[unat c := True]) (completed[unat c := True]) cs)"
      by (rule Cons.IH [OF _ _ _ later False]) (use Cons.prems in auto)
    with ok False chunk_text_nonempty [OF False] show ?thesis
      by (subst resume_load_loop.simps) (simp add: rp.parse_dec_unat)
  qed
qed simp

lemma foldl_flags_length [simp]:
  "length (foldl (\<lambda>flags c. flags[unat c := True]) flags cs) = length flags"
  by (induction cs arbitrary: flags) simp_all

lemma foldl_flags_nth:
  "k < length flags \<Longrightarrow>
     foldl (\<lambda>flags c. flags[unat c := True]) flags cs ! k \<longleftrightarrow> flags ! k \<or> k \<in> unat ` set cs"
proof (induction cs arbitrary: flags)
  case (Cons c cs)
  then show ?case by (cases "k = unat c") simp_all
qed simp

text \<open>Setting the listed flags in an empty store restores the flags.\<close>

lemma flags_restored:
  assumes "wf_store s"
  shows "foldl (\<lambda>flags c. flags[unat c := True]) (replicate (unat (rs_chunk_count s)) False)
    (resume_completed_chunks s) = rs_completed s"
proof (rule nth_equalityI)
  show "length (foldl (\<lambda>flags c. flags[unat c := True]) (replicate (unat (rs_chunk_count s)) False)
      (resume_completed_chunks s)) = length (rs_completed s)"
    using assms by (simp add: wf_store_def)
  fix k assume "k < length (foldl (\<lambda>flags c. flags[unat c := True])
      (replicate (unat (rs_chunk_count s)) False) (resume_completed_chunks s))"
  then have k: "k < unat (rs_chunk_count s)" by simp
  have "unat ` set (resume_completed_chunks s) = {k. k < unat (rs_chunk_count s) \<and> rs_completed s ! k}"
    unfolding set_map [symmetric] completed_indexes by auto
  with k show "foldl (\<lambda>flags c. flags[unat c := True]) (replicate (unat (rs_chunk_count s)) False)
      (resume_completed_chunks s) ! k = rs_completed s ! k"
    by (simp add: foldl_flags_nth)
qed

lemma resume_field_line:
  assumes "stream_good i" and "in_data i = field @ CHR ''='' # v @ nl # rest"
    and "nl \<notin> set field \<union> set v" and "cr \<notin> set field \<union> set v"
  shows "resume_field i p field = Inr (v, i\<lparr>in_data := rest\<rparr>)"
  unfolding resume_field_def by (rule rr.read_required_field [OF assms])

definition text_id :: "string \<Rightarrow> bool" where
  "text_id x \<longleftrightarrow> x \<noteq> [] \<and> nl \<notin> set x \<and> cr \<notin> set x"

lemma chunk_text_chars: "set (chunk_text cs) \<subseteq> insert CHR '','' {c. is_digit c}"
proof -
  have "set (dec n) \<subseteq> {c. is_digit c}" for n using dec_digits [of n] by (auto simp: list_all_iff)
  then show ?thesis
    unfolding chunk_text_def by (intro subset_trans [OF set_join_with]) auto
qed

lemma resume_parse_serialized:
  assumes "wf_store s" and "text_id (rs_swarm_id s)"
    and "rs_completed t = replicate (unat (rs_chunk_count t)) False"
  shows "resume_parse t (stream_of (resume_serialize s)) =
    (if rs_swarm_id s = rs_swarm_id t \<and> rs_chunk_count s = rs_chunk_count t then Inr (rs_completed s)
     else throw ''Resume state does not match the selected manifest'')"
proof -
  let ?cs = "resume_completed_chunks s"
  define v where "v = (if ?cs = [] then ''none'' else chunk_text ?cs)"
  define i where "i = stream_of (resume_serialize s)"
  have good: "stream_good (i\<lparr>in_data := d\<rparr>)" for d by (simp add: i_def)
  have v: "nl \<notin> set v" "cr \<notin> set v" using chunk_text_chars [of ?cs] by (auto simp: v_def)
  have id: "nl \<notin> set (rs_swarm_id s)" "cr \<notin> set (rs_swarm_id s)" using assms(2) by (simp_all add: text_id_def)
  define l3 where "l3 = ''complete='' @ v @ [nl]"
  define l2 where "l2 = ''chunk_count='' @ dec (unat (rs_chunk_count s)) @ nl # l3"
  define l1 where "l1 = ''swarm_id='' @ rs_swarm_id s @ nl # l2"
  have data: "in_data i = ''SWARMSYNC_RESUME_V1'' @ nl # l1"
    unfolding i_def in_data_stream_of resume_serialize_lines l1_def l2_def l3_def v_def by simp
  have r0: "resume_read_line i (rs_path t) = Inr (''SWARMSYNC_RESUME_V1'', i\<lparr>in_data := l1\<rparr>)"
    by (rule rr.read_whole_line [OF _ data]) (simp_all add: i_def)
  have r1: "resume_field (i\<lparr>in_data := l1\<rparr>) (rs_path t) ''swarm_id'' = Inr (rs_swarm_id s, i\<lparr>in_data := l2\<rparr>)"
    using id by (subst resume_field_line [OF good]) (simp_all add: l1_def)
  have r2: "resume_field (i\<lparr>in_data := l2\<rparr>) (rs_path t) ''chunk_count'' =
      Inr (dec (unat (rs_chunk_count s)), i\<lparr>in_data := l3\<rparr>)"
    by (subst resume_field_line [OF good]) (simp_all add: l2_def)
  have r3: "resume_field (i\<lparr>in_data := l3\<rparr>) (rs_path t) ''complete'' = Inr (v, i\<lparr>in_data := []\<rparr>)"
    using v by (subst resume_field_line [OF good]) (simp_all add: l3_def)
  have eof: "fst (stream_getline (i\<lparr>in_data := []\<rparr>)) = None"
    using good [of "[]"] by (simp add: stream_getline_def i_def)
  have loop: "?cs \<noteq> [] \<Longrightarrow> resume_load_loop (rs_chunk_count s) v None
      (replicate (unat (rs_chunk_count s)) False) = Inr (rs_completed s)"
    unfolding v_def using completed_listing [of s] rl.members_bound [OF assms(1)]
    by (simp add: resume_load_loop_chunks flags_restored [OF assms(1)])
  have none: "?cs = [] \<Longrightarrow> replicate (unat (rs_chunk_count s)) False = rs_completed s"
    using flags_restored [OF assms(1)] by simp
  have word: "v = ''none'' \<longleftrightarrow> ?cs = []" using chunk_text_not_word(2) [of ?cs] by (simp add: v_def)
  show ?thesis
    unfolding resume_parse_def i_def [symmetric]
    by (cases "?cs = []") (auto simp: r0 r1 r2 r3 eof word assms(3) rp.parse_dec_unat dest: loop none)
qed

text \<open>
  Round trip of the resume text (\<^verbatim>\<open>serialize_locked\<close> and \<^verbatim>\<open>load_existing\<close>): a fresh store for the
  same swarm and chunk count reads back exactly the completion flags that were written, and a
  fresh store for another swarm or another chunk count refuses the text.
\<close>

theorem resume_text_roundtrip:
  assumes "wf_store s" and "text_id (rs_swarm_id s)" and "resume_new p swarm_id n = Inr t"
  shows "resume_parse t (stream_of (resume_serialize s)) =
    (if rs_swarm_id s = swarm_id \<and> rs_chunk_count s = n then Inr (rs_completed s)
     else throw ''Resume state does not match the selected manifest'')"
proof -
  have t: "rs_completed t = replicate (unat (rs_chunk_count t)) False" "rs_swarm_id t = swarm_id"
    "rs_chunk_count t = n"
    using assms(3) by (auto simp: resume_new_def split: if_splits)
  then show ?thesis using resume_parse_serialized [OF assms(1,2) t(1)] by simp
qed

theorem resume_text_roundtrip_witness:
  "resume_parse (case resume_new ''r'' ''ab'' 3 of Inr t \<Rightarrow> t | Inl _ \<Rightarrow> sample_store)
       (stream_of (resume_serialize sample_store)) =
     Inr [True, False, True]"
  using resume_text_roundtrip [OF sample_store_wf, of "''r''" "''ab''" 3]
  by (simp add: sample_store_def text_id_def resume_new_def)

section \<open>Flushing and loading\<close>

lemma load_or_create_local:
  "nodes f p = nodes g p \<Longrightarrow> unreadable f p = unreadable g p \<Longrightarrow> fault_at f p = fault_at g p \<Longrightarrow>
     resume_load_or_create f p swarm_id n = resume_load_or_create g p swarm_id n"
proof -
  assume *: "nodes f p = nodes g p" "unreadable f p = unreadable g p" "fault_at f p = fault_at g p"
  then have "open_in f p = open_in g p" by (simp add: open_in_def cong: option.case_cong node.case_cong)
  with * show ?thesis
    by (cases "p = [] \<or> swarm_id = []")
      (simp_all add: resume_load_or_create_def resume_load_existing_def fs_exists_def resume_new_def)
qed

lemma load_serialized:
  assumes "wf_store s" and "text_id (rs_swarm_id s)" and "rs_path s \<noteq> []"
    and "nodes f (rs_path s) = Some (Regular (resume_serialize s))"
    and "\<not> unreadable f (rs_path s)" and "fault_at f (rs_path s) = None"
  shows "\<exists>t. resume_load_or_create f (rs_path s) (rs_swarm_id s) (rs_chunk_count s) = Inr t \<and>
    rs_completed t = rs_completed s \<and> \<not> rs_dirty t"
proof -
  define t where "t = \<lparr>rs_path = rs_path s, rs_swarm_id = rs_swarm_id s, rs_chunk_count = rs_chunk_count s,
    rs_completed = replicate (unat (rs_chunk_count s)) False, rs_revision = 0, rs_dirty = True\<rparr>"
  have new: "resume_new (rs_path s) (rs_swarm_id s) (rs_chunk_count s) = Inr t"
    using assms(2,3) by (simp add: resume_new_def t_def text_id_def)
  have "open_in f (rs_path t) = Some (stream_of (resume_serialize s))"
    using assms(4-6) by (simp add: open_in_def t_def)
  moreover have "resume_parse t (stream_of (resume_serialize s)) = Inr (rs_completed s)"
    using resume_parse_serialized [OF assms(1,2), of t] by (simp add: t_def)
  ultimately show ?thesis
    using assms(4) by (simp add: resume_load_or_create_def new resume_load_existing_def fs_exists_def)
qed

lemma load_or_create_Inr:
  assumes "resume_load_or_create f p swarm_id n = Inr s"
  shows "rs_path s = p \<and> rs_swarm_id s = swarm_id \<and> rs_chunk_count s = n \<and> p \<noteq> [] \<and> swarm_id \<noteq> [] \<and>
    (rs_dirty s \<longleftrightarrow> \<not> fs_exists f p) \<and> (rs_dirty s \<longrightarrow> rs_completed s = replicate (unat n) False)"
  using assms
  by (auto simp: resume_load_or_create_def resume_load_existing_def resume_new_def result_simps
      split: if_splits option.splits)

lemma load_loop_length:
  "resume_load_loop n rest previous completed = Inr flags \<Longrightarrow> length flags = length completed"
proof (induction n rest previous completed rule: resume_load_loop.induct)
  case (1 n rest previous completed)
  show ?case
  proof (cases "rest = []")
    case True
    with "1.prems" show ?thesis by (simp add: resume_load_loop.simps)
  next
    case False
    with "1.prems" obtain i where i: "resume_parse_unsigned (before CHR '','' rest) ''completed chunk'' = Inr i"
      "\<not> (n \<le> i \<or> (previous \<noteq> None \<and> i \<le> the previous))"
      by (subst (asm) resume_load_loop.simps) (auto simp: result_simps split: if_splits)
    with "1.prems" False "1.IH" [OF False i refl] show ?thesis
      by (subst (asm) resume_load_loop.simps) (auto simp: Let_def split: if_splits)
  qed
qed

lemma load_or_create_wf: "resume_load_or_create f p swarm_id n = Inr s \<Longrightarrow> wf_store s"
  by (auto simp: resume_load_or_create_def resume_load_existing_def resume_new_def resume_parse_def
      wf_store_def result_simps dest!: load_loop_length split: if_splits option.splits prod.splits)

text \<open>
  Flush and load: after a \<^verbatim>\<open>flush\<close> of a changed store returned, \<^verbatim>\<open>load_or_create\<close> for the
  same manifest gives a store with the same completed chunks, and neither it nor the flushed
  store is dirty. The path must be readable and the swarm identifier free of line terminators.
\<close>

theorem resume_flush_load:
  assumes "wf_store s" and "text_id (rs_swarm_id s)" and "path_filename (rs_path s) \<noteq> []" and "rs_dirty s"
    and "resume_flush env s f = (Inr (), s', states)"
    and "\<not> unreadable f (rs_path s)" and "fault_at f (rs_path s) = None"
  shows "\<exists>t. resume_load_or_create (last states) (rs_path s) (rs_swarm_id s) (rs_chunk_count s) = Inr t \<and>
    done_chunks t = done_chunks s \<and> \<not> rs_dirty t \<and> \<not> rs_dirty s' \<and> done_chunks s' = done_chunks s"
proof -
  have w: "write_atomic env f (rs_path s) (resume_serialize s) = (Inr (), states)" and s': "s' = s\<lparr>rs_dirty := False\<rparr>"
    using assms(4,5) by (auto simp: resume_flush_def flush_begin_def flush_end_def split: prod.splits sum.splits)
  note W = write_atomic_states [OF assms(3) w]
  then have last: "last states \<in> set states" by simp
  have ne: "rs_path s \<noteq> []" using assms(3) by (auto simp: path_filename_def)
  have "\<exists>t. resume_load_or_create (last states) (rs_path s) (rs_swarm_id s) (rs_chunk_count s) = Inr t \<and>
      rs_completed t = rs_completed s \<and> \<not> rs_dirty t"
    by (rule load_serialized [OF assms(1,2) ne]) (use W last assms(6,7) in auto)
  then obtain t where t: "resume_load_or_create (last states) (rs_path s) (rs_swarm_id s) (rs_chunk_count s) = Inr t"
    "rs_completed t = rs_completed s" "\<not> rs_dirty t" by blast
  moreover from t(1) have "rs_chunk_count t = rs_chunk_count s" by (simp add: load_or_create_Inr)
  ultimately show ?thesis using s' by (simp add: done_chunks_def)
qed

lemma sample_flush_run:
  "resume_flush sample_atomic_env sample_store empty_fs =
     (Inr (), sample_store\<lparr>rs_dirty := False\<rparr>,
      snd (snd (resume_flush sample_atomic_env sample_store empty_fs)))"
proof -
  have "write_atomic sample_atomic_env empty_fs ''r'' b = (Inr (), snd (write_atomic sample_atomic_env empty_fs ''r'' b))" for b
    by (rule sample_atomic_ok) (simp_all add: empty_fs_def)
  then obtain states where "write_atomic sample_atomic_env empty_fs ''r'' (resume_serialize sample_store) = (Inr (), states)"
    by blast
  then show ?thesis
    by (simp add: resume_flush_def flush_begin_def flush_end_def sample_store_def)
qed

theorem resume_flush_load_witness:
  "\<exists>t. resume_load_or_create (last (snd (snd (resume_flush sample_atomic_env sample_store empty_fs))))
     ''r'' ''ab'' 3 = Inr t \<and> done_chunks t = done_chunks sample_store"
  using resume_flush_load [OF sample_store_wf _ _ _ sample_flush_run]
  by (auto simp: sample_store_def text_id_def path_filename_def empty_fs_def)

section \<open>Flushing while chunks are marked\<close>

text \<open>
  A flush that runs while other threads mark chunks: the store, the file system, the phase of
  the flush, and a ghost counter of the changes since the flush took its snapshot. Each
  critical section is one step, as is the write between them.
\<close>

datatype flush_phase = Idle | Writing string u64 | Written u64

record flush_state =
  fl_store :: resume_store
  fl_fs :: fs
  fl_phase :: flush_phase
  fl_changes :: nat

definition bumped :: "resume_store \<Rightarrow> resume_store \<Rightarrow> nat" where
  "bumped s s' = (if rs_revision s' = rs_revision s then 0 else 1)"

inductive flush_step :: "flush_state \<Rightarrow> flush_state \<Rightarrow> bool" where
  Mark: "resume_mark_complete i s = Inr s' \<Longrightarrow> k + bumped s s' < 2 ^ 64 \<Longrightarrow>
    flush_step \<lparr>fl_store = s, fl_fs = f, fl_phase = ph, fl_changes = k\<rparr>
      \<lparr>fl_store = s', fl_fs = f, fl_phase = ph, fl_changes = k + bumped s s'\<rparr>"
| Unmark: "resume_mark_incomplete i s = Inr s' \<Longrightarrow> k + bumped s s' < 2 ^ 64 \<Longrightarrow>
    flush_step \<lparr>fl_store = s, fl_fs = f, fl_phase = ph, fl_changes = k\<rparr>
      \<lparr>fl_store = s', fl_fs = f, fl_phase = ph, fl_changes = k + bumped s s'\<rparr>"
| Begin: "flush_begin s = Some (snapshot, revision) \<Longrightarrow>
    flush_step \<lparr>fl_store = s, fl_fs = f, fl_phase = Idle, fl_changes = k\<rparr>
      \<lparr>fl_store = s, fl_fs = f, fl_phase = Writing snapshot revision, fl_changes = 0\<rparr>"
| Write: "write_atomic env f (rs_path s) snapshot = (Inr (), states) \<Longrightarrow>
    flush_step \<lparr>fl_store = s, fl_fs = f, fl_phase = Writing snapshot revision, fl_changes = k\<rparr>
      \<lparr>fl_store = s, fl_fs = last states, fl_phase = Written revision, fl_changes = k\<rparr>"
| Write_throws: "write_atomic env f (rs_path s) snapshot = (Inl e, states) \<Longrightarrow>
    flush_step \<lparr>fl_store = s, fl_fs = f, fl_phase = Writing snapshot revision, fl_changes = k\<rparr>
      \<lparr>fl_store = s, fl_fs = last states, fl_phase = Idle, fl_changes = k\<rparr>"
| End: "flush_step \<lparr>fl_store = s, fl_fs = f, fl_phase = Written revision, fl_changes = k\<rparr>
      \<lparr>fl_store = flush_end revision s, fl_fs = f, fl_phase = Idle, fl_changes = k\<rparr>"

inductive_cases flush_step_cases: "flush_step a b"

inductive flush_steps :: "flush_state \<Rightarrow> flush_state \<Rightarrow> bool" for a where
  flush_refl: "flush_steps a a"
| flush_snoc: "flush_steps a b \<Longrightarrow> flush_step b c \<Longrightarrow> flush_steps a c"

definition on_disk :: "fs \<Rightarrow> resume_store \<Rightarrow> bool" where
  "on_disk f s \<longleftrightarrow>
     (\<exists>t. resume_load_or_create f (rs_path s) (rs_swarm_id s) (rs_chunk_count s) = Inr t \<and>
        rs_completed t = rs_completed s)"

text \<open>
  While no change happened since the snapshot, the snapshot is the store; the flush may clear
  the flag only then, because the revision counts the changes.
\<close>

definition flush_inv :: "flush_state \<Rightarrow> bool" where
  "flush_inv x \<longleftrightarrow>
     wf_store (fl_store x) \<and> text_id (rs_swarm_id (fl_store x)) \<and> path_filename (rs_path (fl_store x)) \<noteq> [] \<and>
     \<not> unreadable (fl_fs x) (rs_path (fl_store x)) \<and> fault_at (fl_fs x) (rs_path (fl_store x)) = None \<and>
     (\<not> rs_dirty (fl_store x) \<longrightarrow> fl_phase x = Idle \<and> on_disk (fl_fs x) (fl_store x)) \<and>
     (\<forall>snapshot revision. fl_phase x = Writing snapshot revision \<longrightarrow> fl_changes x < 2 ^ 64 \<and>
        rs_revision (fl_store x) = revision + of_nat (fl_changes x) \<and>
        (fl_changes x = 0 \<longrightarrow> snapshot = resume_serialize (fl_store x))) \<and>
     (\<forall>revision. fl_phase x = Written revision \<longrightarrow> fl_changes x < 2 ^ 64 \<and>
        rs_revision (fl_store x) = revision + of_nat (fl_changes x) \<and>
        (fl_changes x = 0 \<longrightarrow> on_disk (fl_fs x) (fl_store x)))"

lemma mark_cases:
  assumes "resume_mark_complete i s = Inr s' \<or> resume_mark_incomplete i s = Inr s'"
  shows "s' = s \<or> (\<exists>flags. s' = s\<lparr>rs_completed := flags, rs_revision := rs_revision s + 1, rs_dirty := True\<rparr> \<and>
    length flags = length (rs_completed s))"
  using assms by (auto simp: resume_op_defs result_simps split: if_splits)

lemma bumped_simps [simp]:
  "bumped s s = 0"
  "bumped s (s\<lparr>rs_completed := flags, rs_revision := rs_revision s + 1, rs_dirty := True\<rparr>) = 1"
  by (simp_all add: bumped_def)

lemma flush_inv_change:
  assumes "flush_inv \<lparr>fl_store = s, fl_fs = f, fl_phase = ph, fl_changes = k\<rparr>"
    and "resume_mark_complete i s = Inr s' \<or> resume_mark_incomplete i s = Inr s'"
    and "k + bumped s s' < 2 ^ 64"
  shows "flush_inv \<lparr>fl_store = s', fl_fs = f, fl_phase = ph, fl_changes = k + bumped s s'\<rparr>"
  using mark_cases [OF assms(2)]
proof (elim disjE exE conjE)
  assume "s' = s"
  with assms(1) show ?thesis by simp
next
  fix flags
  assume s': "s' = s\<lparr>rs_completed := flags, rs_revision := rs_revision s + 1, rs_dirty := True\<rparr>"
    and len: "length flags = length (rs_completed s)"
  from assms(1,3) len show ?thesis unfolding s' bumped_simps
    by (auto simp: flush_inv_def wf_store_def)
qed

lemma flush_inv_step: "flush_step x y \<Longrightarrow> flush_inv x \<Longrightarrow> flush_inv y"
proof (induction rule: flush_step.induct)
  case (Mark i s s' k f ph)
  then show ?case by (intro flush_inv_change) auto
next
  case (Unmark i s s' k f ph)
  then show ?case by (intro flush_inv_change) auto
next
  case (Begin s snapshot revision f k)
  then show ?case by (auto simp: flush_inv_def flush_begin_def split: if_splits)
next
  case (Write env f s snapshot states revision k)
  note W = write_atomic_states [OF _ Write.hyps]
  have ne: "rs_path s \<noteq> []" and pf: "path_filename (rs_path s) \<noteq> []"
    using Write.prems by (auto simp: flush_inv_def path_filename_def)
  then have last: "last states \<in> set states" using W by simp
  have "on_disk (last states) s" if "snapshot = resume_serialize s"
    using load_serialized [OF _ _ ne, of "last states"] W [OF pf] last Write.prems that
    by (auto simp: flush_inv_def on_disk_def)
  with Write.prems W [OF pf] last show ?case by (auto simp: flush_inv_def)
next
  case (Write_throws env f s snapshot e states revision k)
  have pf: "path_filename (rs_path s) \<noteq> []" using Write_throws.prems by (simp add: flush_inv_def)
  note W = write_atomic_states [OF pf Write_throws.hyps]
  then have "last states \<in> set states" by simp
  with W Write_throws.prems show ?case by (auto simp: flush_inv_def)
next
  case (End s f revision k)
  have "k = 0" if "rs_revision s = revision"
  proof -
    from End that have "(of_nat k :: u64) = 0" "k < 2 ^ 64" by (auto simp: flush_inv_def)
    then show ?thesis by (auto simp: word_of_nat_eq_0_iff dest: nat_dvd_not_less)
  qed
  with End show ?case
    by (auto simp: flush_inv_def flush_end_def wf_store_def on_disk_def)
qed


lemma flush_step_frame:
  "flush_step x y \<Longrightarrow> rs_path (fl_store y) = rs_path (fl_store x) \<and>
     rs_swarm_id (fl_store y) = rs_swarm_id (fl_store x) \<and> rs_chunk_count (fl_store y) = rs_chunk_count (fl_store x)"
  by (erule flush_step_cases) (auto simp: resume_op_defs flush_end_def result_simps split: if_splits)

lemma flush_steps_inv:
  "flush_steps x y \<Longrightarrow> flush_inv x \<Longrightarrow> flush_inv y \<and> rs_path (fl_store y) = rs_path (fl_store x) \<and>
     rs_swarm_id (fl_store y) = rs_swarm_id (fl_store x) \<and> rs_chunk_count (fl_store y) = rs_chunk_count (fl_store x)"
proof (induction rule: flush_steps.induct)
  case (flush_snoc b c)
  then show ?case using flush_inv_step flush_step_frame by metis
qed simp

lemma flush_inv_loaded:
  assumes "resume_load_or_create f p swarm_id n = Inr s" and "text_id swarm_id" and "path_filename p \<noteq> []"
    and "\<not> unreadable f p" and "fault_at f p = None"
  shows "flush_inv \<lparr>fl_store = s, fl_fs = f, fl_phase = Idle, fl_changes = 0\<rparr>"
  using load_or_create_Inr [OF assms(1)] load_or_create_wf [OF assms(1)] assms
  by (auto simp: flush_inv_def on_disk_def)

text \<open>
  C14. No update is lost to a concurrent flush (\<^verbatim>\<open>flush\<close>, \<^verbatim>\<open>mark_complete\<close>, \<^verbatim>\<open>mark_incomplete\<close>): from
  a loaded store, in every interleaving of markings with the steps of flushes, succeeding or
  throwing, whenever the store is not dirty a fresh \<^verbatim>\<open>load_or_create\<close> of the file gives exactly
  the chunks of the store. The bound is \<open>2 ^ 64\<close> changes during one flush, where the
  revision counter would come round.
\<close>

theorem clean_store_is_on_disk:
  assumes "resume_load_or_create f p swarm_id n = Inr s" and "text_id swarm_id" and "path_filename p \<noteq> []"
    and "\<not> unreadable f p" and "fault_at f p = None"
    and "flush_steps \<lparr>fl_store = s, fl_fs = f, fl_phase = Idle, fl_changes = 0\<rparr> y"
    and "\<not> rs_dirty (fl_store y)"
  shows "\<exists>t. resume_load_or_create (fl_fs y) p swarm_id n = Inr t \<and> done_chunks t = done_chunks (fl_store y)"
proof -
  from flush_steps_inv [OF assms(6) flush_inv_loaded [OF assms(1-5)]]
  have "flush_inv y" "rs_path (fl_store y) = p" "rs_swarm_id (fl_store y) = swarm_id"
    "rs_chunk_count (fl_store y) = n"
    using load_or_create_Inr [OF assms(1)] by auto
  with assms(7) have "on_disk (fl_fs y) (fl_store y)" by (simp add: flush_inv_def)
  then obtain t where t: "resume_load_or_create (fl_fs y) p swarm_id n = Inr t"
    "rs_completed t = rs_completed (fl_store y)"
    using \<open>rs_path _ = p\<close> \<open>rs_swarm_id _ = _\<close> \<open>rs_chunk_count _ = n\<close> by (auto simp: on_disk_def)
  moreover have "rs_chunk_count t = n" using load_or_create_Inr [OF t(1)] by simp
  ultimately show ?thesis using \<open>rs_chunk_count (fl_store y) = n\<close> by (simp add: done_chunks_def)
qed

text \<open>A new store of three chunks, flushed without a change in between.\<close>

definition new_store :: resume_store where
  "new_store = \<lparr>rs_path = ''r'', rs_swarm_id = ''ab'', rs_chunk_count = 3,
     rs_completed = [False, False, False], rs_revision = 0, rs_dirty = True\<rparr>"

lemma new_store_loaded: "resume_load_or_create empty_fs ''r'' ''ab'' 3 = Inr new_store"
proof -
  have "replicate (unat (3 :: u32)) False = [False, False, False]" by code_simp
  then show ?thesis by (simp add: resume_load_or_create_def resume_new_def new_store_def fs_exists_def empty_fs_def)
qed

definition flushed_fs :: fs where
  "flushed_fs = last (snd (write_atomic sample_atomic_env empty_fs ''r'' (resume_serialize new_store)))"

lemma new_store_written:
  "write_atomic sample_atomic_env empty_fs (rs_path new_store) (resume_serialize new_store) =
     (Inr (), snd (write_atomic sample_atomic_env empty_fs (rs_path new_store) (resume_serialize new_store)))"
  using sample_atomic_ok [of empty_fs "resume_serialize new_store"]
  by (simp add: new_store_def empty_fs_def)

lemma new_store_flushed:
  "flush_steps \<lparr>fl_store = new_store, fl_fs = empty_fs, fl_phase = Idle, fl_changes = 0\<rparr>
     \<lparr>fl_store = new_store\<lparr>rs_dirty := False\<rparr>, fl_fs = flushed_fs, fl_phase = Idle, fl_changes = 0\<rparr>"
proof -
  let ?x = "\<lambda>s f ph. \<lparr>fl_store = s, fl_fs = f, fl_phase = ph, fl_changes = 0\<rparr>"
  have "flush_step (?x new_store empty_fs Idle) (?x new_store empty_fs (Writing (resume_serialize new_store) 0))"
    by (rule flush_step.Begin) (simp add: flush_begin_def new_store_def)
  moreover have "flush_step (?x new_store empty_fs (Writing (resume_serialize new_store) 0))
      (?x new_store flushed_fs (Written 0))"
    using flush_step.Write [OF new_store_written] by (simp add: flushed_fs_def new_store_def)
  moreover have "flush_step (?x new_store flushed_fs (Written 0))
      (?x (new_store\<lparr>rs_dirty := False\<rparr>) flushed_fs Idle)"
    using flush_step.End [of new_store flushed_fs 0 0] by (simp add: flush_end_def new_store_def)
  ultimately show ?thesis by (blast intro: flush_steps.intros)
qed

theorem clean_store_is_on_disk_witness:
  "\<exists>t. resume_load_or_create flushed_fs ''r'' ''ab'' 3 = Inr t \<and>
     done_chunks t = done_chunks (new_store\<lparr>rs_dirty := False\<rparr>)"
  using clean_store_is_on_disk [OF new_store_loaded _ _ _ _ new_store_flushed]
  by (simp add: text_id_def path_filename_def empty_fs_def)

end
