(* ===== verification/Download.thy ===== *)
theory Download
  imports Peer_Server Resume_Store
begin

text \<open>
  The component \<^verbatim>\<open>src/download.cpp\<close>: fetching chunks from untrusted peers with retries, writing the
  verified ones into the partial file, and the coordinator that prepares, runs and completes
  a download. The network is a sequence of answers, one for each connection that is made; the
  calls on the partial file answer as a parameter says.
\<close>

section \<open>Configuration\<close>

record download_config =
  dc_manifest :: manifest
  dc_output_directory :: path
  dc_tracker_endpoint :: endpoint
  dc_token :: string
  dc_listen_port :: u16
  dc_peer_id :: string
  dc_worker_count :: u32
  dc_max_retries :: u32
  dc_network_timeout :: int
  dc_heartbeat_interval :: int
  dc_bind_address :: string
  dc_peer_max_connections :: u32

definition validate_config :: "download_config \<Rightarrow> unit result" where
  "validate_config config =
     rbind (manifest_validate (dc_manifest config)) (\<lambda>_.
     if dc_output_directory config = [] \<or> host (dc_tracker_endpoint config) = [] \<or>
        port (dc_tracker_endpoint config) = 0 \<or> dc_token config = [] \<or> dc_peer_id config = [] \<or>
        dc_worker_count config = 0 \<or> dc_max_retries config = 0 \<or> dc_network_timeout config \<le> 0 \<or>
        dc_heartbeat_interval config \<le> 0 \<or> dc_bind_address config = [] \<or> dc_peer_max_connections config = 0
     then throw ''Download configuration contains an invalid required value''
     else Inr ())"

section \<open>The partial file\<close>

text \<open>
  Whether the new file can be opened and can be sized. Writing one byte at the last position
  fills the rest with zeros; the position is a signed 64-bit number.
\<close>

record sizing_env =
  sz_opens :: bool
  sz_sized :: bool

definition prepare_partial_file :: "sizing_env \<Rightarrow> path \<Rightarrow> u64 \<Rightarrow> fs \<Rightarrow> unit result \<times> fs" where
  "prepare_partial_file env p expected_size f =
     (if fs_exists f p then
        (if \<not> is_regular_file f p \<or> file_size f p \<noteq> expected_size
         then (throw (''Existing partial file does not match manifest size: '' @ p), f)
         else (Inr (), f))
      else if \<not> sz_opens env then (throw (''Unable to create partial file: '' @ p), f)
      else if expected_size > 0 \<and> (\<not> sz_sized env \<or> unat (expected_size - 1) \<ge> 2 ^ 63)
        then (throw (''Unable to size partial file: '' @ p), write_node f p [])
      else (Inr (), write_node f p (replicate (unat expected_size) (CHR 0x00))))"

section \<open>Fetching a chunk\<close>

text \<open>\<^verbatim>\<open>std::lower_bound\<close> and \<^verbatim>\<open>std::binary_search\<close> on a vector.\<close>

function lower_bound :: "u32 list \<Rightarrow> u32 \<Rightarrow> nat \<Rightarrow> nat \<Rightarrow> nat" where
  "lower_bound xs v first len =
     (if len = 0 then first
      else let half = len div 2; middle = first + half
           in if xs ! middle < v then lower_bound xs v (middle + 1) (len - half - 1)
              else lower_bound xs v first half)"
  by pat_completeness auto
termination by (relation "measure (\<lambda>(xs, v, first, len). len)") auto

declare lower_bound.simps [simp del]

definition binary_search :: "u32 list \<Rightarrow> u32 \<Rightarrow> bool" where
  "binary_search xs v =
     (let i = lower_bound xs v 0 (length xs) in i \<noteq> length xs \<and> \<not> v < xs ! i)"

definition peer_has_chunk :: "discovered_peer \<Rightarrow> u32 \<Rightarrow> bool" where
  "peer_has_chunk peer index \<longleftrightarrow> dp_has_all_chunks peer \<or> binary_search (dp_chunks peer) index"

text \<open>What is done on the connection to a peer.\<close>

definition fetch_body :: "'c evp \<Rightarrow> manifest \<Rightarrow> string \<Rightarrow> u32 \<Rightarrow> bytes io" where
  "fetch_body evp m token index =
     io_bind (io_lift (manifest_swarm_id evp m)) (\<lambda>swarm_id.
     io_bind (write_all (''GET '' @ token @ '' '' @ swarm_id @ '' '' @ dec (unat index) @ [nl])) (\<lambda>_.
     io_bind (read_line kMaxHeaderBytes) (\<lambda>response.
     if starts_with response ''ERROR '' then io_lift (throw ''Peer declined requested chunk'')
     else
       io_bind (io_lift (parse_data_header response)) (\<lambda>header.
       io_bind (io_lift (manifest_chunk_size m index)) (\<lambda>expected_size.
       if byte_count header \<noteq> expected_size \<or> sha256 header \<noteq> chunk_hashes m ! unat index
       then io_lift (throw ''Peer returned chunk metadata that disagrees with the manifest'')
       else
         io_bind (read_exact (unat (byte_count header))) (\<lambda>b.
         io_bind (io_lift (sha256_hex evp b)) (\<lambda>hash.
         if hash \<noteq> chunk_hashes m ! unat index
         then io_lift (throw ''Peer returned bytes that failed chunk integrity verification'')
         else io_return b)))))))"

definition fetch_chunk ::
  "'c evp \<Rightarrow> discovered_peer \<Rightarrow> manifest \<Rightarrow> string \<Rightarrow> u32 \<Rightarrow> int \<Rightarrow> network \<Rightarrow> fd_table \<Rightarrow> bytes result \<times> fd_table" where
  "fetch_chunk evp peer m token index timeout net t =
     (let (r, _, t) = with_connection net (dp_endpoint peer) timeout (fetch_body evp m token index) t in (r, t))"

text \<open>
  The network over time: \<open>nets k\<close> answers the \<open>k\<close>-th connection that is made. The loop over the
  peers of one round, which gives the bytes or the last failure.
\<close>

fun try_peers ::
  "'c evp \<Rightarrow> download_config \<Rightarrow> u32 \<Rightarrow> (nat \<Rightarrow> network) \<Rightarrow> discovered_peer list \<Rightarrow> string \<Rightarrow> nat \<Rightarrow> fd_table \<Rightarrow>
     (string + bytes) \<times> nat \<times> fd_table" where
  "try_peers evp config index nets [] last_failure k t = (Inl last_failure, k, t)"
| "try_peers evp config index nets (peer # peers) last_failure k t =
     (case fetch_chunk evp peer (dc_manifest config) (dc_token config) index (dc_network_timeout config) (nets k) t of
        (Inr b, t) \<Rightarrow> (Inr b, Suc k, t)
      | (Inl e, t) \<Rightarrow> try_peers evp config index nets peers (what e) (Suc k) t)"

definition fetch_round ::
  "'c evp \<Rightarrow> tracker_client \<Rightarrow> download_config \<Rightarrow> string \<Rightarrow> u32 \<Rightarrow> (nat \<Rightarrow> network) \<Rightarrow> string \<Rightarrow> nat \<Rightarrow> fd_table \<Rightarrow>
     (string + bytes) \<times> nat \<times> fd_table" where
  "fetch_round evp tracker config swarm_id index nets last_failure k t =
     (case client_peers tracker swarm_id (nets k) t of
        (Inl e, _, t) \<Rightarrow> (Inl (what e), Suc k, t)
      | (Inr peers, _, t) \<Rightarrow>
          try_peers evp config index nets
            (filter (\<lambda>peer. \<not> (dp_peer_id peer = dc_peer_id config \<or> \<not> peer_has_chunk peer index)) peers)
            last_failure (Suc k) t)"

text \<open>
  The rounds; the first argument counts those that are left, \<open>retries\<close> is \<^verbatim>\<open>retry_events\<close>.
\<close>

fun retry_loop ::
  "nat \<Rightarrow> 'c evp \<Rightarrow> tracker_client \<Rightarrow> download_config \<Rightarrow> string \<Rightarrow> u32 \<Rightarrow> (nat \<Rightarrow> network) \<Rightarrow> string \<Rightarrow> nat \<Rightarrow>
     nat \<Rightarrow> fd_table \<Rightarrow> bytes result \<times> nat \<times> nat \<times> fd_table" where
  "retry_loop 0 evp tracker config swarm_id index nets last_failure retries k t =
     (throw (''Unable to fetch chunk '' @ dec (unat index) @ '': '' @ last_failure), retries, k, t)"
| "retry_loop (Suc n) evp tracker config swarm_id index nets last_failure retries k t =
     (case fetch_round evp tracker config swarm_id index nets last_failure k t of
        (Inr b, k, t) \<Rightarrow> (Inr b, retries, k, t)
      | (Inl m, k, t) \<Rightarrow>
          retry_loop n evp tracker config swarm_id index nets m (if n > 0 then Suc retries else retries) k t)"

definition fetch_with_retry ::
  "'c evp \<Rightarrow> tracker_client \<Rightarrow> download_config \<Rightarrow> string \<Rightarrow> u32 \<Rightarrow> (nat \<Rightarrow> network) \<Rightarrow> nat \<Rightarrow> nat \<Rightarrow> fd_table \<Rightarrow>
     bytes result \<times> nat \<times> nat \<times> fd_table" where
  "fetch_with_retry evp tracker config swarm_id index nets retries k t =
     retry_loop (unat (dc_max_retries config)) evp tracker config swarm_id index nets
       ''no active peer advertised this chunk'' retries k t"

section \<open>Chunks of the partial file\<close>

text \<open>
  \<^verbatim>\<open>partial_chunk_matches\<close>: clearing the stream and seeking to an absolute position makes each call
  independent of the earlier ones, so \<open>input\<close> is the stream as it was opened.
\<close>

definition partial_chunk_matches :: "'c evp \<Rightarrow> ifstream \<Rightarrow> manifest \<Rightarrow> u32 \<Rightarrow> bool result" where
  "partial_chunk_matches evp input m index =
     rbind (manifest_chunk_offset m index) (\<lambda>offset.
     if unat offset > 2 ^ 63 - 1 then Inr False
     else
       rbind (manifest_chunk_size m index) (\<lambda>chunk_size.
       let b = fst (stream_read (stream_seek input offset) (unat chunk_size))
       in if length b \<noteq> unat chunk_size then Inr False
          else rbind (sha256_hex evp b) (\<lambda>hash. Inr (hash = chunk_hashes m ! unat index))))"

text \<open>One iteration of \<^verbatim>\<open>revalidate_completed_chunks\<close>, on the store and the flag \<^verbatim>\<open>changed\<close>.\<close>

definition revalidate_chunk ::
  "'c evp \<Rightarrow> ifstream \<Rightarrow> manifest \<Rightarrow> u32 \<Rightarrow> resume_store \<times> bool \<Rightarrow> (resume_store \<times> bool) result" where
  "revalidate_chunk evp input m index =
     (\<lambda>(resume, changed).
        rbind (partial_chunk_matches evp input m index) (\<lambda>ok.
        if \<not> ok then rbind (resume_mark_incomplete index resume) (\<lambda>resume. Inr (resume, True))
        else Inr (resume, changed)))"

text \<open>The result, the store and the states of the file system, the last one being the current one.\<close>

definition revalidate_completed_chunks ::
  "'c evp \<Rightarrow> atomic_env \<Rightarrow> path \<Rightarrow> manifest \<Rightarrow> resume_store \<Rightarrow> fs \<Rightarrow> unit result \<times> resume_store \<times> fs list" where
  "revalidate_completed_chunks evp env partial_path m resume f =
     (let completed = resume_completed_chunks resume
      in if completed = [] then (Inr (), resume, [f])
         else case open_in f partial_path of
           None \<Rightarrow> (throw ''Unable to read the partial file while revalidating resume state'', resume, [f])
         | Some input \<Rightarrow>
             (case rfold (revalidate_chunk evp input m) completed (resume, False) of
                Inl e \<Rightarrow> (Inl e, resume, [f])
              | Inr (resume, changed) \<Rightarrow> if changed then resume_flush env resume f else (Inr (), resume, [f])))"

text \<open>Writing into a file at a position; a gap is filled with zeros.\<close>

definition overwrite :: "bytes \<Rightarrow> nat \<Rightarrow> bytes \<Rightarrow> bytes" where
  "overwrite d offset b =
     take offset d @ replicate (offset - length d) (CHR 0x00) @ b @ drop (offset + length b) d"

record chunk_write_env =
  cw_open :: answer
  cw_writes :: "write_event list"
  cw_fsync :: answer
  cw_close :: answer
  cw_flush :: atomic_env

text \<open>
  The loop of \<^verbatim>\<open>pwrite\<close> calls; \<open>rest\<close> is what is left of the chunk, for the position \<open>offset\<close>. The
  result carries the contents of the file after each call.
\<close>

fun pwrite_loop :: "write_event list \<Rightarrow> bytes \<Rightarrow> nat \<Rightarrow> bytes \<Rightarrow> unit result \<times> bytes list" where
  "pwrite_loop [] d offset rest = (Inr (), [if rest = [] then d else overwrite d offset rest])"
| "pwrite_loop (e # es) d offset rest =
     (if rest = [] then (Inr (), [d])
      else case e of
        Wrote k \<Rightarrow>
          (if k = 0 then (throw ''Unable to write verified chunk: zero-byte write'', [d])
           else
             let d' = overwrite d offset (take k rest);
                 (r, ds) = pwrite_loop es d' (offset + length (take k rest)) (drop k rest)
             in (r, d' # ds))
      | Write_interrupted \<Rightarrow> pwrite_loop es d offset rest
      | Write_failed m \<Rightarrow> (throw (''Unable to write verified chunk: '' @ m), [d]))"

text \<open>
  \<^verbatim>\<open>write_verified_chunk\<close>, which runs under \<^verbatim>\<open>write_mutex\<close> as a whole. Opening for writing needs an
  existing regular file. The result carries all states of the file system, the current one last.
\<close>

definition write_verified_chunk ::
  "chunk_write_env \<Rightarrow> path \<Rightarrow> manifest \<Rightarrow> u32 \<Rightarrow> bytes \<Rightarrow> resume_store \<Rightarrow> fs \<Rightarrow>
     unit result \<times> resume_store \<times> fs list" where
  "write_verified_chunk env partial_path m index b resume f =
     (case manifest_chunk_offset m index of
        Inl e \<Rightarrow> (Inl e, resume, [f])
      | Inr offset \<Rightarrow>
          if unat offset > 2 ^ 63 - 1 \<or> length b > 2 ^ 63 - 1 - unat offset
          then (throw ''Verified chunk offset is outside the platform file range'', resume, [f])
          else if cw_open env \<noteq> None \<or> \<not> is_regular_file f partial_path
          then (throw ''Unable to open partial file for a verified chunk write'', resume, [f])
          else
            let (r, ds) = pwrite_loop (cw_writes env) (file_data f partial_path) (unat offset) b;
                states = f # map (write_node f partial_path) ds
            in (case rbind r (\<lambda>_. call ''Unable to durably flush verified chunk'' (cw_fsync env)) of
                  Inl e \<Rightarrow> (Inl e, resume, states)
                | Inr _ \<Rightarrow>
                    let g = sync_node (last states) partial_path; states = states @ [g]
                    in (case rbind (call ''Unable to close partial file after a verified chunk write'' (cw_close env))
                            (\<lambda>_. resume_mark_complete index resume) of
                          Inl e \<Rightarrow> (Inl e, resume, states)
                        | Inr resume \<Rightarrow>
                            let (r, resume, flush_states) = resume_flush (cw_flush env) resume g
                            in (r, resume, states @ flush_states))))"

section \<open>Fetched bytes are verified\<close>

lemma read_exact_length: "read_exact n c = (Inr b, c') \<Longrightarrow> length b = n"
proof -
  assume "read_exact n c = (Inr b, c')"
  then obtain es where r: "read_exact_loop n (incoming c) [] = (Inr b, es)"
    by (auto simp: read_exact_def split: prod.splits)
  then have n: "n \<le> length (pending (incoming c))"
    using read_exact_loop_short [of "[]" n "incoming c"] by (cases "n \<le> length (pending (incoming c))") auto
  with r have "b = take n (pending (incoming c))"
    using read_exact_loop_correct [of "[]" n "incoming c"] by auto
  with n show "length b = n" by simp
qed

lemma io_bind_Inr:
  "io_bind m k c = (Inr y, c') \<longleftrightarrow> (\<exists>x c1. m c = (Inr x, c1) \<and> k x c1 = (Inr y, c'))"
  by (auto simp: io_bind_def split: prod.splits sum.splits)

lemma io_lift_Inr: "io_lift r c = (Inr y, c') \<longleftrightarrow> r = Inr y \<and> c' = c"
  by (auto simp: io_lift_def)

text \<open>What a chunk's bytes must be.\<close>

definition chunk_verified :: "'c evp \<Rightarrow> manifest \<Rightarrow> u32 \<Rightarrow> bytes \<Rightarrow> bool" where
  "chunk_verified evp m index b \<longleftrightarrow>
     sha256_hex evp b = Inr (chunk_hashes m ! unat index) \<and>
     (\<exists>sz. manifest_chunk_size m index = Inr sz \<and> length b = unat sz)"

lemma fetch_body_verified:
  assumes "fetch_body evp m token index c = (Inr b, c')"
  shows "chunk_verified evp m index b"
  using assms unfolding fetch_body_def io_bind_Inr
  by (auto simp: io_bind_Inr io_lift_Inr io_return_def chunk_verified_def dest: read_exact_length split: if_splits)

lemma fetch_chunk_verified:
  "fetch_chunk evp peer m token index timeout net t = (Inr b, t') \<Longrightarrow> chunk_verified evp m index b"
  by (auto simp: fetch_chunk_def with_connection_def dest: fetch_body_verified
      split: prod.splits sum.splits)

lemma try_peers_verified:
  "try_peers evp config index nets peers lf k t = (Inr b, k', t') \<Longrightarrow> chunk_verified evp (dc_manifest config) index b"
  by (induction peers arbitrary: lf k t) (auto split: prod.splits sum.splits dest: fetch_chunk_verified)

lemma retry_loop_verified:
  "retry_loop n evp tracker config s index nets lf retries k t = (Inr b, retries', k', t') \<Longrightarrow>
     chunk_verified evp (dc_manifest config) index b"
proof (induction n arbitrary: lf retries k t)
  case (Suc n)
  show ?case
  proof (cases "fetch_round evp tracker config s index nets lf k t")
    case (fields r k1 t1)
    show ?thesis
    proof (cases r)
      case (Inl m)
      with fields Suc.prems show ?thesis by (auto intro: Suc.IH)
    next
      case (Inr b')
      with fields Suc.prems show ?thesis
        by (auto simp: fetch_round_def split: prod.splits sum.splits dest: try_peers_verified)
    qed
  qed
qed simp

text \<open>
  C5. Nothing unverified is ever accepted (\<^verbatim>\<open>fetch_chunk\<close>, \<^verbatim>\<open>fetch_with_retry\<close>): whatever the tracker
  and the peers answer, in whatever segmentation, over however many rounds, bytes that the call
  returns have the size the manifest gives the chunk and hash to the digest the manifest lists
  for it.
\<close>

theorem fetch_only_verified:
  assumes "fetch_with_retry evp tracker config swarm_id index nets retries k t = (Inr b, retries', k', t')"
  shows "sha256_hex evp b = Inr (chunk_hashes (dc_manifest config) ! unat index) \<and>
    (\<exists>sz. manifest_chunk_size (dc_manifest config) index = Inr sz \<and> length b = unat sz)"
  using retry_loop_verified [OF assms [unfolded fetch_with_retry_def]] by (simp add: chunk_verified_def)

section \<open>Retries are bounded and peers replace one another\<close>

lemma try_peers_connections:
  "try_peers evp config index nets peers lf k t = (r, k', t') \<Longrightarrow> k \<le> k' \<and> k' \<le> k + length peers"
proof (induction peers arbitrary: lf k t)
  case (Cons peer peers)
  show ?case
  proof (cases "fetch_chunk evp peer (dc_manifest config) (dc_token config) index (dc_network_timeout config) (nets k) t")
    case (Pair x t1)
    with Cons.prems show ?thesis by (cases x) (auto dest: Cons.IH)
  qed
qed simp

lemma fetch_round_progress: "fetch_round evp tracker config s index nets lf k t = (r, k', t') \<Longrightarrow> k < k'"
  by (auto simp: fetch_round_def split: prod.splits sum.splits dest: try_peers_connections)

lemma retry_loop_bound:
  "retry_loop n evp tracker config s index nets lf retries k t = (r, retries', k', t') \<Longrightarrow>
     retries \<le> retries' \<and> retries' \<le> retries + (n - 1) \<and> ((\<exists>e. r = Inl e) \<longrightarrow> retries' = retries + (n - 1) \<and> k + n \<le> k')"
proof (induction n arbitrary: lf retries k t)
  case (Suc n)
  show ?case
  proof (cases "fetch_round evp tracker config s index nets lf k t")
    case (fields x k1 t1)
    have "k < k1" using fetch_round_progress [OF fields] .
    show ?thesis
    proof (cases x)
      case (Inr b)
      with fields Suc.prems show ?thesis by auto
    next
      case (Inl m)
      with fields Suc.prems have
        "retry_loop n evp tracker config s index nets m (if n > 0 then Suc retries else retries) k1 t1 =
           (r, retries', k', t')" by simp
      from Suc.IH [OF this] \<open>k < k1\<close> show ?thesis by (cases "n > 0") auto
    qed
  qed
qed simp

text \<open>
  Retrying is bounded and exhaustive (\<^verbatim>\<open>fetch_with_retry\<close>): the call always returns or throws after
  at most \<^verbatim>\<open>max_retries\<close> rounds, counting at most one retry event less than that; and it throws
  only after all rounds were tried, that is, with exactly that many retry events and at
  least one connection attempt for each round.
\<close>

theorem fetch_retries_bounded:
  assumes "fetch_with_retry evp tracker config swarm_id index nets retries k t = (r, retries', k', t')"
  shows "retries' \<le> retries + (unat (dc_max_retries config) - 1) \<and>
    ((\<exists>e. r = Inl e) \<longrightarrow> retries' = retries + (unat (dc_max_retries config) - 1) \<and>
       k + unat (dc_max_retries config) \<le> k')"
  using retry_loop_bound [OF assms [unfolded fetch_with_retry_def]] by blast

lemma lower_bound_correct:
  "sorted xs \<Longrightarrow> first + len \<le> length xs \<Longrightarrow> \<forall>j < first. xs ! j < v \<Longrightarrow>
     \<forall>j. first + len \<le> j \<longrightarrow> j < length xs \<longrightarrow> v \<le> xs ! j \<Longrightarrow>
     lower_bound xs v first len \<le> length xs \<and> (\<forall>j < lower_bound xs v first len. xs ! j < v) \<and>
     (\<forall>j. lower_bound xs v first len \<le> j \<longrightarrow> j < length xs \<longrightarrow> v \<le> xs ! j)"
proof (induction xs v first len rule: lower_bound.induct)
  case (1 xs v first len)
  show ?case
  proof (cases "len = 0")
    case True
    have "lower_bound xs v first len = first" by (subst lower_bound.simps) (simp add: True)
    with "1.prems" True show ?thesis by simp
  next
    case False
    let ?m = "first + len div 2"
    have m: "?m < length xs" "?m < first + len" using "1.prems"(2) False by auto
    show ?thesis
    proof (cases "xs ! ?m < v")
      case True
      have low: "\<forall>j < ?m + 1. xs ! j < v"
      proof (intro allI impI)
        fix j assume "j < ?m + 1"
        then have "xs ! j \<le> xs ! ?m" using "1.prems"(1) m by (intro sorted_nth_mono) auto
        with True show "xs ! j < v" by simp
      qed
      have eq: "lower_bound xs v first len = lower_bound xs v (?m + 1) (len - len div 2 - 1)"
        using True False by (subst lower_bound.simps) (simp add: Let_def)
      have len: "?m + 1 + (len - len div 2 - 1) = first + len" using False by simp
      show ?thesis unfolding eq
        by (rule "1.IH"(1) [OF False refl refl True "1.prems"(1) _ low, unfolded len, OF "1.prems"(2,4)])
    next
      case less: False
      have high: "\<forall>j. first + len div 2 \<le> j \<longrightarrow> j < length xs \<longrightarrow> v \<le> xs ! j"
      proof (intro allI impI)
        fix j assume "first + len div 2 \<le> j" "j < length xs"
        then have "xs ! ?m \<le> xs ! j" using "1.prems"(1) by (intro sorted_nth_mono) auto
        with less show "v \<le> xs ! j" by simp
      qed
      have eq: "lower_bound xs v first len = lower_bound xs v first (len div 2)"
        using less False by (subst lower_bound.simps) (simp add: Let_def)
      show ?thesis unfolding eq
        by (rule "1.IH"(2) [OF False refl refl less "1.prems"(1) _ "1.prems"(3) high]) (use m in simp)
    qed
  qed
qed

lemma binary_search_member:
  assumes "sorted_wrt (<) xs"
  shows "binary_search xs v \<longleftrightarrow> v \<in> set xs"
proof -
  let ?i = "lower_bound xs v 0 (length xs)"
  have "sorted xs" using assms by (rule strict_sorted_imp_sorted)
  from lower_bound_correct [OF this, of 0 "length xs" v]
  have i: "?i \<le> length xs" "\<forall>j < ?i. xs ! j < v" "\<forall>j. ?i \<le> j \<longrightarrow> j < length xs \<longrightarrow> v \<le> xs ! j" by auto
  show ?thesis
  proof
    assume "binary_search xs v"
    then have "?i < length xs" "\<not> v < xs ! ?i" using i(1) by (auto simp: binary_search_def Let_def)
    with i(3) have "xs ! ?i = v" by (simp add: order.antisym)
    with \<open>?i < length xs\<close> show "v \<in> set xs" by (metis nth_mem)
  next
    assume "v \<in> set xs"
    then obtain j where j: "j < length xs" "xs ! j = v" by (auto simp: in_set_conv_nth)
    then have "\<not> j < ?i" using i(2) by auto
    then have "?i < length xs" "xs ! ?i \<le> xs ! j"
      using j \<open>sorted xs\<close> by (auto intro: sorted_nth_mono)
    with j(2) show "binary_search xs v" by (simp add: binary_search_def Let_def)
  qed
qed

lemma try_peers_failover:
  assumes "peer \<in> set peers"
    and "\<And>k t. \<exists>b t'. fetch_chunk evp peer (dc_manifest config) (dc_token config) index (dc_network_timeout config) (nets k) t = (Inr b, t')"
  shows "\<exists>b k' t'. try_peers evp config index nets peers lf k t = (Inr b, k', t')"
  using assms(1)
proof (induction peers arbitrary: lf k t)
  case (Cons p ps)
  obtain x t1 where f: "fetch_chunk evp p (dc_manifest config) (dc_token config) index (dc_network_timeout config) (nets k) t = (x, t1)"
    by fastforce
  show ?case
  proof (cases x)
    case (Inr b)
    with f show ?thesis by simp
  next
    case (Inl e)
    with f assms(2) [of k t] have "p \<noteq> peer" by auto
    with Cons f Inl show ?thesis by simp
  qed
qed simp

lemma fetch_found:
  assumes "validate_config config = Inr ()"
    and tracker: "\<And>k t. \<exists>peers c t'. client_peers tracker swarm_id (nets k) t = (Inr peers, c, t') \<and> peer \<in> set peers"
    and "dp_peer_id peer \<noteq> dc_peer_id config"
    and "sorted_wrt (<) (dp_chunks peer)" and "dp_has_all_chunks peer \<or> index \<in> set (dp_chunks peer)"
    and serves: "\<And>k t. \<exists>b t'. fetch_chunk evp peer (dc_manifest config) (dc_token config) index (dc_network_timeout config) (nets k) t = (Inr b, t')"
  shows "\<exists>b k' t'. fetch_with_retry evp tracker config swarm_id index nets retries k t = (Inr b, retries, k', t') \<and>
    sha256_hex evp b = Inr (chunk_hashes (dc_manifest config) ! unat index)"
proof -
  have "0 < dc_max_retries config"
    using assms(1) by (auto simp: validate_config_def result_simps word_gt_0 split: if_splits)
  then obtain n where n: "unat (dc_max_retries config) = Suc n"
    by (metis gr0_implies_Suc unat_gt_0 word_gt_0)
  have has: "peer_has_chunk peer index"
    using assms(4,5) by (auto simp: peer_has_chunk_def binary_search_member)
  obtain peers c t1 where q: "client_peers tracker swarm_id (nets k) t = (Inr peers, c, t1)" "peer \<in> set peers"
    using tracker by blast
  let ?ps = "filter (\<lambda>peer. \<not> (dp_peer_id peer = dc_peer_id config \<or> \<not> peer_has_chunk peer index)) peers"
  have "peer \<in> set ?ps" using q(2) has assms(3) by simp
  from try_peers_failover [OF this, of evp config index nets, OF serves] obtain b k' t' where
    "try_peers evp config index nets ?ps ''no active peer advertised this chunk'' (Suc k) t1 = (Inr b, k', t')" by blast
  with q have run: "fetch_with_retry evp tracker config swarm_id index nets retries k t = (Inr b, retries, k', t')"
    by (simp add: fetch_with_retry_def n fetch_round_def)
  from retry_loop_verified [OF run [unfolded fetch_with_retry_def]] run show ?thesis
    by (auto simp: chunk_verified_def)
qed

text \<open>
  One honest peer is enough (\<^verbatim>\<open>fetch_with_retry\<close>): if the tracker can be asked and lists a peer other
  than this one that advertises the chunk and serves it, the call returns the chunk, however the
  other peers on the list misbehave and wherever on the list the honest one stands. A
  peer advertises a chunk if it claims to have all of them or has it in its list, which the
  binary search decides.
\<close>

theorem fetch_failover:
  assumes "validate_config config = Inr ()"
    and tracker: "\<And>k t. \<exists>peers c t'. client_peers tracker swarm_id (nets k) t = (Inr peers, c, t') \<and> peer \<in> set peers"
    and "dp_peer_id peer \<noteq> dc_peer_id config"
    and "sorted_wrt (<) (dp_chunks peer)" and "dp_has_all_chunks peer \<or> index \<in> set (dp_chunks peer)"
    and serves: "\<And>k t. \<exists>b t'. fetch_chunk evp peer (dc_manifest config) (dc_token config) index (dc_network_timeout config) (nets k) t = (Inr b, t')"
  shows "\<exists>b k' t'. fetch_with_retry evp tracker config swarm_id index nets retries k t = (Inr b, retries, k', t') \<and>
    sha256_hex evp b = Inr (chunk_hashes (dc_manifest config) ! unat index)"
  by (rule fetch_found [OF assms])

section \<open>Downloader and peer understand each other\<close>

lemma fetch_body_reply:
  assumes swarm: "manifest_swarm_id evp m = Inr swarm"
    and c: "\<And>e. Send_failed e \<notin> set (sending c)" "0 \<le> native_handle c"
      "pending (incoming c) = data_reply b (chunk_hashes m ! unat i) @ rest"
    and b: "manifest_chunk_size m i = Inr sz" "length b = unat sz" "unat sz \<le> 4194304"
      "sha256_hex evp b = Inr (chunk_hashes m ! unat i)"
  shows "\<exists>c'. fetch_body evp m token i c = (Inr b, c')"
proof -
  let ?h = "chunk_hashes m ! unat i"
  define get where "get = ''GET '' @ token @ '' '' @ swarm @ '' '' @ dec (unat i) @ [nl]"
  define line where "line = ''DATA '' @ dec (length b) @ '' '' @ ?h"
  obtain es where w: "write_all get c = (Inr (), c\<lparr>sending := es, sent := sent c @ get\<rparr>)"
    using write_all_ok [OF c(1)] by blast
  define c1 where "c1 = c\<lparr>sending := es, sent := sent c @ get\<rparr>"
  have hex: "is_sha256_hex ?h" using sha256_hex_is_hex [OF b(4)] .
  have small: "length b \<le> 4194304" using b(2,3) by simp
  have parse: "parse_data_header line = Inr \<lparr>byte_count = sz, sha256 = ?h\<rparr>"
    using parse_data_header_line [OF small hex] b(2) by (simp add: line_def)
  have join: "line = join_with CHR '' '' [''DATA'', dec (length b), ?h]" by (simp add: line_def)
  have "list_all printable line"
    unfolding join by (rule join_with_printable) (use hex in \<open>simp add: sha256_wf\<close>)
  moreover have "length line \<le> kMaxHeaderBytes"
    using dec_length [of "length b" 7] small hex by (simp add: line_def kMaxHeaderBytes_def is_sha256_hex_def)
  moreover have "pending (incoming c1) = line @ nl # (b @ rest)"
    using c(3) by (simp add: c1_def line_def data_reply_def)
  ultimately obtain es1 where rl: "read_line kMaxHeaderBytes c1 = (Inr line, c1\<lparr>incoming := es1\<rparr>)" "pending es1 = b @ rest"
    using read_line_delivered [of c1 line "b @ rest"] c(2) by (auto simp: c1_def)
  obtain es2 where re: "read_exact (unat sz) (c1\<lparr>incoming := es1\<rparr>) = (Inr b, c1\<lparr>incoming := es2\<rparr>)"
    using read_exact_delivered [of "c1\<lparr>incoming := es1\<rparr>" b rest] rl(2) b(2) by auto
  have no: "\<not> starts_with line ''ERROR ''" by (simp add: line_def starts_with_def)
  show ?thesis
    unfolding fetch_body_def get_def [symmetric]
    by (simp add: io_bind_def io_lift_def io_return_def swarm get_def [symmetric] w c1_def [symmetric] rl(1) no parse b(1,4) re
        del: append_Cons append_assoc)
qed

text \<open>Whatever is received, a fetch sends the request for its chunk and nothing else.\<close>

lemma fetch_body_sends:
  assumes "manifest_swarm_id evp m = Inr swarm" and "\<And>e. Send_failed e \<notin> set (sending c)"
  shows "sent (snd (fetch_body evp m token i c)) = sent c @ ''GET '' @ token @ '' '' @ swarm @ '' '' @ dec (unat i) @ [nl]"
proof -
  define answer :: "unit \<Rightarrow> bytes io" where "answer = (\<lambda>_.
     io_bind (read_line kMaxHeaderBytes) (\<lambda>response.
     if starts_with response ''ERROR '' then io_lift (throw ''Peer declined requested chunk'')
     else
       io_bind (io_lift (parse_data_header response)) (\<lambda>header.
       io_bind (io_lift (manifest_chunk_size m i)) (\<lambda>expected_size.
       if byte_count header \<noteq> expected_size \<or> sha256 header \<noteq> chunk_hashes m ! unat i
       then io_lift (throw ''Peer returned chunk metadata that disagrees with the manifest'')
       else
         io_bind (read_exact (unat (byte_count header))) (\<lambda>b.
         io_bind (io_lift (sha256_hex evp b)) (\<lambda>hash.
         if hash \<noteq> chunk_hashes m ! unat i
         then io_lift (throw ''Peer returned bytes that failed chunk integrity verification'')
         else io_return b))))))"
  have "quiet (answer x)" for x unfolding answer_def by (intro quiet_bind) auto
  moreover have "fetch_body evp m token i c =
      io_bind (write_all (''GET '' @ token @ '' '' @ swarm @ '' '' @ dec (unat i) @ [nl])) answer c"
    using assms(1) unfolding fetch_body_def answer_def by (subst io_bind_def) (simp add: io_lift_def)
  ultimately show ?thesis using request_then_quiet [OF assms(2), where f = answer] by metis
qed

text \<open>
  C19. A chunk travels intact (\<^verbatim>\<open>fetch_chunk\<close> against \<^verbatim>\<open>serve_connection\<close>): a downloader connects to a
  peer with the same manifest and token, which has the chunk and whose file still matches
  the manifest there; what the downloader sends on the connection is what the peer receives and what the peer sends is
  what the downloader receives, in any segmentation. Then the downloader gets exactly the bytes of that chunk of the peer's file.
\<close>

theorem fetch_chunk_end_to_end:
  assumes server: "peer_server_new config = Inr config'" "ps_manifest config = m" "ps_token config = token"
    and disk: "nodes f (ps_file_path config) = Some (Regular d)" "\<not> unreadable f (ps_file_path config)"
      "fault_at f (ps_file_path config) = None" "length d = unat (file_size_bytes m)"
    and chunk: "unat i < length (chunk_hashes m)" "has_chunk config i = Inr True"
      "sha256_hex evp (chunk_bytes m d (unat i)) = Inr (chunk_hashes m ! unat i)"
    and swarm: "manifest_swarm_id evp m = Inr swarm" and token: "safe_atom token"
    and connected: "connect_tcp net (dp_endpoint peer) timeout t = (Inr c, t')"
    and c: "0 \<le> native_handle c" "\<And>e. Send_failed e \<notin> set (sending c)"
    and sc: "0 \<le> native_handle sc" "\<And>e. Send_failed e \<notin> set (sending sc)"
    and run: "fetch_body evp m token i c = (r, c')"
    and linked: "exchange c c' sc (serve_connection evp config f sc)"
  shows "fetch_chunk evp peer m token i timeout net t =
    (Inr (chunk_bytes m d (unat i)), socket_destroy (native_handle c) t')"
proof -
  have valid: "manifest_validate m = Inr ()" using server peer_server_new_valid by blast
  have "sent c' = ''GET '' @ token @ '' '' @ swarm @ '' '' @ dec (unat i) @ [nl]"
    using fetch_body_sends [OF swarm c(2), of token i] run linked by (simp add: exchange_def)
  then have "pending (incoming sc) = ''GET '' @ token @ '' '' @ swarm @ '' '' @ dec (unat i) @ [nl]" "sent sc = []"
    using linked by (simp_all add: exchange_def)
  then have "sent (serve_connection evp config f sc) = data_reply (chunk_bytes m d (unat i)) (chunk_hashes m ! unat i) @ []"
    using serve_connection_chunk [OF server(1) disk(1-3), of i evp swarm sc] server(2,3) disk(4) chunk swarm token sc
    by (simp add: data_reply_def)
  then have reply: "pending (incoming c) = data_reply (chunk_bytes m d (unat i)) (chunk_hashes m ! unat i) @ []"
    using linked by (simp add: exchange_def)
  obtain sz where sz: "manifest_chunk_size m i = Inr sz" "length (chunk_bytes m d (unat i)) = unat sz" "unat sz \<le> 4194304"
    using read_chunk [OF valid chunk(1) disk(4)] by metis
  have "\<exists>c''. fetch_body evp m token i c = (Inr (chunk_bytes m d (unat i)), c'')"
    using fetch_body_reply [OF swarm c(2,1) reply sz chunk(3)] by blast
  with connected show ?thesis by (auto simp: fetch_chunk_def with_connection_def)
qed

section \<open>Revalidation\<close>

lemma file_data_Regular [simp]: "nodes f p = Some (Regular d) \<Longrightarrow> file_data f p = d"
  by (simp add: file_data_def)

definition file_has :: "'c evp \<Rightarrow> manifest \<Rightarrow> bytes \<Rightarrow> u32 \<Rightarrow> bool" where
  "file_has evp m d i \<longleftrightarrow> sha256_hex evp (chunk_bytes m d (unat i)) = Inr (chunk_hashes m ! unat i)"

text \<open>A store for a manifest: well formed, with one flag for each chunk.\<close>

definition store_for :: "manifest \<Rightarrow> resume_store \<Rightarrow> bool" where
  "store_for m resume \<longleftrightarrow> wf_store resume \<and> rs_chunk_count resume = of_nat (length (chunk_hashes m))"

lemma store_for_bound:
  assumes "manifest_validate m = Inr ()" and "store_for m resume"
  shows "i < rs_chunk_count resume \<longleftrightarrow> unat i < length (chunk_hashes m)"
proof -
  have "length (chunk_hashes m) < 2 ^ 32"
    using assms(1) by (simp add: manifest_validate_Inr kMaxChunkCount_def)
  then show ?thesis
    using assms(2) by (simp add: store_for_def word_less_nat_alt unat_of_nat take_bit_nat_eq_self)
qed

lemma partial_chunk_matches_file:
  assumes "manifest_validate m = Inr ()" and "unat i < length (chunk_hashes m)"
    and "length d = unat (file_size_bytes m)" and "sha256_hex evp (chunk_bytes m d (unat i)) = Inr h"
  shows "partial_chunk_matches evp (stream_of d) m i = Inr (file_has evp m d i)"
proof -
  obtain ofs sz where r: "manifest_chunk_offset m i = Inr ofs" "manifest_chunk_size m i = Inr sz"
    "unat ofs = unat i * unat (chunk_size_bytes m)" "length (chunk_bytes m d (unat i)) = unat sz"
    "fst (stream_read (stream_seek (stream_of d) ofs) (unat sz)) = chunk_bytes m d (unat i)"
    using read_chunk [OF assms(1-3)] by metis
  have "\<not> unat ofs > 2 ^ 63 - 1" using manifest_offset_bound [OF assms(1,2)] r(3) by simp
  with r assms(4) show ?thesis
    by (auto simp: partial_chunk_matches_def file_has_def Let_def)
qed

lemma revalidate_loop:
  assumes "\<forall>i\<in>set is. partial_chunk_matches evp input m i = Inr (ok i)"
  shows "rfold (revalidate_chunk evp input m) is (s, ch) =
    rbind (rfold (\<lambda>i s. if ok i then Inr s else resume_mark_incomplete i s) is s)
      (\<lambda>s'. Inr (s', ch \<or> (\<exists>i\<in>set is. \<not> ok i)))"
  using assms
proof (induction "is" arbitrary: s ch)
  case (Cons i "is")
  then show ?case
    by (cases "ok i"; cases "resume_mark_incomplete i s") (auto simp: revalidate_chunk_def)
qed simp

lemma resume_flush_store:
  "resume_flush env s f = (r, s', states) \<Longrightarrow>
     rs_completed s' = rs_completed s \<and> rs_chunk_count s' = rs_chunk_count s \<and> rs_path s' = rs_path s \<and>
     rs_swarm_id s' = rs_swarm_id s"
  by (auto simp: resume_flush_def flush_end_def split: option.splits prod.splits sum.splits if_splits)

lemma done_chunks_cong:
  "rs_completed s' = rs_completed s \<Longrightarrow> rs_chunk_count s' = rs_chunk_count s \<Longrightarrow>
     done_chunks s' = done_chunks s \<and> wf_store s' = wf_store s"
  by (simp add: done_chunks_def wf_store_def)

text \<open>The partial file is there, readable, and of the right size.\<close>

definition partial_ok :: "manifest \<Rightarrow> path \<Rightarrow> fs \<Rightarrow> bool" where
  "partial_ok m p f \<longleftrightarrow>
     (\<exists>d. nodes f p = Some (Regular d) \<and> length d = unat (file_size_bytes m)) \<and>
     \<not> unreadable f p \<and> fault_at f p = None"

lemma strike_dirty:
  "rfold (\<lambda>i s. if ok i then Inr s else resume_mark_incomplete i s) is s = Inr s' \<Longrightarrow> s' = s \<or> rs_dirty s'"
proof (induction "is" arbitrary: s)
  case (Cons i "is")
  then obtain s1 where s1: "(if ok i then Inr s else resume_mark_incomplete i s) = Inr s1"
    and rest: "rfold (\<lambda>i s. if ok i then Inr s else resume_mark_incomplete i s) is s1 = Inr s'"
    by (auto simp: result_simps)
  have "s1 = s \<or> rs_dirty s1" using s1 mark_cases [of i s s1] by (auto split: if_splits)
  then show ?case using Cons.IH [OF rest] by auto
qed simp

lemma strike_frame:
  "rfold (\<lambda>i s. if ok i then Inr s else resume_mark_incomplete i s) is s = Inr s' \<Longrightarrow>
     rs_path s' = rs_path s \<and> rs_swarm_id s' = rs_swarm_id s \<and> rs_chunk_count s' = rs_chunk_count s"
proof (induction "is" arbitrary: s)
  case (Cons i "is")
  then obtain s1 where s1: "(if ok i then Inr s else resume_mark_incomplete i s) = Inr s1"
    and rest: "rfold (\<lambda>i s. if ok i then Inr s else resume_mark_incomplete i s) is s1 = Inr s'"
    by (auto simp: result_simps)
  have "rs_path s1 = rs_path s \<and> rs_swarm_id s1 = rs_swarm_id s \<and> rs_chunk_count s1 = rs_chunk_count s"
    using s1 mark_cases [of i s s1] by (auto split: if_splits)
  then show ?case using Cons.IH [OF rest] by auto
qed simp

lemma revalidate_runs:
  assumes valid: "manifest_validate m = Inr ()" and store: "store_for m resume"
    and sha: "\<And>b. \<exists>h. sha256_hex evp b = Inr h" and disk: "partial_ok m p f"
    and run: "revalidate_completed_chunks evp env p m resume f = (r, s', states)"
  obtains s2 where "store_for m s2" and "done_chunks s2 = {i \<in> done_chunks resume. file_has evp m (file_data f p) i}"
    and "rs_path s2 = rs_path resume" and "rs_swarm_id s2 = rs_swarm_id resume" and "rs_chunk_count s2 = rs_chunk_count resume"
    and "(s2 = resume \<and> s' = resume \<and> r = Inr () \<and> states = [f]) \<or> (rs_dirty s2 \<and> done_chunks s2 \<noteq> done_chunks resume \<and> resume_flush env s2 f = (r, s', states))"
proof (cases "resume_completed_chunks resume = []")
  case True
  then have "done_chunks resume = {}" using completed_listing [of resume] by auto
  with True run store show thesis by (intro that [of resume]) (auto simp: revalidate_completed_chunks_def)
next
  case False
  obtain d where d: "nodes f p = Some (Regular d)" "\<not> unreadable f p" "fault_at f p = None" "length d = unat (file_size_bytes m)"
    using disk by (auto simp: partial_ok_def)
  let ?ok = "file_has evp m d" and ?is = "resume_completed_chunks resume"
  have wf: "wf_store resume" using store by (simp add: store_for_def)
  have open': "open_in f p = Some (stream_of d)" using d by (simp add: open_in_plain)
  have "partial_chunk_matches evp (stream_of d) m i = Inr (?ok i)" if "i \<in> set ?is" for i
  proof -
    have "i < rs_chunk_count resume" using that completed_listing [of resume] rl.members_bound [OF wf] by auto
    then have "unat i < length (chunk_hashes m)" using store_for_bound [OF valid store] by simp
    then show ?thesis using partial_chunk_matches_file [OF valid _ d(4)] sha by metis
  qed
  then have loop: "rfold (revalidate_chunk evp (stream_of d) m) ?is (resume, False) =
      rbind (rfold (\<lambda>i s. if ?ok i then Inr s else resume_mark_incomplete i s) ?is resume)
        (\<lambda>s'. Inr (s', False \<or> (\<exists>i\<in>set ?is. \<not> ?ok i)))"
    by (intro revalidate_loop) simp
  obtain s2 where s2: "rfold (\<lambda>i s. if ?ok i then Inr s else resume_mark_incomplete i s) ?is resume = Inr s2"
    "wf_store s2" "rs_chunk_count s2 = rs_chunk_count resume" "done_chunks s2 = {i \<in> done_chunks resume. ?ok i}"
    using rl.strike_out_listing [OF wf, of ?ok] by blast
  let ?changed = "\<exists>i\<in>set ?is. \<not> ?ok i"
  have flow: "(if ?changed then resume_flush env s2 f else (Inr (), s2, [f])) = (r, s', states)"
    using run False open' loop s2(1) by (auto simp: revalidate_completed_chunks_def Let_def split: if_splits)
  have same: "s2 = resume" if "\<not> ?changed"
  proof -
    have "rfold (\<lambda>i s. if ?ok i then Inr s else resume_mark_incomplete i s) js s = Inr s" if "\<forall>i\<in>set js. ?ok i" for js s
      using that by (induction js) auto
    with that s2(1) show ?thesis by auto
  qed
  have dirty: "rs_dirty s2 \<and> done_chunks s2 \<noteq> done_chunks resume" if ?changed
  proof -
    from that obtain i where "i \<in> done_chunks resume" "\<not> ?ok i" using completed_listing [of resume] by auto
    with s2(4) have "done_chunks s2 \<noteq> done_chunks resume" by auto
    with strike_dirty [OF s2(1)] show ?thesis by auto
  qed
  have "store_for m s2" using s2(2,3) store by (simp add: store_for_def)
  moreover have "file_data f p = d" using d(1) by simp
  ultimately show thesis
    by (intro that [of s2]) (use s2(3,4) strike_frame [OF s2(1)] flow same dirty in \<open>auto split: if_splits\<close>)
qed

lemma revalidate_result:
  assumes "manifest_validate m = Inr ()" and "store_for m resume"
    and "\<And>b. \<exists>h. sha256_hex evp b = Inr h" and "partial_ok m p f"
    and "revalidate_completed_chunks evp env p m resume f = (r, resume', states)"
  shows "store_for m resume' \<and> done_chunks resume' = {i \<in> done_chunks resume. file_has evp m (file_data f p) i}"
proof -
  obtain s2 where s2: "store_for m s2" "done_chunks s2 = {i \<in> done_chunks resume. file_has evp m (file_data f p) i}"
    and flow: "(s2 = resume \<and> resume' = resume \<and> r = Inr () \<and> states = [f]) \<or>
      (rs_dirty s2 \<and> done_chunks s2 \<noteq> done_chunks resume \<and> resume_flush env s2 f = (r, resume', states))"
    by (rule revalidate_runs [OF assms])
  then have "rs_completed resume' = rs_completed s2" "rs_chunk_count resume' = rs_chunk_count s2"
    using resume_flush_store [of env s2 f r resume' states] by auto
  from done_chunks_cong [OF this] this(2) s2 show ?thesis by (simp add: store_for_def)
qed

text \<open>
  Revalidation keeps exactly the good chunks (\<^verbatim>\<open>revalidate_completed_chunks\<close>): after a resume the
  store holds a chunk if and only if it held it before and the bytes in the partial file at
  its place still hash to the digest of the manifest, whether or not writing the shortened
  state back succeeds.
\<close>

theorem revalidate_exact:
  assumes "manifest_validate m = Inr ()" and "store_for m resume" and "evp_computes evp H"
    and "nodes f p = Some (Regular d)" "\<not> unreadable f p" "fault_at f p = None" "length d = unat (file_size_bytes m)"
    and "revalidate_completed_chunks evp env p m resume f = (r, resume', states)"
  shows "store_for m resume' \<and>
    done_chunks resume' = {i \<in> done_chunks resume. hex_encode (H (chunk_bytes m d (unat i))) = chunk_hashes m ! unat i}"
proof -
  have sha: "sha256_hex evp b = Inr (hex_encode (H b))" for b using assms(3) by (rule sha256_hex_computes)
  have "partial_ok m p f" using assms(4-7) by (simp add: partial_ok_def)
  then show ?thesis
    using revalidate_result [OF assms(1,2) _ _ assms(8)] sha assms(4) by (simp add: file_has_def file_data_def)
qed

section \<open>Writing a chunk\<close>

lemma overwrite_within:
  "offset + length b \<le> length d \<Longrightarrow> overwrite d offset b = take offset d @ b @ drop (offset + length b) d"
  by (simp add: overwrite_def)

lemma overwrite_twice:
  assumes "offset + length b + length c \<le> length d"
  shows "overwrite (overwrite d offset b) (offset + length b) c = overwrite d offset (b @ c)"
  using assms by (simp add: overwrite_within ac_simps)

text \<open>Two contents agree outside a range.\<close>

definition same_outside :: "nat \<Rightarrow> nat \<Rightarrow> bytes \<Rightarrow> bytes \<Rightarrow> bool" where
  "same_outside lo hi d d' \<longleftrightarrow> length d' = length d \<and> take lo d' = take lo d \<and> drop hi d' = drop hi d"

lemma same_outside_overwrite:
  assumes "lo \<le> offset" "offset + length b \<le> hi" "hi \<le> length d"
  shows "same_outside lo hi d (overwrite d offset b)"
proof -
  have eq: "overwrite d offset b = take offset d @ b @ drop (offset + length b) d"
    using assms by (intro overwrite_within) simp
  have "take lo (take offset d) = take lo d" and "length (take offset d) = offset" using assms by simp_all
  moreover have "drop (hi - offset - length b) (drop (offset + length b) d) = drop hi d" using assms by simp
  ultimately show ?thesis using assms by (simp add: same_outside_def eq)
qed

lemma same_outside_mono: "same_outside lo hi d d' \<Longrightarrow> hi \<le> hi' \<Longrightarrow> same_outside lo hi' d d'"
proof -
  assume same: "same_outside lo hi d d'" and le: "hi \<le> hi'"
  have eq: "drop hi' x = drop (hi' - hi) (drop hi x)" for x :: bytes using le by simp
  from same have "drop hi d' = drop hi d" by (simp add: same_outside_def)
  then have "drop hi' d' = drop hi' d" unfolding eq by (rule arg_cong)
  with same show ?thesis by (simp add: same_outside_def)
qed

lemma same_outside_trans: "same_outside lo hi d d' \<Longrightarrow> same_outside lo hi d' d'' \<Longrightarrow> same_outside lo hi d d''"
  by (simp add: same_outside_def)

lemma same_outside_refl [simp]: "same_outside lo hi d d"
  by (simp add: same_outside_def)

lemma pwrite_loop_trace:
  assumes "pwrite_loop es d offset rest = (r, ds)" and "lo \<le> offset" "offset + length rest \<le> hi" "hi \<le> length d"
  shows "ds \<noteq> [] \<and> (\<forall>d'\<in>set ds. same_outside lo hi d d') \<and> (r = Inr () \<longrightarrow> last ds = overwrite d offset rest)"
  using assms
proof (induction es d offset rest arbitrary: ds rule: pwrite_loop.induct)
  case (1 d offset rest)
  then show ?case by (auto simp: same_outside_overwrite) (simp_all add: overwrite_def)
next
  case (2 e es d offset rest)
  show ?case
  proof (cases "rest = []")
    case True
    with "2.prems" show ?thesis by (auto simp: overwrite_def)
  next
    case False
    show ?thesis
    proof (cases e)
      case (Wrote k)
      show ?thesis
      proof (cases "k = 0")
        case True
        with "2.prems" False Wrote show ?thesis by auto
      next
        case k: False
        let ?d = "overwrite d offset (take k rest)"
        obtain ds' where rec: "pwrite_loop es ?d (offset + length (take k rest)) (drop k rest) = (r, ds')"
          and ds: "ds = ?d # ds'"
          using "2.prems"(1) False Wrote k by (auto simp: Let_def split: prod.splits)
        have step: "same_outside lo hi d ?d"
          using "2.prems"(2-4) by (intro same_outside_overwrite) auto
        then have len: "length ?d = length d" by (simp add: same_outside_def)
        have IH: "ds' \<noteq> [] \<and> (\<forall>d'\<in>set ds'. same_outside lo hi ?d d') \<and>
            (r = Inr () \<longrightarrow> last ds' = overwrite ?d (offset + length (take k rest)) (drop k rest))"
          by (rule "2.IH"(1) [OF False Wrote k refl rec]) (use "2.prems" len in \<open>auto simp: min_def\<close>)
        moreover have "overwrite ?d (offset + length (take k rest)) (drop k rest) = overwrite d offset rest"
          using overwrite_twice [of offset "take k rest" "drop k rest" d] "2.prems"(3,4) by (auto simp: min_def)
        ultimately show ?thesis unfolding ds using step by (auto intro: same_outside_trans)
      qed
    next
      case Write_interrupted
      with "2.prems" False "2.IH"(2) [OF False Write_interrupted] show ?thesis by simp
    next
      case (Write_failed m)
      with "2.prems" False show ?thesis by auto
    qed
  qed
qed

text \<open>Chunks do not overlap: changing one leaves the bytes of the others.\<close>

lemma chunk_bytes_other:
  assumes "same_outside (i * unat (chunk_size_bytes m)) ((i + 1) * unat (chunk_size_bytes m)) d d'" and "j \<noteq> i"
  shows "chunk_bytes m d' j = chunk_bytes m d j"
proof -
  let ?c = "unat (chunk_size_bytes m)"
  consider "j < i" | "i < j" using assms(2) by linarith
  then show ?thesis
  proof cases
    case 1
    then have "j * ?c + ?c \<le> i * ?c" using mult_le_mono1 [of "j + 1" i ?c] by simp
    then have eq: "take ?c (drop (j * ?c) x) = take ?c (drop (j * ?c) (take (i * ?c) x))" for x :: bytes
      by (simp add: drop_take min_def)
    have "take (i * ?c) d' = take (i * ?c) d" using assms(1) by (simp add: same_outside_def)
    then show ?thesis unfolding chunk_bytes_def eq [of d'] eq [of d] by simp
  next
    case 2
    then have "(i + 1) * ?c \<le> j * ?c" using mult_le_mono1 [of "i + 1" j ?c] by simp
    then have eq: "drop (j * ?c) x = drop (j * ?c - (i + 1) * ?c) (drop ((i + 1) * ?c) x)" for x :: bytes
      by (simp only: drop_drop le_add_diff_inverse2)
    have "drop ((i + 1) * ?c) d' = drop ((i + 1) * ?c) d" using assms(1) by (simp add: same_outside_def)
    then show ?thesis unfolding chunk_bytes_def eq [of d'] eq [of d] by simp
  qed
qed

text \<open>The chunks that a restart would find in the resume file.\<close>

definition claimed :: "fs \<Rightarrow> resume_store \<Rightarrow> u32 set" where
  "claimed f s =
     (case resume_load_or_create f (rs_path s) (rs_swarm_id s) (rs_chunk_count s) of
        Inl _ \<Rightarrow> {} | Inr t \<Rightarrow> done_chunks t)"

definition loadable :: "fs \<Rightarrow> resume_store \<Rightarrow> bool" where
  "loadable f s \<longleftrightarrow> (\<exists>t. resume_load_or_create f (rs_path s) (rs_swarm_id s) (rs_chunk_count s) = Inr t)"

text \<open>
  What holds between the writes of a download: the chunks the store knows are in the partial
  file, and the resume file claims no others.
\<close>

definition paths_apart :: "path \<Rightarrow> resume_store \<Rightarrow> bool" where
  "paths_apart p s \<longleftrightarrow> p \<noteq> rs_path s \<and> p \<noteq> rs_path s @ ''.tmp'' \<and> path_filename (rs_path s) \<noteq> [] \<and> text_id (rs_swarm_id s)"

definition store_backed :: "'c evp \<Rightarrow> manifest \<Rightarrow> path \<Rightarrow> fs \<Rightarrow> resume_store \<Rightarrow> bool" where
  "store_backed evp m p f s \<longleftrightarrow>
     store_for m s \<and> paths_apart p s \<and> partial_ok m p f \<and>
     \<not> unreadable f (rs_path s) \<and> fault_at f (rs_path s) = None \<and>
     (\<forall>i\<in>done_chunks s. file_has evp m (file_data f p) i) \<and> loadable f s \<and> claimed f s \<subseteq> done_chunks s"

text \<open>What a restart can rely on, whenever the process dies.\<close>

definition crash_consistent :: "'c evp \<Rightarrow> manifest \<Rightarrow> path \<Rightarrow> resume_store \<Rightarrow> fs \<Rightarrow> bool" where
  "crash_consistent evp m p s f \<longleftrightarrow>
     partial_ok m p f \<and> loadable f s \<and> (\<forall>i\<in>claimed f s. file_has evp m (file_data f p) i)"

text \<open>What other threads can rely on while the store stands: its chunks are in the file.\<close>

definition chunks_intact :: "'c evp \<Rightarrow> manifest \<Rightarrow> path \<Rightarrow> u32 set \<Rightarrow> fs \<Rightarrow> bool" where
  "chunks_intact evp m p D f \<longleftrightarrow> partial_ok m p f \<and> (\<forall>i\<in>D. file_has evp m (file_data f p) i)"

lemma chunks_intact_mono: "chunks_intact evp m p D f \<Longrightarrow> D' \<subseteq> D \<Longrightarrow> chunks_intact evp m p D' f"
  by (auto simp: chunks_intact_def)

lemma store_backed_intact: "store_backed evp m p f s \<Longrightarrow> chunks_intact evp m p (done_chunks s) f"
  by (simp add: store_backed_def chunks_intact_def)

lemma store_backed_crash: "store_backed evp m p f s \<Longrightarrow> crash_consistent evp m p s f"
  by (auto simp: store_backed_def crash_consistent_def)

lemma claimed_cong:
  "rs_path s' = rs_path s \<Longrightarrow> rs_swarm_id s' = rs_swarm_id s \<Longrightarrow> rs_chunk_count s' = rs_chunk_count s \<Longrightarrow>
     claimed f s' = claimed f s \<and> loadable f s' = loadable f s"
  by (simp add: claimed_def loadable_def)

lemma claimed_local:
  "nodes f (rs_path s) = nodes g (rs_path s) \<Longrightarrow> unreadable f = unreadable g \<Longrightarrow> fault_at f = fault_at g \<Longrightarrow>
     claimed f s = claimed g s \<and> loadable f s = loadable g s"
  unfolding claimed_def loadable_def using load_or_create_local [of f "rs_path s" g] by simp

lemma claimed_written:
  assumes "wf_store s" "text_id (rs_swarm_id s)" "path_filename (rs_path s) \<noteq> []"
    and "nodes f (rs_path s) = Some (Regular (resume_serialize s))"
    and "\<not> unreadable f (rs_path s)" "fault_at f (rs_path s) = None"
  shows "claimed f s = done_chunks s \<and> loadable f s"
proof -
  have "rs_path s \<noteq> []" using assms(3) by (auto simp: path_filename_def)
  from load_serialized [OF assms(1,2) this assms(4-6)] obtain t where
    t: "resume_load_or_create f (rs_path s) (rs_swarm_id s) (rs_chunk_count s) = Inr t"
    "rs_completed t = rs_completed s" by blast
  moreover have "rs_chunk_count t = rs_chunk_count s" using load_or_create_Inr [OF t(1)] by simp
  ultimately show ?thesis by (simp add: claimed_def loadable_def done_chunks_def)
qed

text \<open>A flush keeps the store backed, in every intermediate state.\<close>

lemma flush_states:
  assumes "store_backed evp m p f s" and "resume_flush env s f = (r, s', states)" and "g \<in> set states"
  shows "chunks_intact evp m p (done_chunks s) g \<and> loadable g s \<and> claimed g s \<subseteq> done_chunks s \<and>
    nodes g p = nodes f p \<and> unreadable g = unreadable f \<and> fault_at g = fault_at f"
proof (cases "rs_dirty s")
  case False
  with assms show ?thesis by (auto simp: resume_flush_def flush_begin_def store_backed_def chunks_intact_def)
next
  case True
  let ?text = "resume_serialize s"
  have inv: "wf_store s" "text_id (rs_swarm_id s)" "path_filename (rs_path s) \<noteq> []" "p \<noteq> rs_path s" "p \<noteq> rs_path s @ ''.tmp''"
    "\<not> unreadable f (rs_path s)" "fault_at f (rs_path s) = None"
    using assms(1) by (simp_all add: store_backed_def store_for_def paths_apart_def)
  have w: "write_atomic env f (rs_path s) ?text = (r, states)"
    using assms(2) True by (auto simp: resume_flush_def flush_begin_def split: prod.splits sum.splits)
  note W = write_atomic_states [OF inv(3) w]
  have "nodes f p \<noteq> None" using assms(1) by (auto simp: store_backed_def partial_ok_def)
  then have same: "nodes g p = nodes f p" "unreadable g = unreadable f" "fault_at g = fault_at f"
    using W assms(3) inv(4,5) by blast+
  have "nodes g (rs_path s) = nodes f (rs_path s) \<or> nodes g (rs_path s) = Some (Regular ?text)" using W assms(3) by blast
  then have "loadable g s \<and> (claimed g s = claimed f s \<or> claimed g s = done_chunks s)"
    using claimed_local [of g s f] claimed_written [OF inv(1-3), of g] same inv(6,7) assms(1)
    by (auto simp: store_backed_def)
  moreover have "file_data g p = file_data f p" using same(1) by (simp add: file_data_def)
  ultimately show ?thesis using assms(1) same by (auto simp: store_backed_def partial_ok_def chunks_intact_def)
qed

lemma flush_backed:
  assumes "store_backed evp m p f s" and "resume_flush env s f = (r, s', states)"
  shows "store_backed evp m p (last states) s' \<and> (\<forall>g\<in>set states. crash_consistent evp m p s g) \<and>
    states \<noteq> [] \<and> nodes (last states) p = nodes f p \<and> done_chunks s' = done_chunks s \<and>
    (r = Inr () \<longrightarrow> rs_dirty s \<longrightarrow> claimed (last states) s = done_chunks s)"
proof -
  note F = flush_states [OF assms]
  have inv: "wf_store s" "text_id (rs_swarm_id s)" "path_filename (rs_path s) \<noteq> []" "\<not> unreadable f (rs_path s)"
    "fault_at f (rs_path s) = None"
    using assms(1) by (simp_all add: store_backed_def store_for_def paths_apart_def)
  have written: "states \<noteq> [] \<and> (rs_dirty s \<longrightarrow> r = Inr () \<longrightarrow> nodes (last states) (rs_path s) = Some (Regular (resume_serialize s)))"
  proof (cases "rs_dirty s")
    case True
    then have "write_atomic env f (rs_path s) (resume_serialize s) = (r, states)"
      using assms(2) by (auto simp: resume_flush_def flush_begin_def split: prod.splits sum.splits)
    from write_atomic_states [OF inv(3) this] show ?thesis by blast
  qed (use assms(2) in \<open>auto simp: resume_flush_def flush_begin_def\<close>)
  then have last: "last states \<in> set states" by simp
  have s': "rs_completed s' = rs_completed s" "rs_chunk_count s' = rs_chunk_count s" "rs_path s' = rs_path s"
    "rs_swarm_id s' = rs_swarm_id s"
    using resume_flush_store [OF assms(2)] by simp_all
  have same_done: "done_chunks s' = done_chunks s" "wf_store s' = wf_store s" using done_chunks_cong [OF s'(1,2)] by simp_all
  have "store_backed evp m p (last states) s'"
    using assms(1) F [OF last] s' same_done claimed_cong [OF s'(3,4,2)]
    by (simp add: store_backed_def store_for_def paths_apart_def chunks_intact_def)
  moreover have "crash_consistent evp m p s g" if "g \<in> set states" for g
    using F [OF that] by (auto simp: crash_consistent_def chunks_intact_def)
  moreover have "claimed (last states) s = done_chunks s" if "r = Inr ()" "rs_dirty s"
    using claimed_written [OF inv(1-3), of "last states"] written that F [OF last] inv(4,5) by simp
  ultimately show ?thesis using written same_done F [OF last] by blast
qed

lemma chunk_extent:
  assumes "manifest_validate m = Inr ()" and "unat i < length (chunk_hashes m)"
    and "length d = unat (file_size_bytes m)" and "manifest_chunk_size m i = Inr sz"
  shows "unat i * unat (chunk_size_bytes m) + unat sz \<le> length d \<and> unat sz \<le> unat (chunk_size_bytes m) \<and>
    chunk_bytes m d (unat i) = take (unat sz) (drop (unat i * unat (chunk_size_bytes m)) d) \<and>
    unat sz = min (unat (chunk_size_bytes m)) (length d - unat i * unat (chunk_size_bytes m))"
proof -
  let ?c = "unat (chunk_size_bytes m)"
  obtain ofs sz' where "manifest_chunk_size m i = Inr sz'" "length (chunk_bytes m d (unat i)) = unat sz'"
    using read_chunk [OF assms(1-3)] by metis
  then have sz: "unat sz = min ?c (length d - unat i * ?c)" using assms(4) by (simp add: chunk_bytes_def)
  have "unat i * ?c < length d" using manifest_last_offset [OF assms(1,2)] assms(3) by simp
  with sz show ?thesis by (auto simp: chunk_bytes_def min_def)
qed

lemma chunk_bytes_overwritten:
  assumes "manifest_validate m = Inr ()" and "unat i < length (chunk_hashes m)"
    and "length d = unat (file_size_bytes m)" and "manifest_chunk_size m i = Inr sz" and "length b = unat sz"
  shows "chunk_bytes m (overwrite d (unat i * unat (chunk_size_bytes m)) b) (unat i) = b"
proof -
  let ?o = "unat i * unat (chunk_size_bytes m)"
  note E = chunk_extent [OF assms(1-4)]
  have fits: "?o + length b \<le> length d" using E assms(5) by simp
  have eq: "overwrite d ?o b = take ?o d @ b @ drop (?o + length b) d"
    using overwrite_within [OF fits] .
  have len: "length (overwrite d ?o b) = length d" using eq fits by simp
  then have "chunk_bytes m (overwrite d ?o b) (unat i) = take (unat sz) (drop ?o (overwrite d ?o b))"
    using chunk_extent [OF assms(1,2) _ assms(4), of "overwrite d ?o b"] assms(3) by simp
  also have "\<dots> = b" using eq fits assms(5) by simp
  finally show ?thesis .
qed

lemma store_backed_overwrite:
  assumes "store_backed evp m p f s" and "nodes f p = Some (Regular d)" and "i \<notin> done_chunks s"
    and "same_outside (unat i * unat (chunk_size_bytes m)) ((unat i + 1) * unat (chunk_size_bytes m)) d d'"
  shows "store_backed evp m p (write_node f p d') s"
proof -
  let ?g = "write_node f p d'"
  have apart: "p \<noteq> rs_path s" using assms(1) by (simp add: store_backed_def paths_apart_def)
  have "claimed ?g s = claimed f s \<and> loadable ?g s = loadable f s"
    by (rule claimed_local) (use apart in \<open>simp_all add: node_simps\<close>)
  moreover have "file_has evp m d' j" if "j \<in> done_chunks s" for j
  proof -
    have "unat j \<noteq> unat i" using that assms(3) by (auto dest: injD [OF inj_unat])
    then have "chunk_bytes m d' (unat j) = chunk_bytes m d (unat j)" by (rule chunk_bytes_other [OF assms(4)])
    with that assms(1,2) show ?thesis by (simp add: store_backed_def file_has_def)
  qed
  moreover have "length d' = length d" using assms(4) by (simp add: same_outside_def)
  moreover have "file_data ?g p = d'" by (simp add: node_simps)
  ultimately show ?thesis
    using assms(1,2) by (simp add: store_backed_def partial_ok_def node_simps)
qed

lemma store_backed_mark:
  assumes "store_backed evp m p f s" and "i < rs_chunk_count s" and "file_has evp m (file_data f p) i"
    and "resume_mark_complete i s = Inr s'"
  shows "store_backed evp m p f s' \<and> done_chunks s' = insert i (done_chunks s) \<and> rs_path s' = rs_path s \<and>
    rs_swarm_id s' = rs_swarm_id s \<and> rs_chunk_count s' = rs_chunk_count s"
proof -
  have "wf_store s" using assms(1) by (simp add: store_backed_def store_for_def)
  with rl.mark_Inr [OF this assms(2)] assms(4) have new: "wf_store s'" "rs_chunk_count s' = rs_chunk_count s"
    "done_chunks s' = insert i (done_chunks s)" by auto
  have same: "rs_path s' = rs_path s" "rs_swarm_id s' = rs_swarm_id s"
    using mark_cases [OF disjI1 [OF assms(4)]] by auto
  show ?thesis using assms(1,3) new same claimed_cong [OF same new(2)]
    by (auto simp: store_backed_def store_for_def paths_apart_def)
qed

text \<open>The states while the bytes are written: every one of them still backs the store.\<close>

lemma pwrite_backed:
  assumes valid: "manifest_validate m = Inr ()" and backed: "store_backed evp m p f s"
    and i: "i < rs_chunk_count s" "i \<notin> done_chunks s"
    and b: "manifest_chunk_size m i = Inr sz" "length b = unat sz"
    and run: "pwrite_loop es (file_data f p) (unat i * unat (chunk_size_bytes m)) b = (r, ds)"
  shows "ds \<noteq> [] \<and> (\<forall>g\<in>set (map (write_node f p) ds). store_backed evp m p g s) \<and>
    (r = Inr () \<longrightarrow> chunk_bytes m (last ds) (unat i) = b) \<and>
    (\<forall>d\<in>set ds. same_outside (unat i * unat (chunk_size_bytes m)) ((unat i + 1) * unat (chunk_size_bytes m)) (file_data f p) d)"
proof -
  let ?o = "unat i * unat (chunk_size_bytes m)"
  have store: "store_for m s" using backed by (simp add: store_backed_def)
  then have n: "unat i < length (chunk_hashes m)" using store_for_bound [OF valid] i(1) by blast
  obtain d where d: "nodes f p = Some (Regular d)" "length d = unat (file_size_bytes m)"
    using backed by (auto simp: store_backed_def partial_ok_def)
  note E = chunk_extent [OF valid n d(2) b(1)]
  have T: "ds \<noteq> [] \<and> (\<forall>d'\<in>set ds. same_outside ?o (?o + length b) d d') \<and> (r = Inr () \<longrightarrow> last ds = overwrite d ?o b)"
    by (rule pwrite_loop_trace) (use run d E b in simp_all)
  have S: "same_outside ?o ((unat i + 1) * unat (chunk_size_bytes m)) d d'" if "d' \<in> set ds" for d'
  proof -
    have "same_outside ?o (?o + length b) d d'" using T that by blast
    then show ?thesis by (rule same_outside_mono) (use E b(2) in simp)
  qed
  have "file_data f p = d" using d(1) by (simp add: file_data_def)
  with T S store_backed_overwrite [OF backed d(1) i(2) S] chunk_bytes_overwritten [OF valid n d(2) b] show ?thesis by auto
qed

text \<open>What a call of \<^verbatim>\<open>write_verified_chunk\<close> does to a download.\<close>

definition chunk_write_outcome ::
  "'c evp \<Rightarrow> manifest \<Rightarrow> path \<Rightarrow> u32 \<Rightarrow> bytes \<Rightarrow> resume_store \<Rightarrow> unit result \<Rightarrow> resume_store \<Rightarrow> fs list \<Rightarrow> bool" where
  "chunk_write_outcome evp m p i b s r s' states \<longleftrightarrow>
     store_backed evp m p (last states) s' \<and> (\<forall>g\<in>set states. crash_consistent evp m p s g) \<and> states \<noteq> [] \<and>
     done_chunks s \<subseteq> done_chunks s' \<and> done_chunks s' \<subseteq> insert i (done_chunks s) \<and>
     rs_path s' = rs_path s \<and> rs_swarm_id s' = rs_swarm_id s \<and> rs_chunk_count s' = rs_chunk_count s \<and>
     (r = Inr () \<longrightarrow> i \<in> done_chunks s' \<and> chunk_bytes m (file_data (last states) p) (unat i) = b \<and>
        claimed (last states) s' = done_chunks s') \<and>
     (\<forall>g\<in>set states. chunks_intact evp m p (done_chunks s) g)"

lemma write_outcome_same:
  "store_backed evp m p f s \<Longrightarrow> chunk_write_outcome evp m p i b s (Inl e) s [f]"
  by (auto simp: chunk_write_outcome_def dest: store_backed_crash store_backed_intact)

lemma crash_cong:
  "rs_path s' = rs_path s \<Longrightarrow> rs_swarm_id s' = rs_swarm_id s \<Longrightarrow> rs_chunk_count s' = rs_chunk_count s \<Longrightarrow>
     crash_consistent evp m p s' g \<Longrightarrow> crash_consistent evp m p s g"
  using claimed_cong [of s' s g] by (simp add: crash_consistent_def)

lemma mark_new_dirty:
  "i \<notin> done_chunks s \<Longrightarrow> resume_mark_complete i s = Inr s' \<Longrightarrow> rs_dirty s'"
  by (auto simp: resume_op_defs done_chunks_def result_simps split: if_splits)

lemma write_outcome_flush:
  assumes backed: "store_backed evp m p g s" and i: "i < rs_chunk_count s" "i \<notin> done_chunks s"
    and here: "chunk_bytes m (file_data g p) (unat i) = b" "sha256_hex evp b = Inr (chunk_hashes m ! unat i)"
    and pre: "\<forall>h\<in>set states. crash_consistent evp m p s h \<and> chunks_intact evp m p (done_chunks s) h"
    and mark: "resume_mark_complete i s = Inr s1" and flush: "resume_flush env s1 g = (r, s', fstates)"
  shows "chunk_write_outcome evp m p i b s r s' (states @ fstates)"
proof -
  have "file_has evp m (file_data g p) i" using here by (simp add: file_has_def)
  from store_backed_mark [OF backed i(1) this mark] have s1: "store_backed evp m p g s1"
    "done_chunks s1 = insert i (done_chunks s)" "rs_path s1 = rs_path s" "rs_swarm_id s1 = rs_swarm_id s"
    "rs_chunk_count s1 = rs_chunk_count s" by auto
  note F = flush_backed [OF s1(1) flush]
  have same: "rs_path s' = rs_path s1" "rs_swarm_id s' = rs_swarm_id s1" "rs_chunk_count s' = rs_chunk_count s1"
    using resume_flush_store [OF flush] by simp_all
  have "nodes (last fstates) p = nodes g p" using F by blast
  then have "file_data (last fstates) p = file_data g p" by (simp add: file_data_def)
  moreover have "claimed (last fstates) s1 = done_chunks s1" if "r = Inr ()"
    using F that mark_new_dirty [OF i(2) mark] by blast
  moreover have "\<forall>h\<in>set fstates. crash_consistent evp m p s h"
    using F crash_cong [OF s1(3-5)] by blast
  moreover have "\<forall>h\<in>set fstates. chunks_intact evp m p (done_chunks s) h"
    using flush_states [OF s1(1) flush] s1(2) by (auto intro: chunks_intact_mono)
  moreover have "claimed g s' = claimed g s1" for g using claimed_cong [OF same] by simp
  moreover have "set (states @ fstates) = set states \<union> set fstates" "fstates \<noteq> []" "last (states @ fstates) = last fstates"
    using F by auto
  moreover have "done_chunks s' = done_chunks s1" "store_backed evp m p (last fstates) s'" using F by blast+
  ultimately show ?thesis
    unfolding chunk_write_outcome_def using pre s1(2-5) same here(1) by auto
qed

text \<open>
  The runs of \<^verbatim>\<open>write_verified_chunk\<close>: refused before the file is opened; failed while writing,
  syncing or closing; or come to the flush of the resume file, with the bytes synced.
\<close>

abbreviation written :: "fs \<Rightarrow> path \<Rightarrow> bytes list \<Rightarrow> fs list" where
  "written f p ds \<equiv> f # map (write_node f p) ds"

lemma write_verified_chunk_cases:
  assumes "write_verified_chunk env p m i b s f = (r, s', states)"
  obtains (refused) e where "r = Inl e" "s' = s" "states = [f]"
  | (failed) ofs r1 ds e where "manifest_chunk_offset m i = Inr ofs"
      "pwrite_loop (cw_writes env) (file_data f p) (unat ofs) b = (r1, ds)" "r = Inl e" "s' = s" "states = written f p ds"
  | (unmarked) ofs ds e where "manifest_chunk_offset m i = Inr ofs"
      "pwrite_loop (cw_writes env) (file_data f p) (unat ofs) b = (Inr (), ds)" "r = Inl e" "s' = s"
      "states = written f p ds @ [sync_node (last (written f p ds)) p]"
  | (flushed) ofs ds s1 flush_states where "manifest_chunk_offset m i = Inr ofs"
      "pwrite_loop (cw_writes env) (file_data f p) (unat ofs) b = (Inr (), ds)" "resume_mark_complete i s = Inr s1"
      "resume_flush (cw_flush env) s1 (sync_node (last (written f p ds)) p) = (r, s', flush_states)"
      "states = (written f p ds @ [sync_node (last (written f p ds)) p]) @ flush_states"
proof -
  note defs = write_verified_chunk_def Let_def
  show thesis
  proof (cases "manifest_chunk_offset m i")
    case (Inl e)
    with assms have "r = Inl e" "s' = s" "states = [f]" by (simp_all add: defs)
    with refused show thesis by blast
  next
    case ofs: (Inr ofs)
    obtain r1 ds where loop: "pwrite_loop (cw_writes env) (file_data f p) (unat ofs) b = (r1, ds)" by fastforce
    show thesis
    proof (cases "(unat ofs > 2 ^ 63 - 1 \<or> length b > 2 ^ 63 - 1 - unat ofs) \<or> cw_open env \<noteq> None \<or> \<not> is_regular_file f p")
      case True
      then have "\<exists>e. r = Inl e \<and> s' = s \<and> states = [f]"
        using assms by (auto simp: defs ofs split: if_splits)
      with refused show thesis by blast
    next
      case False
      let ?sync = "rbind r1 (\<lambda>_. call ''Unable to durably flush verified chunk'' (cw_fsync env))"
      let ?g = "sync_node (last (written f p ds)) p"
      let ?mark = "rbind (call ''Unable to close partial file after a verified chunk write'' (cw_close env))
        (\<lambda>_. resume_mark_complete i s)"
      have run: "(case ?sync of Inl e \<Rightarrow> (Inl e, s, written f p ds) | Inr _ \<Rightarrow>
          (case ?mark of Inl e \<Rightarrow> (Inl e, s, written f p ds @ [?g])
           | Inr s1 \<Rightarrow> (case resume_flush (cw_flush env) s1 ?g of
               (r, s', fstates) \<Rightarrow> (r, s', (written f p ds @ [?g]) @ fstates)))) = (r, s', states)"
        using assms False unfolding defs ofs sum.case loop prod.case by simp
      show thesis
      proof (cases ?sync)
        case (Inl e)
        with run have "r = Inl e" "s' = s" "states = written f p ds" by simp_all
        with failed [OF ofs loop] show thesis by blast
      next
        case (Inr u)
        then have ok: "r1 = Inr ()" by (auto simp: result_simps)
        show thesis
        proof (cases ?mark)
          case Inl': (Inl e)
          with run Inr have "r = Inl e" "s' = s" "states = written f p ds @ [?g]" by simp_all
          with unmarked [OF ofs] loop ok show thesis by blast
        next
          case Inr': (Inr s1)
          then have mark: "resume_mark_complete i s = Inr s1" by (auto simp: result_simps)
          obtain fstates where "resume_flush (cw_flush env) s1 ?g = (r, s', fstates)"
            "states = (written f p ds @ [?g]) @ fstates"
            using run Inr Inr' by (auto split: prod.splits)
          with flushed [OF ofs _ mark] loop ok show thesis by blast
        qed
      qed
    qed
  qed
qed

lemma store_backed_sync: "store_backed evp m p (sync_node f q) s = store_backed evp m p f s"
  using claimed_local [of "sync_node f q" s f] by (simp add: store_backed_def partial_ok_def file_data_def)

lemma file_data_sync [simp]: "file_data (sync_node f q) p = file_data f p"
  by (simp add: file_data_def)

lemma write_verified_chunk_outcome:
  assumes valid: "manifest_validate m = Inr ()" and backed: "store_backed evp m p f s"
    and i: "i < rs_chunk_count s" "i \<notin> done_chunks s" and b: "chunk_verified evp m i b"
    and run: "write_verified_chunk env p m i b s f = (r, s', states)"
  shows "chunk_write_outcome evp m p i b s r s' states"
proof -
  let ?o = "unat i * unat (chunk_size_bytes m)"
  have "store_for m s" using backed by (simp add: store_backed_def)
  then have n: "unat i < length (chunk_hashes m)" using store_for_bound [OF valid] i(1) by blast
  have ofs: "unat ofs = ?o" if "manifest_chunk_offset m i = Inr ofs" for ofs
    using manifest_chunk_offset_unat [OF valid n] that by force
  obtain sz where sz: "manifest_chunk_size m i = Inr sz" "length b = unat sz"
    using b by (auto simp: chunk_verified_def)
  have P: "store_backed evp m p (last (written f p ds)) s \<and>
      (\<forall>g\<in>set (written f p ds). crash_consistent evp m p s g \<and> chunks_intact evp m p (done_chunks s) g) \<and>
      (r1 = Inr () \<longrightarrow> chunk_bytes m (file_data (last (written f p ds)) p) (unat i) = b)"
    if "manifest_chunk_offset m i = Inr ofs" "pwrite_loop (cw_writes env) (file_data f p) (unat ofs) b = (r1, ds)" for ofs r1 ds
    using pwrite_backed [OF valid backed i sz] that ofs backed
    by (auto simp: last_map node_simps intro: store_backed_crash store_backed_intact)
  show ?thesis
    using run
  proof (cases rule: write_verified_chunk_cases)
    case (refused e)
    then show ?thesis using write_outcome_same [OF backed] by simp
  next
    case (failed ofs r1 ds e)
    then show ?thesis using P [OF failed(1,2)] by (simp add: chunk_write_outcome_def del: last.simps) blast
  next
    case (unmarked ofs ds e)
    let ?g = "sync_node (last (written f p ds)) p"
    have g: "store_backed evp m p ?g s"
      using P [OF unmarked(1,2)] by (simp add: store_backed_sync del: last.simps)
    have "\<forall>h\<in>set (written f p ds @ [?g]). crash_consistent evp m p s h \<and> chunks_intact evp m p (done_chunks s) h"
      using P [OF unmarked(1,2)] store_backed_crash [OF g] store_backed_intact [OF g] by (simp del: last.simps)
    with g show ?thesis unfolding unmarked(3-5) chunk_write_outcome_def last_snoc by blast
  next
    case (flushed ofs ds s1 fstates)
    note Q = P [OF flushed(1,2)]
    let ?g = "sync_node (last (written f p ds)) p"
    have g: "store_backed evp m p ?g s" using Q by (simp add: store_backed_sync del: last.simps)
    have here: "chunk_bytes m (file_data ?g p) (unat i) = b" using Q by (simp del: last.simps)
    have hash: "sha256_hex evp b = Inr (chunk_hashes m ! unat i)" using b by (simp add: chunk_verified_def)
    have "\<forall>h\<in>set (written f p ds @ [?g]). crash_consistent evp m p s h \<and> chunks_intact evp m p (done_chunks s) h"
      using Q store_backed_crash [OF g] store_backed_intact [OF g] by (simp del: last.simps)
    from write_outcome_flush [OF g i here hash this flushed(3,4)] show ?thesis unfolding flushed(5) .
  qed
qed

text \<open>A chunk none of whose bytes would be lost when the power fails.\<close>

definition chunk_synced :: "manifest \<Rightarrow> path \<Rightarrow> fs \<Rightarrow> u32 \<Rightarrow> bool" where
  "chunk_synced m p f i \<longleftrightarrow> (\<forall>k\<in>unsynced f p. k div unat (chunk_size_bytes m) \<noteq> unat i)"

lemma changed_outside:
  assumes "same_outside lo hi d d'" and "k \<in> changed_bytes d d'"
  shows "lo \<le> k \<and> k < hi"
proof -
  have len: "length d' = length d" and eq: "take lo d' = take lo d" "drop hi d' = drop hi d"
    using assms(1) by (simp_all add: same_outside_def)
  have k: "k < length d" "d ! k \<noteq> d' ! k" using assms(2) len by (auto simp: changed_bytes_def)
  have "lo \<le> k" using k(2) eq(1) by (metis not_le nth_take)
  moreover have "k < hi"
  proof (rule ccontr)
    assume "\<not> k < hi"
    then have "drop hi d ! (k - hi) = d ! k" "drop hi d' ! (k - hi) = d' ! k" using k(1) len by simp_all
    with eq(2) k(2) show False by simp
  qed
  ultimately show ?thesis by blast
qed

lemma written_chunk_synced:
  assumes "same_outside (unat i * unat (chunk_size_bytes m)) ((unat i + 1) * unat (chunk_size_bytes m)) (file_data f p) d"
    and "chunk_synced m p f j" and "j \<noteq> i"
  shows "chunk_synced m p (write_node f p d) j"
proof -
  let ?c = "unat (chunk_size_bytes m)"
  have "k div ?c = unat i" if "k \<in> changed_bytes (file_data f p) d" for k
  proof (rule div_nat_eqI)
    show "?c * unat i \<le> k" "k < ?c * Suc (unat i)"
      using changed_outside [OF assms(1) that] by (simp_all add: mult.commute)
  qed
  moreover have "unat j \<noteq> unat i" using assms(3) by (auto dest: injD [OF inj_unat])
  ultimately show ?thesis using assms(2) by (auto simp: chunk_synced_def unsynced_simps)
qed

lemma resume_flush_unsynced:
  assumes "resume_flush env s f = (r, s', states)" and "paths_apart p s" and "g \<in> set states"
  shows "unsynced g p = unsynced f p"
proof (cases "rs_dirty s")
  case True
  then have w: "write_atomic env f (rs_path s) (resume_serialize s) = (r, states)"
    using assms(1) by (auto simp: resume_flush_def flush_begin_def split: prod.splits sum.splits)
  show ?thesis by (rule write_atomic_synced(3) [OF _ w]) (use assms(2,3) in \<open>auto simp: paths_apart_def\<close>)
next
  case False
  with assms(1,3) show ?thesis by (auto simp: resume_flush_def flush_begin_def)
qed

text \<open>The bytes of a chunk are on the device before the resume file claims it.\<close>

lemma write_chunk_synced:
  assumes valid: "manifest_validate m = Inr ()" and backed: "store_backed evp m p f s"
    and i: "i < rs_chunk_count s" "i \<notin> done_chunks s" and b: "chunk_verified evp m i b"
    and run: "write_verified_chunk env p m i b s f = (r, s', states)"
    and synced: "\<forall>j\<in>done_chunks s. chunk_synced m p f j"
  shows "(\<forall>g\<in>set states. \<forall>j\<in>claimed g s. chunk_synced m p g j) \<and>
    (\<forall>j\<in>done_chunks s'. chunk_synced m p (last states) j)"
proof -
  let ?o = "unat i * unat (chunk_size_bytes m)"
  have store: "store_for m s" "paths_apart p s" using backed by (simp_all add: store_backed_def)
  have n: "unat i < length (chunk_hashes m)" using store_for_bound [OF valid store(1)] i(1) by blast
  obtain sz where sz: "manifest_chunk_size m i = Inr sz" "length b = unat sz"
    using b by (auto simp: chunk_verified_def)
  have W: "claimed g s \<subseteq> done_chunks s \<and> (\<forall>j\<in>done_chunks s. chunk_synced m p g j)"
    if "manifest_chunk_offset m i = Inr ofs" "pwrite_loop (cw_writes env) (file_data f p) (unat ofs) b = (r1, ds)"
      "g \<in> set (written f p ds)" for ofs r1 ds g
  proof -
    have "unat ofs = ?o" using manifest_chunk_offset_unat [OF valid n] that(1) by force
    then have P: "\<forall>d\<in>set ds. same_outside ?o ((unat i + 1) * unat (chunk_size_bytes m)) (file_data f p) d"
      "\<forall>g\<in>set (map (write_node f p) ds). store_backed evp m p g s"
      using pwrite_backed [OF valid backed i sz] that(2) by auto
    have "store_backed evp m p g s" using that(3) backed P(2) by auto
    then have "claimed g s \<subseteq> done_chunks s" by (simp add: store_backed_def)
    moreover have "chunk_synced m p g j" if "j \<in> done_chunks s" for j
    proof -
      have j: "chunk_synced m p f j" "j \<noteq> i" using synced that i(2) by auto
      from \<open>g \<in> set (written f p ds)\<close> consider "g = f" | d where "d \<in> set ds" "g = write_node f p d" by auto
      then show ?thesis using j written_chunk_synced [OF _ j] P(1) by cases auto
    qed
    ultimately show ?thesis by blast
  qed
  have all: "unsynced g p = {} \<Longrightarrow> chunk_synced m p g j" for g j by (simp add: chunk_synced_def)
  have sync: "unsynced (sync_node g p) p = {}" for g by (simp add: unsynced_simps)
  show ?thesis
    using run
  proof (cases rule: write_verified_chunk_cases)
    case (refused e)
    then show ?thesis using synced backed by (auto simp: store_backed_def)
  next
    case (failed ofs r1 ds e)
    have "last states \<in> set (written f p ds)" unfolding failed(5) by (rule last_in_set) simp
    with W [OF failed(1,2)] show ?thesis unfolding failed(4,5) by blast
  next
    case (unmarked ofs ds e)
    show ?thesis unfolding unmarked(4,5) last_snoc using W [OF unmarked(1,2)] all [OF sync] by auto
  next
    case (flushed ofs ds s1 fstates)
    have s1: "paths_apart p s1"
      using mark_cases [OF disjI1 [OF flushed(3)]] store(2) by (auto simp: paths_apart_def)
    note F = all [OF resume_flush_unsynced [OF flushed(4) s1, unfolded sync]]
    have "fstates \<noteq> []" using flushed(4) by (rule flush_trace_nonempty)
    then have "last states \<in> set fstates" unfolding flushed(5) by simp
    then show ?thesis using W [OF flushed(1,2)] all [OF sync] F unfolding flushed(5) by auto
  qed
qed

text \<open>
  C7. Writing a chunk is crash safe and leaves the others alone (\<^verbatim>\<open>write_verified_chunk\<close>): whatever
  the system calls answer, in every state of the file system that the call passes through, the
  partial file is whole, the resume file can be read, and each chunk that it claims is in the partial file, intact, so that a
  crash at any moment loses no chunk and claims none that is missing. On success the chunk's bytes
  are in the file, and the store and the resume file both have it and all earlier ones; on
  failure the store has no chunk besides the earlier ones and possibly this one. The same holds
  when the power fails: if the bytes of the earlier chunks were synced, then in every state those
  of each chunk that the resume file claims are, and at the end those of each chunk of the store.
\<close>

theorem chunk_write_crash_safe:
  assumes "manifest_validate m = Inr ()" and "store_backed evp m p f s"
    and "i < rs_chunk_count s" and "i \<notin> done_chunks s"
    and "sha256_hex evp b = Inr (chunk_hashes m ! unat i)" and "manifest_chunk_size m i = Inr (of_nat (length b))"
    and "length b < 2 ^ 32"
    and "write_verified_chunk env p m i b s f = (r, s', states)"
  shows "(\<forall>g\<in>set states. partial_ok m p g \<and> loadable g s \<and> (\<forall>j\<in>claimed g s. file_has evp m (file_data g p) j)) \<and>
    store_backed evp m p (last states) s' \<and>
    (r = Inr () \<longrightarrow> done_chunks s' = insert i (done_chunks s) \<and> claimed (last states) s' = done_chunks s' \<and>
       chunk_bytes m (file_data (last states) p) (unat i) = b) \<and>
    (r \<noteq> Inr () \<longrightarrow> done_chunks s \<subseteq> done_chunks s' \<and> done_chunks s' \<subseteq> insert i (done_chunks s)) \<and>
    ((\<forall>j\<in>done_chunks s. chunk_synced m p f j) \<longrightarrow>
       (\<forall>g\<in>set states. \<forall>j\<in>claimed g s. chunk_synced m p g j) \<and> (\<forall>j\<in>done_chunks s'. chunk_synced m p (last states) j))"
proof -
  have b: "chunk_verified evp m i b"
    using assms(5-7) by (simp add: chunk_verified_def unat_of_nat take_bit_nat_eq_self)
  note O = write_verified_chunk_outcome [OF assms(1-4) b assms(8), unfolded chunk_write_outcome_def crash_consistent_def]
  show ?thesis using O write_chunk_synced [OF assms(1-4) b assms(8)] by auto
qed

section \<open>A concrete download\<close>

text \<open>
  A downloader, a tracker that lists a peer that does not answer and an honest one, and a network in which
  every message arrives in pieces.
\<close>

definition sample_dead :: discovered_peer where
  "sample_dead = \<lparr>dp_peer_id = ''s'', dp_endpoint = \<lparr>host = ''10.0.0.7'', port = 9\<rparr>, dp_chunks = [], dp_has_all_chunks = True\<rparr>"

definition sample_offer :: discovered_peer where
  "sample_offer = pr_peer (sample_record 5)"

definition sample_net :: network where
  "sample_net e =
     (if e = sample_endpoint then Inr [sample_link (reply_text [sample_dead, sample_offer])]
      else if e = dp_endpoint sample_offer then Inr [sample_link (data_reply ''abc'' (hex_encode (sample_digest ''abc'')))]
      else Inl ''unreachable'')"

definition sample_download :: download_config where
  "sample_download = \<lparr>dc_manifest = sample_seed, dc_output_directory = ''d'', dc_tracker_endpoint = sample_endpoint,
     dc_token = ''tok'', dc_listen_port = 0, dc_peer_id = ''me'', dc_worker_count = 1, dc_max_retries = 2,
     dc_network_timeout = 3000, dc_heartbeat_interval = 1000, dc_bind_address = ''127.0.0.1'', dc_peer_max_connections = 32\<rparr>"

lemma sample_config: "validate_config sample_download = Inr ()"
  using sample_seed_valid
  by (simp add: validate_config_def sample_download_def sample_endpoint_def)

lemma sample_peers_deliverable:
  "\<forall>peer\<in>set [sample_dead, sample_offer]. good_peer peer \<and> deliverable peer"
proof -
  have "t = ''all''" if "encode_chunk_list [] True = Inr t" for t using that by (simp add: encode_chunk_list_def)
  then have "deliverable sample_dead"
    by (auto simp: deliverable_def sample_dead_def peer_line_def kMaxHeaderBytes_def dec.simps)
  moreover have "good_peer sample_dead" "good_peer sample_offer"
    by (simp_all add: good_peer_def sample_dead_def sample_offer_def sample_record_def)
  ultimately show ?thesis using sample_deliverable by (simp add: sample_offer_def)
qed

lemma link_peers:
  assumes "safe_atom swarm" and peers: "\<forall>peer\<in>set ps. good_peer peer \<and> deliverable peer"
    and net: "net sample_endpoint = Inr [sample_link (reply_text ps)]"
  shows "\<exists>c t'. client_peers sample_client swarm net t = (Inr ps, c, t')"
proof -
  define h where "h = ''PEERS '' @ ''tok'' @ '' '' @ swarm"
  have parse: "\<exists>r. parse_tracker_request h = Inr r" using parse_peers [of "''tok''" swarm] assms(1) by (simp add: h_def)
  define b where "b = reply_text ps"
  have conn: "connect_tcp net sample_endpoint 3000 t = (Inr (link_conn b), open_fd 5 t)"
    using sample_connect [where e = sample_endpoint and net = net and b = b] net
    by (simp add: b_def) (simp add: sample_endpoint_def)
  obtain es where w: "write_all (h @ [nl]) (link_conn b) =
      (Inr (), (link_conn b)\<lparr>sending := es, sent := sent (link_conn b) @ h @ [nl]\<rparr>)"
    using write_all_ok [of "link_conn b" "h @ [nl]"] link_conn_facts(3) by blast
  let ?c = "(link_conn b)\<lparr>sending := es, sent := sent (link_conn b) @ h @ [nl]\<rparr>"
  have "\<exists>es'. peers_loop ?c [] = (Inr ([] @ ps), ?c\<lparr>incoming := es'\<rparr>) \<and> pending es' = []"
    by (rule peers_loop_reply [OF peers]) (simp_all add: link_conn_facts b_def)
  then obtain c' where loop: "peers_loop ?c [] = (Inr ps, c')" by auto
  show ?thesis using parse
    by (auto simp: client_peers_def sample_client_def with_connection_def conn io_bind_def w loop Let_def
        h_def [symmetric, simplified])
qed

lemma sample_peers:
  "safe_atom swarm \<Longrightarrow> \<exists>c t'. client_peers sample_client swarm sample_net t = (Inr [sample_dead, sample_offer], c, t')"
  by (rule link_peers [OF _ sample_peers_deliverable]) (simp_all add: sample_net_def)

lemma sample_chunk_0:
  "manifest_chunk_size sample_seed 0 = Inr 3" "chunk_hashes sample_seed ! 0 = hex_encode (sample_digest ''abc'')"
  using sample_seed_valid by (simp_all add: manifest_chunk_size_def) (simp_all add: sample_seed_def Let_def)

lemma link_fetch:
  assumes e: "host (dp_endpoint peer) \<noteq> []" "port (dp_endpoint peer) \<noteq> 0"
    and net: "net (dp_endpoint peer) = Inr [sample_link (data_reply b (chunk_hashes sample_seed ! unat i))]"
    and b: "manifest_chunk_size sample_seed i = Inr sz" "length b = unat sz" "unat sz \<le> 4194304"
      "sha256_hex sample_evp b = Inr (chunk_hashes sample_seed ! unat i)"
  shows "\<exists>t'. fetch_chunk sample_evp peer sample_seed ''tok'' i 3000 net t = (Inr b, t')"
proof -
  obtain swarm where swarm: "manifest_swarm_id sample_evp sample_seed = Inr swarm" using sample_swarm by blast
  define reply where "reply = data_reply b (chunk_hashes sample_seed ! unat i)"
  have conn: "connect_tcp net (dp_endpoint peer) 3000 t = (Inr (link_conn reply), open_fd 5 t)"
    by (rule sample_connect [OF e]) (simp add: net reply_def)
  have "pending (incoming (link_conn reply)) = data_reply b (chunk_hashes sample_seed ! unat i) @ []"
    by (simp add: link_conn_facts reply_def)
  from fetch_body_reply [OF swarm link_conn_facts(3,2) this b] obtain c' where
    "fetch_body sample_evp sample_seed ''tok'' i (link_conn reply) = (Inr b, c')" by blast
  with conn show ?thesis by (simp add: fetch_chunk_def with_connection_def)
qed

lemma sample_fetch: "\<exists>t'. fetch_chunk sample_evp sample_offer sample_seed ''tok'' 0 3000 sample_net t = (Inr ''abc'', t')"
proof -
  have "dp_endpoint sample_offer \<noteq> sample_endpoint" "host (dp_endpoint sample_offer) \<noteq> []" "port (dp_endpoint sample_offer) \<noteq> 0"
    by (simp_all add: sample_offer_def sample_record_def sample_endpoint_def)
  then show ?thesis by (intro link_fetch [where sz = 3]) (simp_all add: sample_net_def sample_chunk_0 sample_sha)
qed

lemma sample_download_facts:
  "dc_manifest sample_download = sample_seed" "dc_token sample_download = ''tok''" "dc_network_timeout sample_download = 3000"
  "dc_peer_id sample_download = ''me''" "dc_worker_count sample_download = 1" "dc_max_retries sample_download = 2"
  "dc_output_directory sample_download = ''d''"
  by (simp_all add: sample_download_def)

lemma sample_offer_facts:
  "dp_peer_id sample_offer \<noteq> ''me''" "sorted_wrt (<) (dp_chunks sample_offer)" "(0 :: u32) \<in> set (dp_chunks sample_offer)"
  by (simp_all add: sample_offer_def sample_record_def)

lemma sample_serves:
  "\<exists>b t'. fetch_chunk sample_evp sample_offer (dc_manifest sample_download) (dc_token sample_download) 0
     (dc_network_timeout sample_download) sample_net t = (Inr b, t')"
  unfolding sample_download_facts using sample_fetch by blast

lemma sample_discovery:
  "safe_atom swarm \<Longrightarrow> \<exists>peers c t'. client_peers sample_client swarm sample_net t = (Inr peers, c, t') \<and> sample_offer \<in> set peers"
  using sample_peers [of swarm t] by (metis list.set_intros)

theorem fetch_failover_witness:
  "\<exists>b k' t'. fetch_with_retry sample_evp sample_client sample_download ''s'' 0 (\<lambda>_. sample_net) 0 0 sample_fds =
     (Inr b, 0, k', t') \<and> sha256_hex sample_evp b = Inr (hex_encode (sample_digest ''abc''))"
  using fetch_failover [OF sample_config, where nets = "\<lambda>_. sample_net" and peer = sample_offer and index = 0 and retries = 0 and k = 0 and t = sample_fds,
      OF sample_discovery _ _ _ sample_serves, of "''s''"]
  by (simp add: sample_download_facts sample_offer_facts sample_atoms sample_chunk_0)

lemma sample_found:
  "\<exists>b k' t'. fetch_with_retry sample_evp sample_client sample_download ''s'' 0 (\<lambda>_. sample_net) 0 0 sample_fds = (Inr b, 0, k', t')"
  using fetch_found [OF sample_config, where nets = "\<lambda>_. sample_net" and peer = sample_offer and index = 0 and retries = 0 and k = 0 and t = sample_fds,
      OF sample_discovery _ _ _ sample_serves, of "''s''"]
  by (auto simp: sample_download_facts sample_offer_facts sample_atoms)

theorem fetch_only_verified_witness:
  "\<exists>b retries k' t'. fetch_with_retry sample_evp sample_client sample_download ''s'' 0 (\<lambda>_. sample_net) 0 0 sample_fds =
     (Inr b, retries, k', t') \<and> sha256_hex sample_evp b = Inr (hex_encode (sample_digest ''abc'')) \<and> length b = 3"
proof -
  obtain b k' t' where run: "fetch_with_retry sample_evp sample_client sample_download ''s'' 0 (\<lambda>_. sample_net) 0 0 sample_fds =
     (Inr b, 0, k', t')" using sample_found by blast
  from fetch_only_verified [OF run] run show ?thesis by (auto simp: sample_download_facts sample_chunk_0)
qed

theorem fetch_retries_bounded_witness:
  "\<exists>r retries k' t'. fetch_with_retry sample_evp sample_client sample_download ''s'' 0 (\<lambda>_. sample_net) 0 0 sample_fds =
     (r, retries, k', t') \<and> retries \<le> 1"
proof -
  obtain b k' t' where run: "fetch_with_retry sample_evp sample_client sample_download ''s'' 0 (\<lambda>_. sample_net) 0 0 sample_fds =
     (Inr b, 0, k', t')" using sample_found by blast
  from fetch_retries_bounded [OF run] run show ?thesis by (simp add: sample_download_facts)
qed

theorem fetch_chunk_end_to_end_witness:
  "\<exists>swarm. fst (fetch_chunk sample_evp sample_offer sample_seed ''tok'' 2 3000
     (\<lambda>_. Inr [sample_link (sent (serve_connection sample_evp sample_peer (no_faults ''a.bin'' ''abcdefgh'')
        (sample_request_conn (get_line ''tok'' swarm 2))))]) sample_fds) = Inr ''gh''"
proof -
  obtain swarm where swarm: "manifest_swarm_id sample_evp sample_seed = Inr swarm" using sample_swarm by blast
  define sc where "sc = sample_request_conn (get_line ''tok'' swarm 2)"
  define f where "f = no_faults ''a.bin'' ''abcdefgh''"
  define b where "b = sent (serve_connection sample_evp sample_peer f sc)"
  define net :: network where "net = (\<lambda>_. Inr [sample_link b])"
  have cfg: "ps_manifest sample_peer = sample_seed" "ps_file_path sample_peer = ''a.bin''"
    "ps_token sample_peer = ''tok''" "has_chunk sample_peer 2 = Inr True"
    by (simp_all add: sample_peer_def has_chunk_def)
  have f: "nodes f ''a.bin'' = Some (Regular ''abcdefgh'')" "\<not> unreadable f ''a.bin''" "fault_at f ''a.bin'' = None"
    by (simp_all add: f_def no_faults_def)
  have two: "unat (2 :: u32) = 2" by simp
  have m: "length ''abcdefgh'' = unat (file_size_bytes sample_seed)" "2 < length (chunk_hashes sample_seed)"
    "chunk_hashes sample_seed ! 2 = hex_encode (sample_digest ''gh'')"
    "chunk_bytes sample_seed ''abcdefgh'' 2 = ''gh''"
    by (simp_all add: chunk_bytes_def sample_seed_def)
  have sc: "pending (incoming sc) = ''GET '' @ ''tok'' @ '' '' @ swarm @ '' '' @ dec (unat (2 :: u32)) @ [nl]"
    "0 \<le> native_handle sc" "Send_failed e \<notin> set (sending sc)" "sent sc = []" for e
    by (simp_all add: sc_def sample_request_conn_facts get_line_def)
  have conn: "connect_tcp net (dp_endpoint sample_offer) 3000 sample_fds = (Inr (link_conn b), open_fd 5 sample_fds)"
    by (rule sample_connect) (simp_all add: net_def sample_offer_def sample_record_def)
  obtain r c' where run: "fetch_body sample_evp sample_seed ''tok'' 2 (link_conn b) = (r, c')" by fastforce
  have "sent c' = ''GET '' @ ''tok'' @ '' '' @ swarm @ '' '' @ dec (unat (2 :: u32)) @ [nl]"
    using fetch_body_sends [OF swarm, where c = "link_conn b" and token = "''tok''" and i = 2] link_conn_facts(3) unfolding run link_conn_facts(4) by simp
  then have "exchange (link_conn b) c' sc (serve_connection sample_evp sample_peer f sc)"
    unfolding exchange_def sc(1) link_conn_facts by (simp add: sc(4) b_def)
  from fetch_chunk_end_to_end [OF sample_peer_new cfg(1,3), unfolded cfg, OF f m(1) _ cfg(4) _ swarm _ conn link_conn_facts(2,3) sc(2,3) run this]
  have "fetch_chunk sample_evp sample_offer sample_seed ''tok'' 2 3000 net sample_fds =
      (Inr ''gh'', socket_destroy (native_handle (link_conn b)) (open_fd 5 sample_fds))"
    unfolding two m(3,4) by (simp only: m(2) sample_sha sample_atoms simp_thms)
  then show ?thesis unfolding net_def b_def sc_def f_def by (intro exI [of _ swarm]) (simp only: fst_conv)
qed

lemma seed_chunks:
  "length (chunk_hashes sample_seed) = 3" "chunk_size_bytes sample_seed = 3" "file_size_bytes sample_seed = 8"
  "chunk_hashes sample_seed ! 2 = hex_encode (sample_digest ''gh'')"
  by (simp_all add: sample_seed_def)

lemma sample_digest_damaged: "hex_encode (sample_digest ''gX'') \<noteq> hex_encode (sample_digest ''gh'')"
  unfolding hex_encode_inject by (simp add: sample_digest_def)

theorem revalidate_exact_witness:
  "\<exists>r resume' states. revalidate_completed_chunks sample_evp sample_atomic_env ''p'' sample_seed sample_store
     (no_faults ''p'' ''abcdefgX'') = (r, resume', states) \<and> (0 :: u32) \<in> done_chunks resume' \<and> (2 :: u32) \<notin> done_chunks resume'"
proof -
  define f where "f = no_faults ''p'' ''abcdefgX''"
  obtain r resume' states where run: "revalidate_completed_chunks sample_evp sample_atomic_env ''p'' sample_seed sample_store f =
    (r, resume', states)" by (metis prod_cases3)
  have f: "nodes f ''p'' = Some (Regular ''abcdefgX'')" "\<not> unreadable f ''p''" "fault_at f ''p'' = None"
    by (simp_all add: f_def no_faults_def)
  have len: "length ''abcdefgX'' = unat (file_size_bytes sample_seed)" by (simp add: seed_chunks)
  have store: "store_for sample_seed sample_store"
    using sample_store_wf by (simp add: store_for_def seed_chunks) (simp add: sample_store_def)
  have "chunk_bytes sample_seed ''abcdefgX'' 0 = ''abc''" "chunk_bytes sample_seed ''abcdefgX'' 2 = ''gX''"
    by (simp_all add: chunk_bytes_def seed_chunks)
  moreover have "(0 :: u32) \<in> done_chunks sample_store" by (simp add: done_chunks_def sample_store_def)
  ultimately have "(0 :: u32) \<in> done_chunks resume'" "(2 :: u32) \<notin> done_chunks resume'"
    using revalidate_exact [OF sample_seed_valid store sample_evp_computes f len run] sample_digest_damaged
    by (auto simp: sample_chunk_0 seed_chunks)
  with run show ?thesis unfolding f_def by blast
qed

definition sample_chunk_env :: chunk_write_env where
  "sample_chunk_env = \<lparr>cw_open = None, cw_writes = [Wrote 1, Write_interrupted, Wrote 1], cw_fsync = None, cw_close = None,
     cw_flush = sample_atomic_env\<rparr>"

definition sample_partial :: fs where
  "sample_partial = no_faults ''p'' (replicate 8 (CHR 0x00))"

lemma new_store_empty: "done_chunks new_store = {}"
  by (auto simp: done_chunks_def new_store_def word_less_nat_alt nth_Cons')

lemma new_store_backed: "store_backed sample_evp sample_seed ''p'' sample_partial new_store"
proof -
  have "resume_load_or_create sample_partial ''r'' ''ab'' 3 = Inr new_store"
    using new_store_loaded load_or_create_local [of sample_partial "''r''" empty_fs "''ab''" 3]
    by (simp add: sample_partial_def no_faults_def empty_fs_def)
  with new_store_empty show ?thesis
    by (simp add: store_backed_def store_for_def loadable_def claimed_def partial_ok_def paths_apart_def seed_chunks)
      (simp add: sample_partial_def no_faults_def new_store_def wf_store_def path_filename_def text_id_def)
qed

lemma sample_flush_ok:
  assumes "rs_path s = ''r''" and "nodes g ''r'' \<noteq> Some Directory" and "nodes g ''r.tmp'' \<noteq> Some Directory"
  shows "fst (resume_flush sample_atomic_env s g) = Inr ()"
proof -
  have "path_filename (rs_path s) \<noteq> []" "resume_site g (rs_path s)"
    using assms by (simp_all add: path_filename_def path_parent_def dir_prefixes_def resume_site_def)
  from resume_flush_works [OF this sample_atomic_works] show ?thesis by auto
qed

lemma sample_write_done:
  "fst (write_verified_chunk sample_chunk_env ''p'' sample_seed 0 ''abc'' new_store sample_partial) = Inr ()"
proof -
  obtain s1 where s1: "resume_mark_complete 0 new_store = Inr s1" "rs_path s1 = ''r''"
    by (simp add: resume_op_defs new_store_def)
  have flush: "fst (resume_flush sample_atomic_env s1 (sync_node (write_node sample_partial ''p'' d) ''p'')) = Inr ()" for d
    by (rule sample_flush_ok) (simp_all add: s1 sample_partial_def no_faults_def node_simps)
  have "is_regular_file sample_partial ''p''" by (simp add: is_regular_file_def sample_partial_def no_faults_def)
  with sample_seed_valid flush s1(1) show ?thesis
    by (simp add: write_verified_chunk_def manifest_chunk_offset_def seed_chunks sample_chunk_env_def call_def Let_def case_prod_unfold)
qed

theorem chunk_write_crash_safe_witness:
  "\<exists>s' states. write_verified_chunk sample_chunk_env ''p'' sample_seed 0 ''abc'' new_store sample_partial = (Inr (), s', states) \<and>
     claimed (last states) s' = {0} \<and> chunk_synced sample_seed ''p'' (last states) 0 \<and> chunk_bytes sample_seed (file_data (last states) ''p'') 0 = ''abc''"
proof -
  obtain s' states where run:
    "write_verified_chunk sample_chunk_env ''p'' sample_seed 0 ''abc'' new_store sample_partial = (Inr (), s', states)"
    using sample_write_done by (metis prod.collapse)
  have new: "done_chunks new_store = {}" "0 < rs_chunk_count new_store" using new_store_empty by (simp_all add: new_store_def)
  from chunk_write_crash_safe [OF sample_seed_valid new_store_backed _ _ _ _ _ run] new sample_chunk_0 run show ?thesis
    by (simp add: sample_sha)
qed

end
