(* ===== verification/Server_Start.thy ===== *)
theory Server_Start
  imports Peer_Server
begin

text \<open>
  Starting and stopping the two servers (\<^verbatim>\<open>start\<close>, \<^verbatim>\<open>stop\<close> and \<^verbatim>\<open>endpoint\<close> of \<^verbatim>\<open>src/tracker.cpp\<close> and
  \<^verbatim>\<open>src/peer_server.cpp\<close>), as far as the flag, the listening socket and the endpoint are concerned;
  their threads are the steps of \<open>Connection_Pool\<close>. Both servers have the same code but for a
  name in the messages.
\<close>

section \<open>Definitions\<close>

record server_listener =
  sl_running :: bool
  sl_listener :: socket
  sl_endpoint :: endpoint

definition listener_down :: server_listener where
  "listener_down = \<lparr>sl_running = False, sl_listener = no_socket, sl_endpoint = \<lparr>host = [], port = 0\<rparr>\<rparr>"

text \<open>\<^verbatim>\<open>stop\<close>: what it does besides ending the threads.\<close>

definition server_stop :: "server_listener \<Rightarrow> fd_table \<Rightarrow> server_listener \<times> fd_table" where
  "server_stop s t =
     (if \<not> sl_running s then (s, t)
      else let (listener, t) = socket_close (sl_listener s) t
           in (s\<lparr>sl_running := False, sl_listener := listener\<rparr>, t))"

text \<open>
  \<^verbatim>\<open>start\<close>, up to the creation of the threads; \<open>lookup\<close> and \<open>sockname\<close> are the answers of
  \<^verbatim>\<open>getaddrinfo\<close> and \<^verbatim>\<open>getsockname\<close>. An exception behind the exchange leads to \<^verbatim>\<open>stop\<close>.
\<close>

definition server_start ::
  "string \<Rightarrow> string + listen_attempt list \<Rightarrow> string + sock_name \<Rightarrow> u16 \<Rightarrow> string \<Rightarrow> server_listener \<Rightarrow> fd_table \<Rightarrow>
     unit result \<times> server_listener \<times> fd_table" where
  "server_start name lookup sockname p address s t =
     (if sl_running s then (throw (name @ '' is already running''), s, t)
      else
        let s = s\<lparr>sl_running := True\<rparr>
        in case listen_tcp lookup p address 64 t of
             (Inl e, t) \<Rightarrow> (Inl e, server_stop s t)
           | (Inr fd, t) \<Rightarrow>
               let (listener, _, t) = socket_assign False (sl_listener s) fd t;
                   s = s\<lparr>sl_listener := listener\<rparr>
               in case bound_port sockname of
                    Inl e \<Rightarrow> (Inl e, server_stop s t)
                  | Inr bound \<Rightarrow> (Inr (), s\<lparr>sl_endpoint := \<lparr>host = address, port = bound\<rparr>\<rparr>, t))"

definition server_endpoint :: "string \<Rightarrow> server_listener \<Rightarrow> endpoint result" where
  "server_endpoint name s =
     (if host (sl_endpoint s) = [] \<or> port (sl_endpoint s) = 0 then throw (name @ '' has not started'')
      else Inr (sl_endpoint s))"

definition tracker_start ::
  "tracker_server \<Rightarrow> string + listen_attempt list \<Rightarrow> string + sock_name \<Rightarrow> server_listener \<Rightarrow> fd_table \<Rightarrow>
     unit result \<times> server_listener \<times> fd_table" where
  "tracker_start srv lookup sockname = server_start ''Tracker server'' lookup sockname (ts_requested_port srv) (ts_bind_address srv)"

definition peer_start ::
  "peer_server_config \<Rightarrow> string + listen_attempt list \<Rightarrow> string + sock_name \<Rightarrow> server_listener \<Rightarrow> fd_table \<Rightarrow>
     unit result \<times> server_listener \<times> fd_table" where
  "peer_start config lookup sockname = server_start ''Peer server'' lookup sockname (ps_port config) (ps_bind_address config)"

section \<open>Starting is all or nothing\<close>

lemma stop_listening:
  assumes "listen_tcp lookup p address backlog t = (Inr fd, t')" and "listen_fresh (lookup, p, address, backlog) t"
  shows "socket_close fd t' = (no_socket, t)"
  using ln.scoped_use_clean [of "(lookup, p, address, backlog)" t fd t'] assms
  by (simp add: socket_destroy_def socket_close_def socket_release_def Let_def no_socket_def)

lemma assign_fresh: "socket_assign False no_socket fd t = (fd, no_socket, t)"
  by (simp add: socket_assign_def socket_close_def socket_release_def close_fd_def no_socket_def Let_def)

lemma server_start_outcome:
  assumes down: "\<not> sl_running s" "sl_listener s = no_socket"
    and fresh: "listen_fresh (lookup, p, address, 64) t"
    and run: "server_start name lookup sockname p address s t = (r, s', t')"
  shows "(r = Inr () \<longrightarrow> sl_running s' \<and> sl_listener s' \<notin> open_fds t \<and> open_fds t' = insert (sl_listener s') (open_fds t) \<and>
      bound_port sockname = Inr (port (sl_endpoint s')) \<and> host (sl_endpoint s') = address \<and>
      server_stop s' t' = (s\<lparr>sl_endpoint := sl_endpoint s'\<rparr>, t) \<and>
      server_start name lookup2 sockname2 p2 address2 s' t' = (throw (name @ '' is already running''), s', t')) \<and>
    (r \<noteq> Inr () \<longrightarrow> s' = s \<and> t' = t)"
proof -
  obtain x t1 where x: "listen_tcp lookup p address 64 t = (x, t1)" by fastforce
  note T = listen_tcp_table [OF x fresh]
  show ?thesis
  proof (cases x)
    case (Inl e)
    with T x have "t1 = t" by simp
    with Inl x run down show ?thesis
      by (auto simp: server_start_def server_stop_def socket_close_def socket_release_def close_fd_def no_socket_def Let_def)
  next
    case (Inr fd)
    have close: "socket_close fd t1 = (no_socket, t)" by (rule stop_listening [OF x [unfolded Inr] fresh])
    have eq: "s\<lparr>sl_running := False, sl_listener := no_socket\<rparr> = s" using down by simp
    show ?thesis
    proof (cases "bound_port sockname")
      case (Inl e)
      with x \<open>x = Inr fd\<close> run down close eq show ?thesis
        by (auto simp: server_start_def server_stop_def assign_fresh)
    next
      case b: (Inr port)
      with x \<open>x = Inr fd\<close> run down have r: "r = Inr ()" "t' = t1"
        "s' = s\<lparr>sl_running := True, sl_listener := fd, sl_endpoint := \<lparr>host = address, port = port\<rparr>\<rparr>"
        by (auto simp: server_start_def assign_fresh)
      moreover have "server_stop s' t' = (s\<lparr>sl_endpoint := sl_endpoint s'\<rparr>, t)"
        unfolding r(2,3) using close down by (simp add: server_stop_def)
      ultimately show ?thesis using T Inr b by (simp add: server_start_def)
    qed
  qed
qed

text \<open>
  C36. Starting a server is all or nothing (\<^verbatim>\<open>TrackerServer::start\<close>, \<^verbatim>\<open>PeerServer::start\<close> and their \<^verbatim>\<open>stop\<close>): when the
  call returns, the server runs, owns exactly one new open descriptor and knows the bound
  port, and \<^verbatim>\<open>stop\<close> closes that descriptor again; when it throws, because the address cannot be bound
  or the port cannot be read, the server is as it was and no descriptor is left open, so that it can
  be started again; and a running server refuses a second start and is not disturbed by it.
\<close>

theorem server_start_all_or_nothing:
  assumes down: "\<not> sl_running s" "sl_listener s = no_socket"
    and fresh: "listen_fresh (lookup, p, address, 64) t"
    and run: "server_start name lookup sockname p address s t = (r, s', t')"
  shows "(r = Inr () \<longrightarrow> sl_running s' \<and> sl_listener s' \<notin> open_fds t \<and> open_fds t' = insert (sl_listener s') (open_fds t) \<and>
      bound_port sockname = Inr (port (sl_endpoint s')) \<and> host (sl_endpoint s') = address \<and>
      server_stop s' t' = (s\<lparr>sl_endpoint := sl_endpoint s'\<rparr>, t) \<and>
      server_start name lookup2 sockname2 p2 address2 s' t' = (throw (name @ '' is already running''), s', t')) \<and>
    (r \<noteq> Inr () \<longrightarrow> s' = s \<and> t' = t)"
  by (rule server_start_outcome [OF assms])

definition sample_listen :: listen_attempt where
  "sample_listen = \<lparr>la_socket = Inr 5, la_getfd = None, la_setfd = None, la_reuse = None, la_bind = None, la_listen = None\<rparr>"

lemma sample_listening:
  "listen_fresh (Inr [sample_listen], 0, ''127.0.0.1'', 64) sample_fds"
  "listen_tcp (Inr [sample_listen]) 0 ''127.0.0.1'' 64 sample_fds = (Inr 5, open_fd 5 sample_fds)"
  by (simp_all add: listen_fresh_def fresh_fd_def sample_listen_def sample_fds_def listen_tcp_def attempt_listen_def
      set_close_on_exec_def call_def)

lemma sample_peer_started:
  "peer_start sample_peer (Inr [sample_listen]) (Inr (Inet 4000)) listener_down sample_fds =
     (Inr (), \<lparr>sl_running = True, sl_listener = 5, sl_endpoint = \<lparr>host = ''127.0.0.1'', port = 4000\<rparr>\<rparr>, open_fd 5 sample_fds)"
  using sample_listening(2)
  by (simp add: peer_start_def server_start_def sample_peer_def listener_down_def assign_fresh bound_port_def)

theorem server_start_all_or_nothing_witness:
  "server_stop \<lparr>sl_running = True, sl_listener = 5, sl_endpoint = \<lparr>host = ''127.0.0.1'', port = 4000\<rparr>\<rparr> (open_fd 5 sample_fds) =
     (listener_down\<lparr>sl_endpoint := \<lparr>host = ''127.0.0.1'', port = 4000\<rparr>\<rparr>, sample_fds)"
proof -
  have p: "ps_port sample_peer = 0" "ps_bind_address sample_peer = ''127.0.0.1''" by (simp_all add: sample_peer_def)
  show ?thesis
    using server_start_all_or_nothing [OF _ _ sample_listening(1) sample_peer_started [unfolded peer_start_def p]]
    by (simp add: listener_down_def)
qed

end
