(* ===== verification/Coordinator.thy ===== *)
theory Coordinator
  imports Download Server_Start
begin

text \<open>
  \<^verbatim>\<open>DownloadCoordinator\<close> of \<^verbatim>\<open>src/download.cpp\<close>: the preparation of a download, its worker threads as a step
  relation in which every interleaving is a run, its completion and its error path, and their
  composition. Nothing is assumed about the answers of the network and of the system calls.
\<close>

section \<open>Paths and preparation\<close>

definition final_path :: "download_config \<Rightarrow> path" where
  "final_path config = path_append (dc_output_directory config) (file_name (dc_manifest config))"

definition partial_path :: "download_config \<Rightarrow> path" where
  "partial_path config = path_append (dc_output_directory config) (file_name (dc_manifest config) @ ''.part'')"

definition resume_path :: "download_config \<Rightarrow> string \<Rightarrow> path" where
  "resume_path config swarm_id = path_append (dc_output_directory config) (swarm_id @ ''.resume'')"

text \<open>The constructor.\<close>

definition coordinator_new :: "download_config \<Rightarrow> download_config result" where
  "coordinator_new config = rbind (validate_config config) (\<lambda>_. Inr config)"

text \<open>
  The answers of the file-system calls of a run, apart from those of the chunk writes: making the
  output directory, sizing the partial file, the flush after revalidation, the final flush,
  the flush of the handler, the final rename and the removal of the resume file.
\<close>

record run_env =
  ru_mkdir :: answer
  ru_sizing :: sizing_env
  ru_revalidate :: atomic_env
  ru_flush :: atomic_env
  ru_recover :: atomic_env
  ru_rename :: answer
  ru_remove :: answer

text \<open>
  What \<^verbatim>\<open>run\<close> has done before it starts its threads: it throws, it returns at once because the
  final file is there, or it goes on with a store.
\<close>

datatype prepared = Prepare_throws exc | Already_there path | Prepared resume_store

definition make_directories :: "answer \<Rightarrow> path \<Rightarrow> fs \<Rightarrow> unit result \<times> fs" where
  "make_directories injected p f =
     (case or_fault injected (list_ex (\<lambda>q. nodes f q \<noteq> None \<and> nodes f q \<noteq> Some Directory) (dir_prefixes p))
             ''Not a directory'' of
        Some e \<Rightarrow> (Inl (Filesystem_error e), f)
      | None \<Rightarrow> (Inr (), create_directories f p))"

text \<open>From the check for a final file on; the states of the file system are collected.\<close>

definition open_download :: "'c evp \<Rightarrow> run_env \<Rightarrow> download_config \<Rightarrow> string \<Rightarrow> fs \<Rightarrow> prepared \<times> fs list" where
  "open_download evp env config swarm_id f =
     (let m = dc_manifest config; final = final_path config; partial = partial_path config;
          saved = resume_path config swarm_id
      in if fs_exists f final then
           (case sha256_file evp f final of
              Inl e \<Rightarrow> (Prepare_throws e, [f])
            | Inr digest \<Rightarrow>
                if digest \<noteq> file_sha256 m
                then (Prepare_throws (Error ''Existing final file does not match the selected manifest''), [f])
                else (Already_there final, [f]))
         else if fs_exists f saved \<and> \<not> fs_exists f partial
         then (Prepare_throws (Error ''Resume state exists but its partial file is missing''), [f])
         else
           (case prepare_partial_file (ru_sizing env) partial (file_size_bytes m) f of
              (Inl e, f1) \<Rightarrow> (Prepare_throws e, [f, f1])
            | (Inr _, f1) \<Rightarrow>
                (case resume_load_or_create f1 saved swarm_id (of_nat (length (chunk_hashes m))) of
                   Inl e \<Rightarrow> (Prepare_throws e, [f, f1])
                 | Inr resume \<Rightarrow>
                     (case revalidate_completed_chunks evp (ru_revalidate env) partial m resume f1 of
                        (Inl e, _, states) \<Rightarrow> (Prepare_throws e, f # f1 # states)
                      | (Inr _, resume, states) \<Rightarrow> (Prepared resume, f # f1 # states)))))"

definition run_prepare :: "'c evp \<Rightarrow> run_env \<Rightarrow> download_config \<Rightarrow> fs \<Rightarrow> prepared \<times> fs list" where
  "run_prepare evp env config f =
     (case manifest_swarm_id evp (dc_manifest config) of
        Inl e \<Rightarrow> (Prepare_throws e, [f])
      | Inr swarm_id \<Rightarrow>
          (case make_directories (ru_mkdir env) (dc_output_directory config) f of
             (Inl e, f) \<Rightarrow> (Prepare_throws e, [f])
           | (Inr _, f) \<Rightarrow> open_download evp env config swarm_id f))"

section \<open>The worker threads\<close>

text \<open>
  Where a worker is: at the loop condition, at the fetch-and-add, with an index it has taken, with
  one that it fetches, with verified bytes that it writes, about to announce, announcing with the list of
  chunks it has read, with an exception in hand, about to set \<^verbatim>\<open>failed\<close>, or finished.
\<close>

datatype dworker =
  At_test | At_take | Took u32 | Fetching u32 | Holding u32 bytes | Announcing | Advertising "u32 list" |
  Failing exc | Setting_failed | Returned

record download_state =
  ds_store :: resume_store
  ds_fs :: fs
  ds_next :: u32
  ds_failed :: bool
  ds_failure :: "exc option"
  ds_retries :: nat
  ds_workers :: "dworker list"

text \<open>The state in which the threads start.\<close>

definition workers_start :: "download_config \<Rightarrow> resume_store \<Rightarrow> fs \<Rightarrow> download_state" where
  "workers_start config resume f =
     \<lparr>ds_store = resume, ds_fs = f, ds_next = 0, ds_failed = False, ds_failure = None, ds_retries = 0,
      ds_workers = replicate (unat (dc_worker_count config)) At_test\<rparr>"

definition move_worker :: "nat \<Rightarrow> dworker \<Rightarrow> download_state \<Rightarrow> download_state" where
  "move_worker w pc s = s\<lparr>ds_workers := (ds_workers s)[w := pc]\<rparr>"

definition worker_test :: "nat \<Rightarrow> download_state \<Rightarrow> download_state" where
  "worker_test w s = move_worker w (if \<not> ds_failed s then At_take else Returned) s"

definition worker_take :: "manifest \<Rightarrow> nat \<Rightarrow> download_state \<Rightarrow> download_state" where
  "worker_take m w s =
     (let index = ds_next s
      in move_worker w (if unat index \<ge> length (chunk_hashes m) then Returned else Took index)
           (s\<lparr>ds_next := index + 1\<rparr>))"

definition worker_check :: "nat \<Rightarrow> u32 \<Rightarrow> download_state \<Rightarrow> download_state result" where
  "worker_check w index s =
     rbind (resume_complete index (ds_store s)) (\<lambda>complete.
     Inr (move_worker w (if complete then At_test else Fetching index) s))"

definition worker_fetched :: "nat \<Rightarrow> u32 \<Rightarrow> bytes result \<Rightarrow> nat \<Rightarrow> download_state \<Rightarrow> download_state" where
  "worker_fetched w index r retries s =
     move_worker w (case r of Inl e \<Rightarrow> Failing e | Inr b \<Rightarrow> Holding index b) (s\<lparr>ds_retries := retries\<rparr>)"

definition worker_written :: "nat \<Rightarrow> unit result \<Rightarrow> resume_store \<Rightarrow> fs \<Rightarrow> download_state \<Rightarrow> download_state" where
  "worker_written w r resume f s =
     move_worker w (case r of Inl e \<Rightarrow> Failing e | Inr _ \<Rightarrow> Announcing) (s\<lparr>ds_store := resume, ds_fs := f\<rparr>)"

text \<open>
  \<^verbatim>\<open>announce_current\<close>, and what becomes of its exceptions in the worker's inner handler. It reads the completed
  chunks and then whether all are complete, under two acquisitions of the store's mutex: other
  threads may complete chunks in between.
\<close>

definition current_advertisement :: "download_config \<Rightarrow> string \<Rightarrow> u16 \<Rightarrow> u32 list \<Rightarrow> bool \<Rightarrow> peer_advertisement" where
  "current_advertisement config swarm_id listen_port chunks complete =
     \<lparr>ad_swarm_id = swarm_id, ad_peer_id = dc_peer_id config, ad_listen_port = listen_port,
      ad_chunks = chunks, ad_has_all_chunks = complete\<rparr>"

definition announce_current ::
  "tracker_client \<Rightarrow> download_config \<Rightarrow> string \<Rightarrow> u16 \<Rightarrow> u32 list \<Rightarrow> bool \<Rightarrow> network \<Rightarrow> fd_table \<Rightarrow>
     unit result \<times> conn option \<times> fd_table" where
  "announce_current tracker config swarm_id listen_port chunks complete =
     client_announce tracker (current_advertisement config swarm_id listen_port chunks complete)"

definition worker_advertise :: "nat \<Rightarrow> download_state \<Rightarrow> download_state" where
  "worker_advertise w s = move_worker w (Advertising (resume_completed_chunks (ds_store s))) s"

definition worker_announced :: "nat \<Rightarrow> unit result \<Rightarrow> download_state \<Rightarrow> download_state" where
  "worker_announced w r s = move_worker w (case r of Inl (Filesystem_error e) \<Rightarrow> Failing (Filesystem_error e) | _ \<Rightarrow> At_test) s"

text \<open>The outer handler: the first exception is kept, under the mutex, and then the flag is set.\<close>

definition worker_record :: "nat \<Rightarrow> exc \<Rightarrow> download_state \<Rightarrow> download_state" where
  "worker_record w e s =
     move_worker w Setting_failed (if ds_failure s = None then s\<lparr>ds_failure := Some e\<rparr> else s)"

definition worker_fail :: "nat \<Rightarrow> download_state \<Rightarrow> download_state" where
  "worker_fail w s = move_worker w Returned (s\<lparr>ds_failed := True\<rparr>)"

text \<open>
  The threads interleave in steps: an atomic operation, a critical section of the store, the fetch
  of a chunk, which touches nothing that is shared but the retry counter, and the write under
  \<^verbatim>\<open>write_mutex\<close>. The network answers and the system calls differ from step to step. The states of the file
  system that a step passes through are its label.
\<close>

record 'c run_context =
  rc_evp :: "'c evp"
  rc_tracker :: tracker_client
  rc_config :: download_config
  rc_swarm_id :: string
  rc_port :: u16

inductive worker_step :: "'c run_context \<Rightarrow> download_state \<Rightarrow> fs list \<Rightarrow> download_state \<Rightarrow> bool" for x where
  Test: "w < length (ds_workers s) \<Longrightarrow> ds_workers s ! w = At_test \<Longrightarrow> worker_step x s [] (worker_test w s)"
| Take: "w < length (ds_workers s) \<Longrightarrow> ds_workers s ! w = At_take \<Longrightarrow>
    worker_step x s [] (worker_take (dc_manifest (rc_config x)) w s)"
| Check: "w < length (ds_workers s) \<Longrightarrow> ds_workers s ! w = Took index \<Longrightarrow> worker_check w index s = Inr s' \<Longrightarrow>
    worker_step x s [] s'"
| Fetch: "w < length (ds_workers s) \<Longrightarrow> ds_workers s ! w = Fetching index \<Longrightarrow>
    fetch_with_retry (rc_evp x) (rc_tracker x) (rc_config x) (rc_swarm_id x) index nets (ds_retries s) k t =
      (r, retries, k', t') \<Longrightarrow>
    worker_step x s [] (worker_fetched w index r retries s)"
| Write: "w < length (ds_workers s) \<Longrightarrow> ds_workers s ! w = Holding index b \<Longrightarrow>
    write_verified_chunk env (partial_path (rc_config x)) (dc_manifest (rc_config x)) index b (ds_store s) (ds_fs s) =
      (r, resume, states) \<Longrightarrow>
    worker_step x s states (worker_written w r resume (last states) s)"
| Advertise: "w < length (ds_workers s) \<Longrightarrow> ds_workers s ! w = Announcing \<Longrightarrow> worker_step x s [] (worker_advertise w s)"
| Announce: "w < length (ds_workers s) \<Longrightarrow> ds_workers s ! w = Advertising chunks \<Longrightarrow>
    announce_current (rc_tracker x) (rc_config x) (rc_swarm_id x) (rc_port x) chunks (resume_all_complete (ds_store s)) net t =
      (r, c, t') \<Longrightarrow>
    worker_step x s [] (worker_announced w r s)"
| Record: "w < length (ds_workers s) \<Longrightarrow> ds_workers s ! w = Failing e \<Longrightarrow> worker_step x s [] (worker_record w e s)"
| Fail: "w < length (ds_workers s) \<Longrightarrow> ds_workers s ! w = Setting_failed \<Longrightarrow> worker_step x s [] (worker_fail w s)"

inductive_cases worker_step_cases: "worker_step x s states s'"

text \<open>A run of the threads, with the number of its steps and all states of the file system.\<close>

inductive worker_run :: "'c run_context \<Rightarrow> download_state \<Rightarrow> nat \<Rightarrow> fs list \<Rightarrow> download_state \<Rightarrow> bool" for x s where
  Run_none: "worker_run x s 0 [] s"
| Run_step: "worker_run x s n states s1 \<Longrightarrow> worker_step x s1 states' s2 \<Longrightarrow>
    worker_run x s (Suc n) (states @ states') s2"

section \<open>Completion\<close>

text \<open>After the threads are joined, up to the return; an exception leads to \<open>run_recover\<close>.\<close>

definition run_finish :: "'c evp \<Rightarrow> run_env \<Rightarrow> download_config \<Rightarrow> resume_store \<Rightarrow> fs \<Rightarrow> path result \<times> resume_store \<times> fs list" where
  "run_finish evp env config resume f =
     (if \<not> resume_all_complete resume
      then (throw ''Download ended before every manifest chunk was verified'', resume, [f])
      else
        let (r, resume, states) = resume_flush (ru_flush env) resume f; f1 = last states;
            partial = partial_path config; final = final_path config
        in case rbind r (\<lambda>_. sha256_file evp f1 partial) of
             Inl e \<Rightarrow> (Inl e, resume, states)
           | Inr digest \<Rightarrow>
               if digest \<noteq> file_sha256 (dc_manifest config)
               then (throw ''Final full-file SHA-256 verification failed'', resume, states)
               else (case or_fault (ru_rename env) (nodes f1 final = Some Directory) ''Is a directory'' of
                       Some e \<Rightarrow> (Inl (Filesystem_error e), resume, states)
                     | None \<Rightarrow>
                         let f2 = rename_node f1 partial final;
                             f3 = (if ru_remove env = None then remove_node f2 (rs_path resume) else f2)
                         in (Inr final, resume, states @ [f2, f3])))"

text \<open>The handler of \<^verbatim>\<open>run\<close>: an \<^verbatim>\<open>Error\<close> of its flush is logged, another exception replaces the first.\<close>

definition run_recover :: "run_env \<Rightarrow> exc \<Rightarrow> resume_store \<Rightarrow> fs \<Rightarrow> exc \<times> resume_store \<times> fs list" where
  "run_recover env e resume f =
     (case resume_flush (ru_recover env) resume f of
        (Inl (Filesystem_error e'), resume, states) \<Rightarrow> (Filesystem_error e', resume, states)
      | (_, resume, states) \<Rightarrow> (e, resume, states))"

record download_result =
  dr_final_path :: path
  dr_completed_chunks :: nat
  dr_retry_events :: nat

definition run_conclude ::
  "'c evp \<Rightarrow> run_env \<Rightarrow> download_config \<Rightarrow> download_state \<Rightarrow> download_result result \<times> resume_store \<times> fs list" where
  "run_conclude evp env config s =
     (let (r, resume, states) =
        (case ds_failure s of
           Some e \<Rightarrow> (Inl e, ds_store s, [ds_fs s])
         | None \<Rightarrow> run_finish evp env config (ds_store s) (ds_fs s))
      in case r of
           Inr p \<Rightarrow>
             (Inr \<lparr>dr_final_path = p, dr_completed_chunks = length (chunk_hashes (dc_manifest config)),
                    dr_retry_events = ds_retries s\<rparr>, resume, states)
         | Inl e \<Rightarrow> let (e, resume, states') = run_recover env e resume (last states) in (Inl e, resume, states @ states'))"

section \<open>The whole run\<close>

text \<open>The downloader's own peer server, which offers the chunks that the store has.\<close>

definition download_peer :: "download_config \<Rightarrow> resume_store \<Rightarrow> peer_server_config" where
  "download_peer config resume =
     \<lparr>ps_manifest = dc_manifest config, ps_file_path = partial_path config, ps_token = dc_token config,
      ps_port = dc_listen_port config, ps_bind_address = dc_bind_address config,
      ps_max_connections = dc_peer_max_connections config, ps_has_chunk = Some (\<lambda>index. resume_complete index resume)\<rparr>"

definition open_peer_server ::
  "download_config \<Rightarrow> resume_store \<Rightarrow> string + listen_attempt list \<Rightarrow> string + sock_name \<Rightarrow> fd_table \<Rightarrow> server_listener result" where
  "open_peer_server config resume lookup sockname t =
     rbind (peer_server_new (download_peer config resume)) (\<lambda>peer_config.
     case peer_start peer_config lookup sockname listener_down t of
       (Inl e, _) \<Rightarrow> Inl e
     | (Inr _, listener, _) \<Rightarrow> Inr listener)"

text \<open>The tracker client and the first announcement, whose exceptions are not caught inside the block.\<close>

definition first_announcement ::
  "download_config \<Rightarrow> string \<Rightarrow> resume_store \<Rightarrow> server_listener \<Rightarrow> network \<Rightarrow> fd_table \<Rightarrow> (tracker_client \<times> u16) result" where
  "first_announcement config swarm_id resume listener net t =
     rbind (tracker_client_new (dc_tracker_endpoint config) (dc_token config) (dc_network_timeout config)) (\<lambda>tracker.
     rbind (server_endpoint ''Peer server'' listener) (\<lambda>e.
     rbind (fst (announce_current tracker config swarm_id (port e) (resume_completed_chunks resume) (resume_all_complete resume) net t)) (\<lambda>_.
     Inr (tracker, port e))))"

text \<open>
  \<^verbatim>\<open>DownloadCoordinator::run\<close>: the result and all states of the file system, the last one being the
  current one. The heartbeat thread only announces and the peer server only reads; neither changes
  the store or a file.
\<close>

inductive download_run ::
  "'c evp \<Rightarrow> run_env \<Rightarrow> download_config \<Rightarrow> fs \<Rightarrow> download_result result \<Rightarrow> fs list \<Rightarrow> bool" for evp env config f where
  Unprepared: "run_prepare evp env config f = (Prepare_throws e, states) \<Longrightarrow> download_run evp env config f (Inl e) states"
| Present: "run_prepare evp env config f = (Already_there p, states) \<Longrightarrow>
    download_run evp env config f
      (Inr \<lparr>dr_final_path = p, dr_completed_chunks = length (chunk_hashes (dc_manifest config)), dr_retry_events = 0\<rparr>) states"
| No_peer_server: "run_prepare evp env config f = (Prepared resume, states) \<Longrightarrow>
    open_peer_server config resume lookup sockname t = Inl e \<Longrightarrow> download_run evp env config f (Inl e) states"
| No_tracker: "run_prepare evp env config f = (Prepared resume, states) \<Longrightarrow>
    open_peer_server config resume lookup sockname t = Inr listener \<Longrightarrow>
    manifest_swarm_id evp (dc_manifest config) = Inr swarm_id \<Longrightarrow>
    first_announcement config swarm_id resume listener net t' = Inl e \<Longrightarrow>
    run_recover env e resume (last states) = (e', resume', states') \<Longrightarrow>
    download_run evp env config f (Inl e') (states @ states')"
| Threads: "run_prepare evp env config f = (Prepared resume, states) \<Longrightarrow>
    open_peer_server config resume lookup sockname t = Inr listener \<Longrightarrow>
    manifest_swarm_id evp (dc_manifest config) = Inr swarm_id \<Longrightarrow>
    first_announcement config swarm_id resume listener net t' = Inr (tracker, listen_port) \<Longrightarrow>
    worker_run \<lparr>rc_evp = evp, rc_tracker = tracker, rc_config = config, rc_swarm_id = swarm_id, rc_port = listen_port\<rparr>
      (workers_start config resume (last states)) n states' s \<Longrightarrow>
    set (ds_workers s) \<subseteq> {Returned} \<Longrightarrow>
    run_conclude evp env config s = (r, resume', states'') \<Longrightarrow>
    download_run evp env config f r (states @ states' @ states'')"

section \<open>The invariant of the threads\<close>

text \<open>The indexes in the workers' hands.\<close>

fun held_index :: "dworker \<Rightarrow> u32 list" where
  "held_index (Took i) = [i]"
| "held_index (Fetching i) = [i]"
| "held_index (Holding i b) = [i]"
| "held_index _ = []"

definition owned :: "dworker list \<Rightarrow> u32 list" where
  "owned ws = concat (map held_index ws)"

definition finished :: "dworker list \<Rightarrow> nat" where
  "finished ws = length (filter (\<lambda>pc. pc = Returned) ws)"

fun failing :: "dworker \<Rightarrow> bool" where
  "failing (Failing e) = True"
| "failing _ = False"

lemma owned_update:
  assumes "w < length ws"
  shows "mset (owned (ws[w := pc])) + mset (held_index (ws ! w)) = mset (owned ws) + mset (held_index pc)"
proof -
  have ws: "ws = take w ws @ ws ! w # drop (Suc w) ws" using assms by (rule id_take_nth_drop)
  have upd: "ws[w := pc] = take w ws @ pc # drop (Suc w) ws" using assms by (rule upd_conv_take_nth_drop)
  have "owned ws = owned (take w ws) @ held_index (ws ! w) @ owned (drop (Suc w) ws)"
    by (subst ws) (simp add: owned_def)
  moreover have "owned (ws[w := pc]) = owned (take w ws) @ held_index pc @ owned (drop (Suc w) ws)"
    unfolding upd by (simp add: owned_def)
  ultimately show ?thesis by simp
qed

lemma finished_update:
  assumes "w < length ws" and "ws ! w \<noteq> Returned"
  shows "finished (ws[w := pc]) = (if pc = Returned then Suc (finished ws) else finished ws)"
proof -
  have ws: "ws = take w ws @ ws ! w # drop (Suc w) ws" using assms(1) by (rule id_take_nth_drop)
  have upd: "ws[w := pc] = take w ws @ pc # drop (Suc w) ws" using assms(1) by (rule upd_conv_take_nth_drop)
  show ?thesis unfolding upd by (subst (3 4) ws) (simp add: finished_def assms(2))
qed

lemma finished_less: "w < length ws \<Longrightarrow> ws ! w \<noteq> Returned \<Longrightarrow> finished ws < length ws"
  unfolding finished_def by (rule length_filter_less [of "ws ! w"]) auto

lemma finished_le: "finished ws \<le> length ws"
  by (simp add: finished_def)

lemma owned_keep:
  assumes "w < length ws" and "held_index pc = held_index (ws ! w)"
  shows "set (owned (ws[w := pc])) = set (owned ws) \<and> distinct (owned (ws[w := pc])) = distinct (owned ws)"
proof -
  have "mset (owned (ws[w := pc])) = mset (owned ws)" using owned_update [OF assms(1), of pc] assms(2) by simp
  then show ?thesis by (metis mset_eq_setD mset_eq_imp_distinct_iff)
qed

lemma owned_drop:
  assumes "w < length ws" and "held_index (ws ! w) = [i]" and "held_index pc = []" and "distinct (owned ws)"
  shows "set (owned (ws[w := pc])) = set (owned ws) - {i} \<and> distinct (owned (ws[w := pc]))"
proof -
  have "mset (owned ws) = mset (i # owned (ws[w := pc]))" using owned_update [OF assms(1), of pc] assms(2,3) by simp
  then have "set (owned ws) = set (i # owned (ws[w := pc]))" "distinct (i # owned (ws[w := pc]))"
    using assms(4) by (metis mset_eq_setD, metis mset_eq_imp_distinct_iff)
  then show ?thesis by auto
qed

lemma owned_gain:
  assumes "w < length ws" and "held_index (ws ! w) = []" and "held_index pc = [i]"
    and "distinct (owned ws)" and "i \<notin> set (owned ws)"
  shows "set (owned (ws[w := pc])) = insert i (set (owned ws)) \<and> distinct (owned (ws[w := pc]))"
proof -
  have "mset (owned (ws[w := pc])) = mset (i # owned ws)" using owned_update [OF assms(1), of pc] assms(2,3) by simp
  then have "set (owned (ws[w := pc])) = set (i # owned ws)" "distinct (owned (ws[w := pc])) = distinct (i # owned ws)"
    by (metis mset_eq_setD, metis mset_eq_imp_distinct_iff)
  then show ?thesis using assms(4,5) by simp
qed

lemma in_owned: "pc \<in> set ws \<Longrightarrow> i \<in> set (held_index pc) \<Longrightarrow> i \<in> set (owned ws)"
  by (auto simp: owned_def)

lemma in_update: "pc' \<in> set (ws[w := pc]) \<Longrightarrow> pc' = pc \<or> pc' \<in> set ws"
  using set_update_subset_insert [of ws w pc] by auto

lemma stays_in_update: "pc' \<in> set ws \<Longrightarrow> w < length ws \<Longrightarrow> ws ! w \<noteq> pc' \<Longrightarrow> pc' \<in> set (ws[w := pc])"
  by (metis in_set_conv_nth length_list_update nth_list_update_neq)

text \<open>
  Every index below the counter is done, in the hands of exactly one worker, or given up because of
  a failure. The counter passes the number of chunks by at most one for each finished worker.
\<close>

definition index_inv :: "nat \<Rightarrow> u32 set \<Rightarrow> u32 \<Rightarrow> bool \<Rightarrow> dworker list \<Rightarrow> bool" where
  "index_inv n d next bad ws \<longleftrightarrow>
     unat next \<le> n + finished ws \<and> distinct (owned ws) \<and> (\<forall>i\<in>set (owned ws). i < next \<and> unat i < n) \<and>
     (\<forall>i. i < next \<longrightarrow> unat i < n \<longrightarrow> i \<in> d \<or> i \<in> set (owned ws) \<or> bad)"

definition holding_inv :: "'c evp \<Rightarrow> manifest \<Rightarrow> u32 set \<Rightarrow> dworker list \<Rightarrow> bool" where
  "holding_inv evp m d ws \<longleftrightarrow>
     (\<forall>i. Fetching i \<in> set ws \<longrightarrow> i \<notin> d) \<and>
     (\<forall>i b. Holding i b \<in> set ws \<longrightarrow> i \<notin> d \<and> chunk_verified evp m i b)"

definition flag_inv :: "nat \<Rightarrow> u32 \<Rightarrow> bool \<Rightarrow> exc option \<Rightarrow> dworker list \<Rightarrow> bool" where
  "flag_inv n next failed failure ws \<longleftrightarrow>
     (Returned \<in> set ws \<longrightarrow> failed \<or> n < unat next) \<and> (Setting_failed \<in> set ws \<or> failed \<longrightarrow> failure \<noteq> None)"

definition trouble :: "exc option \<Rightarrow> dworker list \<Rightarrow> bool" where
  "trouble failure ws \<longleftrightarrow> failure \<noteq> None \<or> (\<exists>e. Failing e \<in> set ws)"

definition workers_inv :: "'c run_context \<Rightarrow> nat \<Rightarrow> download_state \<Rightarrow> bool" where
  "workers_inv x k s \<longleftrightarrow>
     (let m = dc_manifest (rc_config x); n = length (chunk_hashes m); ws = ds_workers s; d = done_chunks (ds_store s)
      in store_backed (rc_evp x) m (partial_path (rc_config x)) (ds_fs s) (ds_store s) \<and> length ws = k \<and>
         index_inv n d (ds_next s) (trouble (ds_failure s) ws) ws \<and> holding_inv (rc_evp x) m d ws \<and>
         flag_inv n (ds_next s) (ds_failed s) (ds_failure s) ws)"

lemma index_keep:
  assumes "index_inv n d next bad ws" and "w < length ws" and "ws ! w \<noteq> Returned"
    and "held_index pc = held_index (ws ! w)" and "bad \<Longrightarrow> bad'"
  shows "index_inv n d next bad' (ws[w := pc])"
  using assms(1,5) owned_keep [OF assms(2,4)] finished_update [OF assms(2,3), of pc]
  by (auto simp: index_inv_def)

lemma index_drop:
  assumes "index_inv n d next bad ws" and "w < length ws" and "held_index (ws ! w) = [i]" and "held_index pc = []"
    and "d \<subseteq> d'" and "i \<in> d' \<or> bad'" and "bad \<Longrightarrow> bad'"
  shows "index_inv n d' next bad' (ws[w := pc])"
proof -
  have "ws ! w \<noteq> Returned" using assms(3) by auto
  from finished_update [OF assms(2) this, of pc] owned_drop [OF assms(2-4)] assms(1,5-7) show ?thesis
    by (auto simp: index_inv_def)
qed

lemma holding_keep:
  assumes "holding_inv evp m d ws" and "\<And>i. pc = Fetching i \<Longrightarrow> i \<notin> d"
    and "\<And>i b. pc = Holding i b \<Longrightarrow> i \<notin> d \<and> chunk_verified evp m i b"
  shows "holding_inv evp m d (ws[w := pc])"
  using assms unfolding holding_inv_def by (metis in_update)

lemma holding_drop:
  assumes "holding_inv evp m d ws" and "w < length ws" and "held_index (ws ! w) = [i]" and "held_index pc = []"
    and "distinct (owned ws)" and "d' \<subseteq> insert i d"
  shows "holding_inv evp m d' (ws[w := pc])"
proof -
  have own: "i \<notin> set (owned (ws[w := pc]))" using owned_drop [OF assms(2-5)] by simp
  have keep: "holding_inv evp m d (ws[w := pc])" by (rule holding_keep [OF assms(1)]) (use assms(4) in auto)
  have "j \<noteq> i" if "Fetching j \<in> set (ws[w := pc]) \<or> Holding j b \<in> set (ws[w := pc])" for j b
    using that own in_owned [of "Fetching j" "ws[w := pc]" j] in_owned [of "Holding j b" "ws[w := pc]" j] by auto
  with keep assms(6) show ?thesis unfolding holding_inv_def by blast
qed

lemma flag_keep:
  assumes "flag_inv n next failed failure ws" and "pc = Returned \<Longrightarrow> failed \<or> n < unat next"
    and "pc = Setting_failed \<Longrightarrow> failure \<noteq> None"
  shows "flag_inv n next failed failure (ws[w := pc])"
  using assms in_update [of _ ws w pc] by (auto simp: flag_inv_def)

lemma trouble_keep:
  "trouble failure ws \<Longrightarrow> w < length ws \<Longrightarrow> \<not> failing (ws ! w) \<Longrightarrow> trouble failure (ws[w := pc])"
  by (auto simp: trouble_def intro!: stays_in_update)

lemmas worker_defs = move_worker_def worker_test_def worker_take_def worker_check_def worker_fetched_def
  worker_written_def worker_advertise_def worker_announced_def worker_record_def worker_fail_def

lemma unat_next:
  assumes "unat (i :: u32) \<le> n + k" and "k < l" and "n + l < 2 ^ 32"
  shows "unat (i + 1) = unat i + 1"
proof -
  have "unat i + 1 < 2 ^ 32" using assms by simp
  then show ?thesis by (simp add: unat_word_ariths)
qed

text \<open>Taking the next index.\<close>

lemma index_take:
  assumes inv: "index_inv n d i bad ws" and w: "w < length ws" "ws ! w = At_take"
    and small: "n + length ws < 2 ^ 32"
  shows "index_inv n d (i + 1) bad (ws[w := if unat i \<ge> n then Returned else Took i])"
proof -
  have ret: "ws ! w \<noteq> Returned" using w(2) by simp
  have le: "unat i \<le> n + finished ws" using inv by (simp add: index_inv_def)
  have next': "unat (i + 1) = unat i + 1" by (rule unat_next [OF le finished_less [OF w(1) ret] small])
  have less: "j < i + 1 \<longleftrightarrow> j < i \<or> j = i" for j :: u32
    using next' by (auto simp: word_less_nat_alt word_unat_eq_iff)
  show ?thesis
  proof (cases "unat i \<ge> n")
    case True
    have "index_inv n d i bad (ws[w := Returned])"
      by (rule index_keep [OF inv w(1) ret]) (use w(2) in simp_all)
    with le next' True finished_update [OF w(1) ret, of Returned] show ?thesis
      by (auto simp: index_inv_def less)
  next
    case False
    have "i \<notin> set (owned ws)" using inv by (auto simp: index_inv_def)
    with owned_gain [OF w(1), of "Took i" i] w(2) inv
    have "set (owned (ws[w := Took i])) = insert i (set (owned ws)) \<and> distinct (owned (ws[w := Took i]))"
      by (simp add: index_inv_def)
    with inv False next' finished_update [OF w(1) ret, of "Took i"] show ?thesis
      by (auto simp: index_inv_def less)
  qed
qed

lemma flag_take:
  assumes "flag_inv n i failed failure ws" and "unat (i + 1) = unat i + 1"
  shows "flag_inv n (i + 1) failed failure (ws[w := if unat i \<ge> n then Returned else Took i])"
proof -
  have "flag_inv n (i + 1) failed failure ws" using assms by (auto simp: flag_inv_def)
  then show ?thesis by (rule flag_keep) (use assms(2) in \<open>auto split: if_splits\<close>)
qed

lemma workers_inv_take:
  assumes inv: "workers_inv x k s" and w: "w < length (ds_workers s)" "ds_workers s ! w = At_take"
    and small: "length (chunk_hashes (dc_manifest (rc_config x))) + k < 2 ^ 32"
  shows "workers_inv x k (worker_take (dc_manifest (rc_config x)) w s)"
proof -
  let ?n = "length (chunk_hashes (dc_manifest (rc_config x)))" and ?i = "ds_next s" and ?ws = "ds_workers s"
  let ?pc = "if unat ?i \<ge> ?n then Returned else Took ?i"
  have I: "index_inv ?n (done_chunks (ds_store s)) ?i (trouble (ds_failure s) ?ws) ?ws" "length ?ws = k"
    "holding_inv (rc_evp x) (dc_manifest (rc_config x)) (done_chunks (ds_store s)) ?ws"
    "flag_inv ?n ?i (ds_failed s) (ds_failure s) ?ws"
    using inv by (simp_all add: workers_inv_def Let_def)
  have "unat ?i \<le> ?n + finished ?ws" using I(1) by (simp add: index_inv_def)
  then have next': "unat (?i + 1) = unat ?i + 1"
    by (rule unat_next [OF _ finished_less [OF w(1)]]) (use w small I(2) in auto)
  have tr: "trouble (ds_failure s) (?ws[w := ?pc])" if "trouble (ds_failure s) ?ws"
    using trouble_keep [OF that w(1)] w(2) by simp
  have "index_inv ?n (done_chunks (ds_store s)) (?i + 1) (trouble (ds_failure s) ?ws) (?ws[w := ?pc])"
    by (rule index_take [OF I(1) w]) (use small I(2) in simp)
  then have "index_inv ?n (done_chunks (ds_store s)) (?i + 1) (trouble (ds_failure s) (?ws[w := ?pc])) (?ws[w := ?pc])"
    using tr by (auto simp: index_inv_def)
  moreover have "holding_inv (rc_evp x) (dc_manifest (rc_config x)) (done_chunks (ds_store s)) (?ws[w := ?pc])"
    by (rule holding_keep [OF I(3)]) (auto split: if_splits)
  ultimately show ?thesis
    using inv flag_take [OF I(4) next'] I(2) by (simp add: workers_inv_def Let_def worker_take_def move_worker_def)
qed

text \<open>A worker that moves on with what it holds, while store and counter stay.\<close>

lemma workers_inv_keep:
  assumes inv: "workers_inv x k s" and w: "w < length (ds_workers s)" "ds_workers s ! w \<noteq> Returned"
    and held: "held_index pc = held_index (ds_workers s ! w)"
    and f: "\<And>i. pc = Fetching i \<Longrightarrow> i \<notin> done_chunks (ds_store s)"
    and h: "\<And>i b. pc = Holding i b \<Longrightarrow> i \<notin> done_chunks (ds_store s) \<and> chunk_verified (rc_evp x) (dc_manifest (rc_config x)) i b"
    and r: "pc = Returned \<Longrightarrow> failed" and st: "pc = Setting_failed \<Longrightarrow> failure \<noteq> None"
    and fl: "ds_failed s \<Longrightarrow> failed" "failed \<Longrightarrow> failure \<noteq> None" "ds_failure s \<noteq> None \<Longrightarrow> failure \<noteq> None"
    and t: "failing (ds_workers s ! w) \<Longrightarrow> failure \<noteq> None"
    and s': "ds_store s' = ds_store s" "ds_fs s' = ds_fs s" "ds_next s' = ds_next s" "ds_failed s' = failed"
      "ds_failure s' = failure" "ds_workers s' = (ds_workers s)[w := pc]"
  shows "workers_inv x k s'"
proof -
  let ?n = "length (chunk_hashes (dc_manifest (rc_config x)))" and ?ws = "ds_workers s"
  have I: "index_inv ?n (done_chunks (ds_store s)) (ds_next s) (trouble (ds_failure s) ?ws) ?ws"
    "holding_inv (rc_evp x) (dc_manifest (rc_config x)) (done_chunks (ds_store s)) ?ws"
    "flag_inv ?n (ds_next s) (ds_failed s) (ds_failure s) ?ws"
    using inv by (simp_all add: workers_inv_def Let_def)
  have tr: "trouble failure (?ws[w := pc])" if "trouble (ds_failure s) ?ws"
  proof (cases "failing (?ws ! w)")
    case True
    then show ?thesis using t by (simp add: trouble_def)
  next
    case False
    from trouble_keep [OF that w(1) this, of pc] fl(3) show ?thesis by (auto simp: trouble_def)
  qed
  have "index_inv ?n (done_chunks (ds_store s)) (ds_next s) (trouble failure (?ws[w := pc])) (?ws[w := pc])"
    by (rule index_keep [OF I(1) w held tr])
  moreover have "holding_inv (rc_evp x) (dc_manifest (rc_config x)) (done_chunks (ds_store s)) (?ws[w := pc])"
    by (rule holding_keep [OF I(2)]) (use f h in auto)
  moreover have "flag_inv ?n (ds_next s) failed failure ?ws" using I(3) fl by (auto simp: flag_inv_def)
  then have "flag_inv ?n (ds_next s) failed failure (?ws[w := pc])" by (rule flag_keep) (use r st in auto)
  ultimately show ?thesis using inv s' by (simp add: workers_inv_def Let_def)
qed

text \<open>A worker that lets go of an index, because it is done or because of a failure.\<close>

lemma workers_inv_drop:
  assumes inv: "workers_inv x k s" and w: "w < length (ds_workers s)"
    and held: "held_index (ds_workers s ! w) = [i]" "held_index pc = []" "pc \<noteq> Returned" "pc \<noteq> Setting_failed"
    and d: "done_chunks (ds_store s) \<subseteq> done_chunks (ds_store s')" "done_chunks (ds_store s') \<subseteq> insert i (done_chunks (ds_store s))"
      "i \<in> done_chunks (ds_store s') \<or> failing pc"
    and backed: "store_backed (rc_evp x) (dc_manifest (rc_config x)) (partial_path (rc_config x)) (ds_fs s') (ds_store s')"
    and s': "ds_next s' = ds_next s" "ds_failed s' = ds_failed s" "ds_failure s' = ds_failure s"
      "ds_workers s' = (ds_workers s)[w := pc]"
  shows "workers_inv x k s'"
proof -
  let ?n = "length (chunk_hashes (dc_manifest (rc_config x)))" and ?ws = "ds_workers s"
  have I: "index_inv ?n (done_chunks (ds_store s)) (ds_next s) (trouble (ds_failure s) ?ws) ?ws"
    "holding_inv (rc_evp x) (dc_manifest (rc_config x)) (done_chunks (ds_store s)) ?ws"
    "flag_inv ?n (ds_next s) (ds_failed s) (ds_failure s) ?ws" "length ?ws = k"
    using inv by (simp_all add: workers_inv_def Let_def)
  have nf: "\<not> failing (?ws ! w)" using held(1) by (cases "?ws ! w") auto
  have "failing pc \<Longrightarrow> trouble (ds_failure s) (?ws[w := pc])"
    by (cases pc) (use set_update_memI [OF w, of pc] in \<open>auto simp: trouble_def\<close>)
  then have "index_inv ?n (done_chunks (ds_store s')) (ds_next s) (trouble (ds_failure s) (?ws[w := pc])) (?ws[w := pc])"
    by (intro index_drop [OF I(1) w held(1,2) d(1)]) (use d(3) trouble_keep [OF _ w nf] in auto)
  moreover have "holding_inv (rc_evp x) (dc_manifest (rc_config x)) (done_chunks (ds_store s')) (?ws[w := pc])"
    by (rule holding_drop [OF I(2) w held(1,2) _ d(2)]) (use I(1) in \<open>simp add: index_inv_def\<close>)
  moreover have "flag_inv ?n (ds_next s) (ds_failed s) (ds_failure s) (?ws[w := pc])"
    by (rule flag_keep [OF I(3)]) (use held(3,4) in auto)
  ultimately show ?thesis using backed s' I(4) by (simp add: workers_inv_def Let_def)
qed


lemma held_bound:
  assumes "workers_inv x k s" and "w < length (ds_workers s)" and "held_index (ds_workers s ! w) = [i]"
    and "manifest_validate (dc_manifest (rc_config x)) = Inr ()"
  shows "i < rs_chunk_count (ds_store s) \<and> unat i < length (chunk_hashes (dc_manifest (rc_config x)))"
proof -
  have "i \<in> set (owned (ds_workers s))" using in_owned [OF nth_mem [OF assms(2)], of i] assms(3) by simp
  then have "unat i < length (chunk_hashes (dc_manifest (rc_config x)))"
    using assms(1) by (simp add: workers_inv_def index_inv_def Let_def)
  moreover have "store_for (dc_manifest (rc_config x)) (ds_store s)"
    using assms(1) by (simp add: workers_inv_def store_backed_def Let_def)
  ultimately show ?thesis using store_for_bound [OF assms(4)] by blast
qed

lemma workers_inv_check:
  assumes inv: "workers_inv x k s" and w: "w < length (ds_workers s)" "ds_workers s ! w = Took i"
    and valid: "manifest_validate (dc_manifest (rc_config x)) = Inr ()"
    and run: "worker_check w i s = Inr s'"
  shows "workers_inv x k s'"
proof -
  have i: "i < rs_chunk_count (ds_store s)" using held_bound [OF inv w(1) _ valid] w(2) by simp
  have backed: "store_backed (rc_evp x) (dc_manifest (rc_config x)) (partial_path (rc_config x)) (ds_fs s) (ds_store s)"
    using inv by (simp add: workers_inv_def Let_def)
  then have "wf_store (ds_store s)" by (simp add: store_backed_def store_for_def)
  from rl.query_Inr [OF this i] run have s': "s' = move_worker w (if i \<in> done_chunks (ds_store s) then At_test else Fetching i) s"
    by (auto simp: worker_check_def split: if_splits)
  show ?thesis
  proof (cases "i \<in> done_chunks (ds_store s)")
    case True
    with s' show ?thesis
      by (intro workers_inv_drop [OF inv w(1), of i At_test]) (use w(2) backed in \<open>auto simp: move_worker_def\<close>)
  next
    case False
    with s' show ?thesis
      by (intro workers_inv_keep [OF inv w(1), of "Fetching i" "ds_failed s" "ds_failure s"])
        (use w(2) inv in \<open>auto simp: move_worker_def workers_inv_def flag_inv_def Let_def\<close>)
  qed
qed

lemma workers_inv_fetched:
  assumes inv: "workers_inv x k s" and w: "w < length (ds_workers s)" "ds_workers s ! w = Fetching i"
    and b: "\<And>b. r = Inr b \<Longrightarrow> chunk_verified (rc_evp x) (dc_manifest (rc_config x)) i b"
  shows "workers_inv x k (worker_fetched w i r retries s)"
proof (cases r)
  case (Inl e)
  then show ?thesis
    by (intro workers_inv_drop [OF inv w(1), of i "Failing e"])
      (use w(2) inv in \<open>auto simp: worker_defs workers_inv_def Let_def\<close>)
next
  case (Inr bytes)
  have "i \<notin> done_chunks (ds_store s)"
    using inv w nth_mem [OF w(1)] by (auto simp: workers_inv_def holding_inv_def Let_def)
  with Inr b show ?thesis
    by (intro workers_inv_keep [OF inv w(1), of "Holding i bytes" "ds_failed s" "ds_failure s"])
      (use w(2) inv in \<open>auto simp: worker_defs workers_inv_def flag_inv_def Let_def\<close>)
qed

lemma workers_inv_written:
  assumes inv: "workers_inv x k s" and w: "w < length (ds_workers s)" "ds_workers s ! w = Holding i b"
    and valid: "manifest_validate (dc_manifest (rc_config x)) = Inr ()"
    and run: "write_verified_chunk env (partial_path (rc_config x)) (dc_manifest (rc_config x)) i b (ds_store s) (ds_fs s) =
      (r, resume, states)"
  shows "workers_inv x k (worker_written w r resume (last states) s) \<and>
    (\<forall>g\<in>set states. crash_consistent (rc_evp x) (dc_manifest (rc_config x)) (partial_path (rc_config x)) (ds_store s) g)"
proof -
  have i: "i < rs_chunk_count (ds_store s)" using held_bound [OF inv w(1) _ valid] w(2) by simp
  have hold: "i \<notin> done_chunks (ds_store s)" "chunk_verified (rc_evp x) (dc_manifest (rc_config x)) i b"
    using inv w nth_mem [OF w(1)] by (auto simp: workers_inv_def holding_inv_def Let_def)
  have backed: "store_backed (rc_evp x) (dc_manifest (rc_config x)) (partial_path (rc_config x)) (ds_fs s) (ds_store s)"
    using inv by (simp add: workers_inv_def Let_def)
  note O = write_verified_chunk_outcome [OF valid backed i hold run, unfolded chunk_write_outcome_def]
  have "workers_inv x k (worker_written w r resume (last states) s)"
    by (rule workers_inv_drop [OF inv w(1), of i "case r of Inl e \<Rightarrow> Failing e | Inr _ \<Rightarrow> Announcing"])
      (use O w(2) in \<open>auto simp: worker_defs split: sum.splits\<close>)
  with O show ?thesis by blast
qed

lemma workers_inv_flags: "workers_inv x k s \<Longrightarrow> ds_failed s \<Longrightarrow> ds_failure s \<noteq> None"
  by (simp add: workers_inv_def flag_inv_def Let_def)

lemma workers_inv_advertise:
  assumes inv: "workers_inv x k s" and w: "w < length (ds_workers s)" "ds_workers s ! w = Announcing"
  shows "workers_inv x k (worker_advertise w s)"
  by (rule workers_inv_keep [OF inv w(1), of "Advertising (resume_completed_chunks (ds_store s))" "ds_failed s" "ds_failure s"])
    (use w(2) workers_inv_flags [OF inv] in \<open>auto simp: worker_defs\<close>)

lemma workers_inv_announced:
  assumes inv: "workers_inv x k s" and w: "w < length (ds_workers s)" "ds_workers s ! w = Advertising chunks"
  shows "workers_inv x k (worker_announced w r s)"
proof -
  define pc where "pc = (case r of Inl (Filesystem_error e) \<Rightarrow> Failing (Filesystem_error e) | _ \<Rightarrow> At_test)"
  have pc: "pc = At_test \<or> failing pc" by (auto simp: pc_def split: sum.splits exc.splits)
  then have "held_index pc = []" by (cases pc) auto
  with pc show ?thesis
    by (intro workers_inv_keep [OF inv w(1), of pc "ds_failed s" "ds_failure s"])
      (use w(2) workers_inv_flags [OF inv] in \<open>auto simp: worker_announced_def move_worker_def pc_def\<close>)
qed

lemma workers_inv_record:
  assumes inv: "workers_inv x k s" and w: "w < length (ds_workers s)" "ds_workers s ! w = Failing e"
  shows "workers_inv x k (worker_record w e s)"
  by (rule workers_inv_keep [OF inv w(1), of Setting_failed "ds_failed s" "if ds_failure s = None then Some e else ds_failure s"])
    (use w(2) in \<open>auto simp: worker_defs\<close>)

lemma workers_inv_test:
  assumes inv: "workers_inv x k s" and w: "w < length (ds_workers s)" "ds_workers s ! w = At_test"
  shows "workers_inv x k (worker_test w s)"
  by (rule workers_inv_keep [OF inv w(1), of "if \<not> ds_failed s then At_take else Returned" "ds_failed s" "ds_failure s"])
    (use w(2) workers_inv_flags [OF inv] in \<open>auto simp: worker_defs split: if_splits\<close>)

lemma workers_inv_fail:
  assumes inv: "workers_inv x k s" and w: "w < length (ds_workers s)" "ds_workers s ! w = Setting_failed"
  shows "workers_inv x k (worker_fail w s)"
proof -
  have "Setting_failed \<in> set (ds_workers s)" using nth_mem [OF w(1)] w(2) by simp
  then have "ds_failure s \<noteq> None" using inv by (simp add: workers_inv_def flag_inv_def Let_def)
  then show ?thesis
    by (intro workers_inv_keep [OF inv w(1), of Returned True "ds_failure s"]) (use w(2) in \<open>auto simp: worker_defs\<close>)
qed

lemma workers_inv_step:
  assumes "worker_step x s states s'" and inv: "workers_inv x k s"
    and valid: "manifest_validate (dc_manifest (rc_config x)) = Inr ()"
    and small: "length (chunk_hashes (dc_manifest (rc_config x))) + k < 2 ^ 32"
  shows "workers_inv x k s' \<and>
    (\<forall>g\<in>set states. crash_consistent (rc_evp x) (dc_manifest (rc_config x)) (partial_path (rc_config x)) (ds_store s) g)"
  using assms(1) inv
proof (cases rule: worker_step.cases)
  case (Test w)
  then show ?thesis using workers_inv_test [OF inv Test(3,4)] by simp
next
  case (Take w)
  then show ?thesis using workers_inv_take [OF inv Take(3,4) small] by simp
next
  case (Check w index)
  then show ?thesis using workers_inv_check [OF inv Check(2,3) valid] by simp
next
  case (Fetch w index nets j t r retries j' t')
  have "chunk_verified (rc_evp x) (dc_manifest (rc_config x)) index b" if "r = Inr b" for b
    using Fetch(5) that unfolding fetch_with_retry_def by (auto dest: retry_loop_verified)
  from workers_inv_fetched [OF inv Fetch(3,4) this] Fetch(1,2) show ?thesis by simp
next
  case (Write w index b env r resume)
  then show ?thesis using workers_inv_written [OF inv Write(2,3) valid Write(4)] by simp
next
  case (Advertise w)
  then show ?thesis using workers_inv_advertise [OF inv Advertise(3,4)] by simp
next
  case (Announce w chunks net t r c t')
  then show ?thesis using workers_inv_announced [OF inv Announce(3,4)] by simp
next
  case (Record w e)
  then show ?thesis using workers_inv_record [OF inv Record(3,4)] by simp
next
  case (Fail w)
  then show ?thesis using workers_inv_fail [OF inv Fail(3,4)] by simp
qed

lemma mark_complete_frame:
  "resume_mark_complete i s = Inr s' \<Longrightarrow>
     rs_path s' = rs_path s \<and> rs_swarm_id s' = rs_swarm_id s \<and> rs_chunk_count s' = rs_chunk_count s"
  using mark_cases [of i s s'] by auto

lemma write_chunk_frame:
  assumes "write_verified_chunk env p m i b s f = (r, s', states)"
  shows "rs_path s' = rs_path s \<and> rs_swarm_id s' = rs_swarm_id s \<and> rs_chunk_count s' = rs_chunk_count s"
  using assms
proof (cases rule: write_verified_chunk_cases)
  case (flushed ofs ds s1 fstates)
  then show ?thesis using mark_complete_frame resume_flush_store by metis
qed simp_all

lemma worker_step_frame:
  assumes "worker_step x s states s'"
  shows "rs_path (ds_store s') = rs_path (ds_store s) \<and> rs_swarm_id (ds_store s') = rs_swarm_id (ds_store s) \<and>
    rs_chunk_count (ds_store s') = rs_chunk_count (ds_store s) \<and> length (ds_workers s') = length (ds_workers s)"
  using assms
proof (cases rule: worker_step.cases)
  case (Write w index b env r resume)
  then show ?thesis using write_chunk_frame [OF Write(4)] by (simp add: worker_defs)
qed (auto simp: worker_defs Let_def result_simps)

lemma worker_run_inv:
  assumes "worker_run x s n states s'" and "workers_inv x k s"
    and "manifest_validate (dc_manifest (rc_config x)) = Inr ()"
    and "length (chunk_hashes (dc_manifest (rc_config x))) + k < 2 ^ 32"
  shows "workers_inv x k s' \<and>
    (\<forall>g\<in>set states. crash_consistent (rc_evp x) (dc_manifest (rc_config x)) (partial_path (rc_config x)) (ds_store s) g) \<and>
    rs_path (ds_store s') = rs_path (ds_store s) \<and> rs_swarm_id (ds_store s') = rs_swarm_id (ds_store s) \<and>
    rs_chunk_count (ds_store s') = rs_chunk_count (ds_store s)"
  using assms
proof (induction rule: worker_run.induct)
  case (Run_step n states s1 states' s2)
  then have IH: "workers_inv x k s1"
    "\<forall>g\<in>set states. crash_consistent (rc_evp x) (dc_manifest (rc_config x)) (partial_path (rc_config x)) (ds_store s) g"
    and frame: "rs_path (ds_store s1) = rs_path (ds_store s)" "rs_swarm_id (ds_store s1) = rs_swarm_id (ds_store s)"
    "rs_chunk_count (ds_store s1) = rs_chunk_count (ds_store s)" by auto
  note S = workers_inv_step [OF Run_step.hyps(2) IH(1) Run_step.prems(2,3)]
  have "\<forall>g\<in>set states'. crash_consistent (rc_evp x) (dc_manifest (rc_config x)) (partial_path (rc_config x)) (ds_store s) g"
    using S crash_cong [OF frame] by blast
  with S IH(2) frame worker_step_frame [OF Run_step.hyps(2)] show ?case by auto
qed simp

text \<open>The bytes of the chunks of the store stay synced, and the resume file claims only synced chunks.\<close>

definition store_synced :: "'c run_context \<Rightarrow> download_state \<Rightarrow> bool" where
  "store_synced x s \<longleftrightarrow>
     (\<forall>i\<in>done_chunks (ds_store s). chunk_synced (dc_manifest (rc_config x)) (partial_path (rc_config x)) (ds_fs s) i)"

lemma worker_step_synced:
  assumes "worker_step x s states s'" and inv: "workers_inv x k s"
    and valid: "manifest_validate (dc_manifest (rc_config x)) = Inr ()" and synced: "store_synced x s"
  shows "(\<forall>g\<in>set states. \<forall>i\<in>claimed g (ds_store s). chunk_synced (dc_manifest (rc_config x)) (partial_path (rc_config x)) g i) \<and>
    store_synced x s'"
  using assms(1)
proof (cases rule: worker_step.cases)
  case (Write w i b env r resume)
  have i: "i < rs_chunk_count (ds_store s)" using held_bound [OF inv Write(2) _ valid] Write(3) by simp
  have hold: "i \<notin> done_chunks (ds_store s)" "chunk_verified (rc_evp x) (dc_manifest (rc_config x)) i b"
    using inv Write(3) nth_mem [OF Write(2)] by (auto simp: workers_inv_def holding_inv_def Let_def)
  have "store_backed (rc_evp x) (dc_manifest (rc_config x)) (partial_path (rc_config x)) (ds_fs s) (ds_store s)"
    using inv by (simp add: workers_inv_def Let_def)
  from write_chunk_synced [OF valid this i hold Write(4)] synced Write(1) show ?thesis
    by (simp add: store_synced_def worker_defs)
qed (use synced in \<open>auto simp: store_synced_def worker_defs Let_def result_simps\<close>)

lemma worker_run_synced:
  assumes "worker_run x s n states s'" and "workers_inv x k s"
    and "manifest_validate (dc_manifest (rc_config x)) = Inr ()"
    and "length (chunk_hashes (dc_manifest (rc_config x))) + k < 2 ^ 32" and "store_synced x s"
  shows "(\<forall>g\<in>set states. \<forall>i\<in>claimed g (ds_store s). chunk_synced (dc_manifest (rc_config x)) (partial_path (rc_config x)) g i) \<and>
    store_synced x s'"
  using assms
proof (induction rule: worker_run.induct)
  case (Run_step n states s1 states' s2)
  note I = worker_run_inv [OF Run_step.hyps(1) Run_step.prems(1-3)]
  then have inv: "workers_inv x k s1" by blast
  have "store_synced x s1" using Run_step by blast
  from worker_step_synced [OF Run_step.hyps(2) inv Run_step.prems(2) this] I claimed_cong [of "ds_store s1" "ds_store s"]
  have "(\<forall>g\<in>set states'. \<forall>i\<in>claimed g (ds_store s). chunk_synced (dc_manifest (rc_config x)) (partial_path (rc_config x)) g i) \<and>
    store_synced x s2" by simp
  then show ?case using Run_step by auto
qed simp

lemma owned_start [simp]: "owned (replicate k At_test) = []"
  by (induction k) (auto simp: owned_def)

lemma workers_inv_start:
  assumes "store_backed (rc_evp x) (dc_manifest (rc_config x)) (partial_path (rc_config x)) f resume"
  shows "workers_inv x (unat (dc_worker_count (rc_config x))) (workers_start (rc_config x) resume f)"
  using assms
  by (auto simp: workers_inv_def workers_start_def index_inv_def holding_inv_def flag_inv_def Let_def)

text \<open>When all workers have returned without a failure, everything is done.\<close>

lemma all_returned_complete:
  assumes inv: "workers_inv x k s" and valid: "manifest_validate (dc_manifest (rc_config x)) = Inr ()"
    and "0 < k" and all: "set (ds_workers s) \<subseteq> {Returned}" and ok: "ds_failure s = None"
  shows "resume_all_complete (ds_store s)"
proof -
  let ?n = "length (chunk_hashes (dc_manifest (rc_config x)))"
  have I: "index_inv ?n (done_chunks (ds_store s)) (ds_next s) (trouble (ds_failure s) (ds_workers s)) (ds_workers s)"
    "flag_inv ?n (ds_next s) (ds_failed s) (ds_failure s) (ds_workers s)" "length (ds_workers s) = k"
    "store_for (dc_manifest (rc_config x)) (ds_store s)"
    using inv by (simp_all add: workers_inv_def store_backed_def Let_def)
  have "ds_workers s \<noteq> []" using I(3) \<open>0 < k\<close> by auto
  then have "Returned \<in> set (ds_workers s)" using all by (cases "ds_workers s") auto
  with I(2) ok have next': "?n < unat (ds_next s)" by (auto simp: flag_inv_def)
  have "\<not> trouble (ds_failure s) (ds_workers s)" using all ok by (auto simp: trouble_def)
  moreover have "owned (ds_workers s) = []" using all by (auto simp: owned_def)
  ultimately have "i \<in> done_chunks (ds_store s)" if "unat i < ?n" for i
    using I(1) that next' by (auto simp: index_inv_def word_less_nat_alt)
  then have "done_chunks (ds_store s) = {i. i < rs_chunk_count (ds_store s)}"
    using store_for_bound [OF valid I(4)] by (auto simp: done_chunks_def)
  then show ?thesis using rl.everything_iff I(4) by (simp add: store_for_def)
qed

section \<open>Termination\<close>

fun step_rank :: "dworker \<Rightarrow> nat" where
  "step_rank (Took i) = 8"
| "step_rank (Fetching i) = 7"
| "step_rank (Holding i b) = 6"
| "step_rank Announcing = 5"
| "step_rank (Advertising chunks) = 4"
| "step_rank At_test = 3"
| "step_rank At_take = 2"
| "step_rank (Failing e) = 2"
| "step_rank Setting_failed = 1"
| "step_rank Returned = 0"

definition work_left :: "nat \<Rightarrow> download_state \<Rightarrow> nat" where
  "work_left n s = 7 * (n + length (ds_workers s) - unat (ds_next s)) + sum_list (map step_rank (ds_workers s))"

lemma rank_update:
  assumes "w < length ws"
  shows "sum_list (map step_rank (ws[w := pc])) + step_rank (ws ! w) = sum_list (map step_rank ws) + step_rank pc"
proof -
  have ws: "ws = take w ws @ ws ! w # drop (Suc w) ws" using assms by (rule id_take_nth_drop)
  have upd: "ws[w := pc] = take w ws @ pc # drop (Suc w) ws" using assms by (rule upd_conv_take_nth_drop)
  have "sum_list (map step_rank ws) =
      sum_list (map step_rank (take w ws)) + step_rank (ws ! w) + sum_list (map step_rank (drop (Suc w) ws))"
    by (subst ws) simp
  then show ?thesis unfolding upd by simp
qed

lemma work_left_move:
  assumes "w < length (ds_workers s)" and "step_rank pc < step_rank (ds_workers s ! w)"
    and "ds_workers s' = (ds_workers s)[w := pc]" and "ds_next s' = ds_next s"
  shows "work_left n s' < work_left n s"
  using rank_update [OF assms(1), of pc] assms(2-4) by (simp add: work_left_def)

lemma work_left_step:
  assumes step: "worker_step x s states s'" and inv: "workers_inv x k s"
    and small: "length (chunk_hashes (dc_manifest (rc_config x))) + k < 2 ^ 32"
  shows "work_left (length (chunk_hashes (dc_manifest (rc_config x)))) s' <
    work_left (length (chunk_hashes (dc_manifest (rc_config x)))) s"
  using step
proof (cases rule: worker_step.cases)
  case (Take w)
  let ?n = "length (chunk_hashes (dc_manifest (rc_config x)))" and ?i = "ds_next s"
  let ?pc = "if unat ?i \<ge> ?n then Returned else Took ?i"
  have k: "length (ds_workers s) = k" "unat ?i \<le> ?n + finished (ds_workers s)"
    using inv by (simp_all add: workers_inv_def index_inv_def Let_def)
  have fin: "finished (ds_workers s) < length (ds_workers s)" by (rule finished_less [OF Take(3)]) (use Take(4) in simp)
  then have "unat (?i + 1) = unat ?i + 1" by (rule unat_next [OF k(2)]) (use small k(1) in simp)
  moreover have "sum_list (map step_rank ((ds_workers s)[w := ?pc])) + 2 \<le> sum_list (map step_rank (ds_workers s)) + 8"
    using rank_update [OF Take(3), of ?pc] Take(4) by (auto split: if_splits)
  ultimately show ?thesis
    using fin k(2) by (simp add: Take(2) work_left_def worker_take_def move_worker_def Let_def)
next
  case (Check w index)
  then show ?thesis
    by (auto simp: worker_defs result_simps intro!: work_left_move [OF Check(2)] split: if_splits)
qed (auto simp: worker_defs intro!: work_left_move split: sum.splits exc.splits)

lemma worker_can_step:
  assumes inv: "workers_inv x k s" and valid: "manifest_validate (dc_manifest (rc_config x)) = Inr ()"
    and w: "w < length (ds_workers s)" "ds_workers s ! w \<noteq> Returned"
  shows "\<exists>states s'. worker_step x s states s'"
proof (cases "ds_workers s ! w")
  case (Took i)
  have "i < rs_chunk_count (ds_store s)" using held_bound [OF inv w(1) _ valid] Took by simp
  then have "resume_complete i (ds_store s) = Inr (rs_completed (ds_store s) ! unat i)"
    by (simp add: resume_complete_def resume_check_index_def)
  then show ?thesis using worker_step.Check [OF w(1) Took] by (auto simp: worker_check_def)
next
  case (Fetching i)
  obtain r retries k' t' where "fetch_with_retry (rc_evp x) (rc_tracker x) (rc_config x) (rc_swarm_id x) i
      (\<lambda>_ _. Inr []) (ds_retries s) 0 undefined = (r, retries, k', t')" by (metis prod_cases4)
  then show ?thesis using worker_step.Fetch [OF w(1) Fetching] by blast
next
  case (Holding i b)
  obtain r resume states where "write_verified_chunk undefined (partial_path (rc_config x)) (dc_manifest (rc_config x)) i b
      (ds_store s) (ds_fs s) = (r, resume, states)" by (metis prod_cases3)
  then show ?thesis using worker_step.Write [OF w(1) Holding] by blast
next
  case (Advertising chunks)
  obtain r c t' where "announce_current (rc_tracker x) (rc_config x) (rc_swarm_id x) (rc_port x) chunks (resume_all_complete (ds_store s))
      (\<lambda>_. Inr []) undefined = (r, c, t')" by (metis prod_cases3)
  then show ?thesis using worker_step.Announce [OF w(1) Advertising] by blast
qed (use w worker_step.intros [OF w(1)] in auto)

lemma worker_run_bound:
  assumes "worker_run x s n states s'" and "workers_inv x k s"
    and "manifest_validate (dc_manifest (rc_config x)) = Inr ()"
    and "length (chunk_hashes (dc_manifest (rc_config x))) + k < 2 ^ 32"
  shows "n + work_left (length (chunk_hashes (dc_manifest (rc_config x)))) s' \<le>
    work_left (length (chunk_hashes (dc_manifest (rc_config x)))) s"
  using assms
proof (induction rule: worker_run.induct)
  case (Run_step n states s1 states' s2)
  have "workers_inv x k s1" using worker_run_inv [OF Run_step.hyps(1) Run_step.prems] by simp
  from work_left_step [OF Run_step.hyps(2) this Run_step.prems(3)] Run_step.IH [OF Run_step.prems] show ?case by simp
qed simp

lemma work_left_start:
  "work_left n (workers_start config resume f) = 7 * n + 10 * unat (dc_worker_count config)"
  by (simp add: work_left_def workers_start_def sum_list_replicate)

text \<open>
  C8. The worker threads finish (\<^verbatim>\<open>DownloadCoordinator::run\<close>): from a store that the partial file backs, every run of the
  threads has at most seven steps for each chunk and ten for each worker, and as long as some worker
  has not returned a step is possible, whatever the network and the file system answer. So the
  threads can be joined. The index counter does not come round as long as workers and chunks together
  are fewer than \<open>2 ^ 32\<close>.
\<close>

theorem workers_terminate:
  assumes "validate_config (rc_config x) = Inr ()"
    and "store_backed (rc_evp x) (dc_manifest (rc_config x)) (partial_path (rc_config x)) f resume"
    and "length (chunk_hashes (dc_manifest (rc_config x))) + unat (dc_worker_count (rc_config x)) < 2 ^ 32"
    and "worker_run x (workers_start (rc_config x) resume f) n states s"
  shows "n \<le> 7 * length (chunk_hashes (dc_manifest (rc_config x))) + 10 * unat (dc_worker_count (rc_config x)) \<and>
    (set (ds_workers s) \<subseteq> {Returned} \<or> (\<exists>states' s'. worker_step x s states' s'))"
proof -
  have valid: "manifest_validate (dc_manifest (rc_config x)) = Inr ()"
    using assms(1) by (auto simp: validate_config_def result_simps)
  note start = workers_inv_start [OF assms(2)]
  have "n \<le> 7 * length (chunk_hashes (dc_manifest (rc_config x))) + 10 * unat (dc_worker_count (rc_config x))"
    using worker_run_bound [OF assms(4) start valid assms(3)] by (simp add: work_left_start)
  moreover have "\<exists>states' s'. worker_step x s states' s'" if "\<not> set (ds_workers s) \<subseteq> {Returned}"
  proof -
    from that obtain w where "w < length (ds_workers s)" "ds_workers s ! w \<noteq> Returned"
      by (metis in_set_conv_nth singletonI subsetI)
    then show ?thesis using worker_can_step [OF _ valid] worker_run_inv [OF assms(4) start valid assms(3)] by blast
  qed
  ultimately show ?thesis by blast
qed

text \<open>
  C3. The threads never corrupt a download, and they complete it or report a failure
  (\<^verbatim>\<open>DownloadCoordinator::run\<close>): in every interleaving of the workers, after whatever
  the network and the system calls answered, every chunk of the store is intact in the partial file and the
  resume file claims only chunks of the store; in all intermediate states of the file system, the
  resume file can be read and each chunk that it claims is intact; no two workers hold the same chunk; and when
  all workers have returned without a recorded failure, all chunks are complete. When the bytes of the chunks
  of the store were synced at the start, the resume file claims in every state only chunks whose bytes are
  synced, so that the power may fail as well.
\<close>

theorem workers_keep_download_intact:
  assumes "validate_config (rc_config x) = Inr ()"
    and "store_backed (rc_evp x) (dc_manifest (rc_config x)) (partial_path (rc_config x)) f resume"
    and "length (chunk_hashes (dc_manifest (rc_config x))) + unat (dc_worker_count (rc_config x)) < 2 ^ 32"
    and "worker_run x (workers_start (rc_config x) resume f) n states s"
  shows "(\<forall>i\<in>done_chunks (ds_store s). file_has (rc_evp x) (dc_manifest (rc_config x)) (file_data (ds_fs s) (partial_path (rc_config x))) i) \<and>
    claimed (ds_fs s) (ds_store s) \<subseteq> done_chunks (ds_store s) \<and>
    (\<forall>g\<in>set states. partial_ok (dc_manifest (rc_config x)) (partial_path (rc_config x)) g \<and> loadable g resume \<and>
       (\<forall>i\<in>claimed g resume. file_has (rc_evp x) (dc_manifest (rc_config x)) (file_data g (partial_path (rc_config x))) i)) \<and>
    distinct (owned (ds_workers s)) \<and>
    (set (ds_workers s) \<subseteq> {Returned} \<longrightarrow> ds_failure s = None \<longrightarrow> resume_all_complete (ds_store s)) \<and>
    ((\<forall>i\<in>done_chunks resume. chunk_synced (dc_manifest (rc_config x)) (partial_path (rc_config x)) f i) \<longrightarrow>
       (\<forall>g\<in>set states. \<forall>i\<in>claimed g resume. chunk_synced (dc_manifest (rc_config x)) (partial_path (rc_config x)) g i))"
proof -
  have valid: "manifest_validate (dc_manifest (rc_config x)) = Inr ()" and "0 < dc_worker_count (rc_config x)"
    using assms(1) by (auto simp: validate_config_def result_simps word_gt_0 split: if_splits)
  then have pos: "0 < unat (dc_worker_count (rc_config x))" by (simp add: unat_gt_0 word_gt_0)
  note R = worker_run_inv [OF assms(4) workers_inv_start [OF assms(2)] valid assms(3)]
  then have inv: "workers_inv x (unat (dc_worker_count (rc_config x))) s" by blast
  then have "store_backed (rc_evp x) (dc_manifest (rc_config x)) (partial_path (rc_config x)) (ds_fs s) (ds_store s)"
    "distinct (owned (ds_workers s))" by (simp_all add: workers_inv_def index_inv_def Let_def)
  moreover have "\<forall>g\<in>set states. crash_consistent (rc_evp x) (dc_manifest (rc_config x)) (partial_path (rc_config x)) resume g"
    using R by (simp add: workers_start_def)
  moreover note worker_run_synced [OF assms(4) workers_inv_start [OF assms(2)] valid assms(3), unfolded store_synced_def]
  ultimately show ?thesis
    using all_returned_complete [OF inv valid pos] by (simp add: store_backed_def crash_consistent_def workers_start_def)
qed

section \<open>The prepared download\<close>

text \<open>The three paths of a download differ in their last characters.\<close>

lemma path_append_suffix: "\<exists>q. path_append p s = q @ s"
  by (auto simp: path_append_def intro: exI [of _ "p @ [CHR ''/'']"])

lemma path_append_last: "s \<noteq> [] \<Longrightarrow> last (path_append p s) = last s"
  by (simp add: path_append_def)

lemma path_filename_last: "p \<noteq> [] \<Longrightarrow> last p \<noteq> CHR ''/'' \<Longrightarrow> path_filename p \<noteq> []"
  by (cases p rule: rev_cases) (simp_all add: path_filename_def)

lemma last_neq: "last a \<noteq> last b \<Longrightarrow> a \<noteq> b"
  by auto

lemma download_paths:
  "partial_path config \<noteq> resume_path config swarm_id" "partial_path config \<noteq> resume_path config swarm_id @ ''.tmp''"
  "path_filename (resume_path config swarm_id) \<noteq> []"
proof -
  have l: "last (partial_path config) = CHR ''t''" "last (resume_path config swarm_id) = CHR ''e''"
    "last (resume_path config swarm_id @ ''.tmp'') = CHR ''p''"
    by (simp_all add: partial_path_def resume_path_def path_append_last)
  show "partial_path config \<noteq> resume_path config swarm_id" "partial_path config \<noteq> resume_path config swarm_id @ ''.tmp''"
    by (rule last_neq, simp only: l, simp)+
  have "resume_path config swarm_id \<noteq> []" by (simp add: resume_path_def path_append_def)
  with l(2) show "path_filename (resume_path config swarm_id) \<noteq> []" by (intro path_filename_last) simp_all
qed

lemma partial_not_final: "partial_path config \<noteq> final_path config"
proof -
  have "length (partial_path config) = length (final_path config) + 5"
    by (simp add: partial_path_def final_path_def path_append_def)
  then show ?thesis by auto
qed

lemma swarm_text: "manifest_swarm_id evp m = Inr swarm_id \<Longrightarrow> text_id swarm_id"
proof -
  assume "manifest_swarm_id evp m = Inr swarm_id"
  then obtain t where "sha256_hex evp t = Inr swarm_id" by (auto simp: manifest_swarm_id_def result_simps)
  then have "is_sha256_hex swarm_id" by (rule sha256_hex_is_hex)
  then show ?thesis using sha256_hex_text by (auto simp: text_id_def is_sha256_hex_def)
qed

lemma flush_published:
  assumes "wf_store s" "text_id (rs_swarm_id s)" "path_filename (rs_path s) \<noteq> []" "rs_dirty s"
    and "resume_flush env s f = (Inr (), s', states)"
    and "\<not> unreadable f (rs_path s)" "fault_at f (rs_path s) = None"
    and "p \<noteq> rs_path s" "p \<noteq> rs_path s @ ''.tmp''" "nodes f p \<noteq> None"
  shows "states \<noteq> [] \<and> claimed (last states) s = done_chunks s \<and> loadable (last states) s \<and> nodes (last states) p = nodes f p \<and>
    unreadable (last states) = unreadable f \<and> fault_at (last states) = fault_at f"
proof -
  have w: "write_atomic env f (rs_path s) (resume_serialize s) = (Inr (), states)"
    using assms(4,5) by (auto simp: resume_flush_def flush_begin_def split: prod.splits sum.splits)
  note W = write_atomic_states [OF assms(3) w]
  have ne: "states \<noteq> []" using W by blast
  then have last: "last states \<in> set states" by simp
  have env: "unreadable (last states) = unreadable f" "fault_at (last states) = fault_at f" using W last by blast+
  have "nodes (last states) (rs_path s) = Some (Regular (resume_serialize s))" using W by blast
  then have "claimed (last states) s = done_chunks s \<and> loadable (last states) s"
    by (rule claimed_written [OF assms(1-3)]) (use env assms(6,7) in simp_all)
  moreover have "nodes (last states) p = nodes f p" using W last assms(8-10) by blast
  ultimately show ?thesis using env ne by simp
qed

lemma revalidate_backed:
  assumes valid: "manifest_validate m = Inr ()"
    and load: "resume_load_or_create f saved swarm_id (of_nat (length (chunk_hashes m))) = Inr resume"
    and sha: "\<And>b. \<exists>h. sha256_hex evp b = Inr h" and disk: "partial_ok m p f"
    and paths: "p \<noteq> saved" "p \<noteq> saved @ ''.tmp''" "path_filename saved \<noteq> []" "text_id swarm_id"
    and plain: "\<not> unreadable f saved" "fault_at f saved = None"
    and run: "revalidate_completed_chunks evp env p m resume f = (Inr (), s', states)"
  shows "store_backed evp m p (last states) s' \<and> claimed (last states) s' = done_chunks s' \<and>
    done_chunks s' = {i \<in> done_chunks resume. file_has evp m (file_data f p) i} \<and>
    nodes (last states) p = nodes f p \<and> rs_path s' = saved \<and> rs_swarm_id s' = swarm_id \<and> states \<noteq> []"
proof -
  have r: "rs_path resume = saved" "rs_swarm_id resume = swarm_id" "store_for m resume"
    using load_or_create_Inr [OF load] load_or_create_wf [OF load] by (simp_all add: store_for_def)
  obtain s2 where s2: "store_for m s2" "done_chunks s2 = {i \<in> done_chunks resume. file_has evp m (file_data f p) i}"
    "rs_path s2 = saved" "rs_swarm_id s2 = swarm_id" "rs_chunk_count s2 = rs_chunk_count resume"
    and flow: "(s2 = resume \<and> s' = resume \<and> (Inr () :: unit result) = Inr () \<and> states = [f]) \<or> (rs_dirty s2 \<and> done_chunks s2 \<noteq> done_chunks resume \<and> resume_flush env s2 f = (Inr (), s', states))"
    by (rule revalidate_runs [OF valid r(3) sha disk run, unfolded r(1,2)])
  have loaded: "claimed f resume = done_chunks resume" "loadable f resume"
    using load load_or_create_Inr [OF load] by (simp_all add: claimed_def loadable_def)
  have main: "states \<noteq> [] \<and> claimed (last states) s2 = done_chunks s2 \<and> loadable (last states) s2 \<and> nodes (last states) p = nodes f p \<and>
      unreadable (last states) = unreadable f \<and> fault_at (last states) = fault_at f"
    using flow
  proof (elim disjE conjE)
    assume "s2 = resume" "states = [f]"
    then show ?thesis using loaded by simp
  next
    assume dirty: "rs_dirty s2" and flush: "resume_flush env s2 f = (Inr (), s', states)"
    have "nodes f p \<noteq> None" using disk by (auto simp: partial_ok_def)
    then show ?thesis
      by (intro flush_published [OF _ _ _ dirty flush])
        (use s2 paths plain in \<open>simp_all add: store_for_def del: append_Cons append.simps\<close>)
  qed
  have same: "rs_path s' = saved" "rs_swarm_id s' = swarm_id" "rs_chunk_count s' = rs_chunk_count s2" "rs_completed s' = rs_completed s2"
    using flow r s2(3,4) resume_flush_store [of env s2 f "Inr ()" s' states] by auto
  have eq: "done_chunks s' = done_chunks s2" "wf_store s' = wf_store s2" using done_chunks_cong [OF same(4,3)] by simp_all
  have claims: "claimed (last states) s' = claimed (last states) s2 \<and> loadable (last states) s' = loadable (last states) s2"
    by (rule claimed_cong) (use same s2(3,4) in simp_all)
  have "file_data (last states) p = file_data f p" using main by (simp add: file_data_def)
  then have "store_backed evp m p (last states) s'"
    unfolding store_backed_def paths_apart_def store_for_def partial_ok_def
    using main claims eq same s2 disk paths plain by (simp add: store_for_def partial_ok_def)
  then show ?thesis using main claims eq same s2(2) by simp
qed

definition plain :: "fs \<Rightarrow> path \<Rightarrow> bool" where
  "plain f p \<longleftrightarrow> \<not> unreadable f p \<and> fault_at f p = None \<and> (\<forall>d. nodes f p = Some (Regular d) \<longrightarrow> length d < 2 ^ 64)"

lemma path_append_longer: "s \<noteq> [] \<Longrightarrow> length p < length (path_append p s)"
  by (simp add: path_append_def)

lemma make_directories_frame:
  assumes "make_directories injected p f = (Inr (), f')"
  shows "unreadable f' = unreadable f \<and> fault_at f' = fault_at f \<and> (\<forall>q. length p < length q \<longrightarrow> nodes f' q = nodes f q)"
  using assms nodes_create_directories
  by (auto simp: make_directories_def create_directories_def dest: dir_prefixes_length split: option.splits)

lemma prepare_partial_ok:
  assumes "prepare_partial_file env p (file_size_bytes m) f = (Inr (), f1)" and "plain f p"
  shows "partial_ok m p f1 \<and> (\<forall>q. q \<noteq> p \<longrightarrow> nodes f1 q = nodes f q) \<and> (fs_exists f p \<longrightarrow> f1 = f) \<and>
    unreadable f1 = unreadable f \<and> fault_at f1 = fault_at f"
proof (cases "fs_exists f p")
  case True
  with assms(1) have f1: "f1 = f" "is_regular_file f p" "file_size f p = file_size_bytes m"
    by (auto simp: prepare_partial_file_def split: if_splits)
  then obtain d where d: "nodes f p = Some (Regular d)" by (auto simp: is_regular_file_def)
  with assms(2) have "length d < 2 ^ 64" by (simp add: plain_def)
  with f1(3) d have "length d = unat (file_size_bytes m)"
    by (simp add: file_size_def unat_of_nat take_bit_nat_eq_self flip: f1(3))
  with d f1(1) assms(2) show ?thesis by (simp add: partial_ok_def plain_def)
next
  case False
  with assms(1) have "f1 = write_node f p (replicate (unat (file_size_bytes m)) (CHR 0x00))"
    by (auto simp: prepare_partial_file_def split: if_splits)
  with False assms(2) show ?thesis by (auto simp: partial_ok_def plain_def node_simps)
qed

text \<open>What can be said of the file system when the preparation reaches the resume state.\<close>

lemma prepared_flow:
  assumes run: "run_prepare evp env config f = (Prepared s, states)"
  obtains swarm_id f0 f1 resume states' where "manifest_swarm_id evp (dc_manifest config) = Inr swarm_id"
    and "make_directories (ru_mkdir env) (dc_output_directory config) f = (Inr (), f0)"
    and "\<not> fs_exists f0 (final_path config)"
    and "fs_exists f0 (resume_path config swarm_id) \<longrightarrow> fs_exists f0 (partial_path config)"
    and "prepare_partial_file (ru_sizing env) (partial_path config) (file_size_bytes (dc_manifest config)) f0 = (Inr (), f1)"
    and "resume_load_or_create f1 (resume_path config swarm_id) swarm_id (of_nat (length (chunk_hashes (dc_manifest config)))) = Inr resume"
    and "revalidate_completed_chunks evp (ru_revalidate env) (partial_path config) (dc_manifest config) resume f1 = (Inr (), s, states')"
    and "states = f0 # f1 # states'"
  using run unfolding run_prepare_def open_download_def Let_def
  by (auto split: sum.splits prod.splits if_splits)

lemma prepared_backed:
  assumes config: "validate_config config = Inr ()" and sha: "\<And>b. \<exists>h. sha256_hex evp b = Inr h"
    and swarm: "manifest_swarm_id evp (dc_manifest config) = Inr swarm_id"
    and plain: "plain f (partial_path config)" "plain f (resume_path config swarm_id)"
    and run: "run_prepare evp env config f = (Prepared s, states)"
  shows "store_backed evp (dc_manifest config) (partial_path config) (last states) s \<and>
    done_chunks s = {i \<in> claimed f s. file_has evp (dc_manifest config) (file_data f (partial_path config)) i} \<and>
    claimed (last states) s = done_chunks s \<and> rs_path s = resume_path config swarm_id \<and> rs_swarm_id s = swarm_id \<and>
    \<not> fs_exists f (final_path config)"
proof -
  let ?m = "dc_manifest config" and ?p = "partial_path config" and ?saved = "resume_path config swarm_id"
  have valid: "manifest_validate ?m = Inr ()" using config by (auto simp: validate_config_def result_simps)
  obtain f0 f1 resume states' where
    dirs: "make_directories (ru_mkdir env) (dc_output_directory config) f = (Inr (), f0)"
    and final: "\<not> fs_exists f0 (final_path config)" and both: "fs_exists f0 ?saved \<longrightarrow> fs_exists f0 ?p"
    and part: "prepare_partial_file (ru_sizing env) ?p (file_size_bytes ?m) f0 = (Inr (), f1)"
    and load: "resume_load_or_create f1 ?saved swarm_id (of_nat (length (chunk_hashes ?m))) = Inr resume"
    and reval: "revalidate_completed_chunks evp (ru_revalidate env) ?p ?m resume f1 = (Inr (), s, states')"
    and states: "states = f0 # f1 # states'"
    by (rule prepared_flow [OF run]) (use swarm in auto)
  have "file_name ?m \<noteq> []" using valid by (simp add: manifest_validate_Inr safe_file_name_def)
  then have longer: "length (dc_output_directory config) < length ?p" "length (dc_output_directory config) < length ?saved"
    "length (dc_output_directory config) < length (final_path config)"
    by (simp_all add: partial_path_def resume_path_def final_path_def path_append_longer)
  note F0 = make_directories_frame [OF dirs]
  have at0: "nodes f0 ?p = nodes f ?p" "nodes f0 ?saved = nodes f ?saved" "nodes f0 (final_path config) = nodes f (final_path config)"
    using F0 longer by blast+
  have "plain f0 ?p" using plain(1) F0 at0(1) by (simp add: plain_def)
  note F1 = prepare_partial_ok [OF part this]
  note paths = download_paths [of config swarm_id]
  have at1: "nodes f1 ?saved = nodes f ?saved" "unreadable f1 = unreadable f" "fault_at f1 = fault_at f"
    using F1 F0 at0(2) paths(1) by auto
  have B: "store_backed evp ?m ?p (last states') s \<and> claimed (last states') s = done_chunks s \<and>
      done_chunks s = {i \<in> done_chunks resume. file_has evp ?m (file_data f1 ?p) i} \<and>
      nodes (last states') ?p = nodes f1 ?p \<and> rs_path s = ?saved \<and> rs_swarm_id s = swarm_id \<and> states' \<noteq> []"
    by (rule revalidate_backed [OF valid load sha _ paths(1-3) swarm_text [OF swarm] _ _ reval])
      (use F1 at1 plain(2) in \<open>auto simp: plain_def\<close>)
  then have count: "rs_chunk_count s = of_nat (length (chunk_hashes ?m))" by (simp add: store_backed_def store_for_def)
  have last: "last states = last states'" using B by (simp add: states)
  have claims: "claimed f s = done_chunks resume"
    using load B count load_or_create_local [OF at1(1)] at1(2,3) by (simp add: claimed_def)
  have "done_chunks resume = {}" if "\<not> fs_exists f0 ?p"
  proof -
    have "rs_dirty resume" using load_or_create_Inr [OF load] that both at0(2) at1(1) by (auto simp: fs_exists_def)
    then have "rs_completed resume = replicate (unat (rs_chunk_count resume)) False" using load_or_create_Inr [OF load] by simp
    then show ?thesis by (simp add: done_chunks_def word_less_nat_alt)
  qed
  moreover have "file_data f1 ?p = file_data f ?p" if "fs_exists f0 ?p" using F1 that at0(1) by (simp add: file_data_def)
  ultimately have "done_chunks s = {i \<in> claimed f s. file_has evp ?m (file_data f ?p) i}"
    using B claims by (cases "fs_exists f0 ?p") simp_all
  with B last final at0(3) show ?thesis by (simp add: fs_exists_def)
qed

text \<open>
  C20. A download resumes with exactly the chunks that are good (\<^verbatim>\<open>DownloadCoordinator::run\<close> before its threads):
  when the preparation goes on to the threads, the chunks it keeps are those that the resume file
  claimed and whose bytes in the partial file still hash to the manifest's digests; the resume
  file then claims exactly these, the partial file has the manifest's size, and no final file exists.
\<close>

theorem prepare_resumes_exactly:
  assumes "validate_config config = Inr ()" and "evp_computes evp H"
    and "manifest_swarm_id evp (dc_manifest config) = Inr swarm_id"
    and "plain f (partial_path config)" and "plain f (resume_path config swarm_id)"
    and "run_prepare evp env config f = (Prepared s, states)"
  shows "done_chunks s = {i \<in> claimed f s. hex_encode (H (chunk_bytes (dc_manifest config) (file_data f (partial_path config)) (unat i))) =
      chunk_hashes (dc_manifest config) ! unat i} \<and>
    store_backed evp (dc_manifest config) (partial_path config) (last states) s \<and>
    claimed (last states) s = done_chunks s \<and> partial_ok (dc_manifest config) (partial_path config) (last states) \<and>
    \<not> fs_exists f (final_path config)"
proof -
  have sha: "sha256_hex evp b = Inr (hex_encode (H b))" for b using assms(2) by (rule sha256_hex_computes)
  then have "\<exists>h. sha256_hex evp b = Inr h" for b by blast
  note B = prepared_backed [OF assms(1) this assms(3-6)]
  then have "partial_ok (dc_manifest config) (partial_path config) (last states)" by (simp add: store_backed_def)
  with B sha show ?thesis by (simp add: file_has_def)
qed

section \<open>The final file\<close>

lemma write_atomic_frame:
  assumes "write_atomic env f p content = (r, states)"
    and q: "q \<noteq> p" "q \<noteq> p @ ''.tmp''" "length (path_parent p) < length q"
  shows "\<forall>g\<in>set states. nodes g q = nodes f q"
proof -
  define tmp where "tmp = p @ ''.tmp''"
  define f1 where "f1 = (if path_parent p \<noteq> [] then create_directories f (path_parent p) else f)"
  have q': "q \<noteq> tmp" "tmp \<noteq> p" using q(2) by (simp_all add: tmp_def)
  have f1: "nodes f1 q = nodes f q" using q(3) by (simp add: f1_def nodes_create_directories)
  obtain r' t where pub: "atomic_publish env (write_node f1 tmp []) p tmp content = (r', t)" by fastforce
  note P = atomic_publish_trace [OF pub q'(2)]
  have t: "\<forall>g\<in>set t. nodes g q = nodes f q"
  proof (cases "r' = Inr ()")
    case True
    with P obtain t' where "t = t' @ [rename_node (sync_node (write_node (write_node f1 tmp []) tmp content) tmp) tmp p]"
      "\<forall>h\<in>set t'. only_written (write_node f1 tmp []) tmp h" by auto
    then show ?thesis using f1 q(1) q' by (auto simp: node_simps only_written_facts)
  next
    case False
    with P have "\<forall>h\<in>set t. only_written (write_node f1 tmp []) tmp h" by blast
    then show ?thesis using f1 q'(1) by (auto simp: node_simps only_written_facts)
  qed
  have "set states \<subseteq> {f, f1, write_node f1 tmp [], remove_node (last t) tmp} \<union> set t"
    using assms(1) unfolding write_atomic_def Let_def f1_def [symmetric] tmp_def [symmetric] pub
    by (auto split: option.splits sum.splits)
  moreover have "nodes (last t) q = nodes f q" using t P by simp
  ultimately show ?thesis using t f1 q'(1) by (auto simp: node_simps)
qed

lemma resume_flush_frame:
  assumes "resume_flush env s f = (r, s', states)"
    and "q \<noteq> rs_path s" "q \<noteq> rs_path s @ ''.tmp''" "length (path_parent (rs_path s)) < length q"
  shows "\<forall>g\<in>set states. nodes g q = nodes f q"
proof (cases "rs_dirty s")
  case True
  then have "write_atomic env f (rs_path s) (resume_serialize s) = (r, states)"
    using assms(1) by (auto simp: resume_flush_def flush_begin_def split: prod.splits sum.splits)
  from write_atomic_frame [OF this assms(2-4)] show ?thesis .
next
  case False
  with assms(1) show ?thesis by (auto simp: resume_flush_def flush_begin_def)
qed

lemma write_chunk_other:
  assumes "write_verified_chunk env p m i b s f = (r, s', states)" and "q \<noteq> p"
    and "q \<noteq> rs_path s" "q \<noteq> rs_path s @ ''.tmp''" "length (path_parent (rs_path s)) < length q"
  shows "\<forall>g\<in>set states. nodes g q = nodes f q"
proof -
  have W: "\<forall>g\<in>set (written f p ds). nodes g q = nodes f q" for ds
    using assms(2) by (auto simp: node_simps)
  then have last: "nodes (last (written f p ds)) q = nodes f q" for ds
    by (metis last_in_set list.distinct(1))
  show ?thesis
    using assms(1)
  proof (cases rule: write_verified_chunk_cases)
    case (flushed ofs ds s1 fstates)
    have "rs_path s1 = rs_path s" using mark_complete_frame [OF flushed(3)] by simp
    with resume_flush_frame [OF flushed(4), of q] assms(3-5) last [of ds]
    have "\<forall>g\<in>set fstates. nodes g q = nodes f q" by simp
    with W [of ds] last [of ds] show ?thesis unfolding flushed(5) by auto
  next
    case (unmarked ofs ds e)
    show ?thesis unfolding unmarked(5) using W [of ds] last [of ds] by auto
  qed (use W in auto)
qed

lemma write_starts_here: "write_verified_chunk env p m i b s f = (r, s', states) \<Longrightarrow> f \<in> set states"
  by (erule write_verified_chunk_cases) simp_all

lemma length_strip: "length (rev (dropWhile P (rev xs))) \<le> length xs"
  by (metis length_dropWhile_le length_rev)

lemma parent_of_append:
  assumes "s \<noteq> []" and "CHR ''/'' \<notin> set s"
  shows "length (path_parent (path_append p s)) \<le> length p"
proof -
  have tw: "takeWhile (\<lambda>c. c \<noteq> CHR ''/'') (rev s @ CHR ''/'' # xs) = rev s" for xs
    using assms(2) by (auto simp: takeWhile_tail)
  have tw0: "takeWhile (\<lambda>c. c \<noteq> CHR ''/'') (rev s) = rev s"
    using assms(2) by (auto simp: takeWhile_eq_all_conv)
  show ?thesis
  proof (cases "path_filename p = []")
    case True
    then have "p = [] \<or> last p = CHR ''/''"
      by (cases p rule: rev_cases) (auto simp: path_filename_def split: if_splits)
    then have file': "path_filename (p @ s) = s"
    proof
      assume "p = []"
      then show ?thesis by (simp only: path_filename_def append_Nil tw0 rev_rev_ident)
    next
      assume l: "last p = CHR ''/''"
      show ?thesis
      proof (cases p rule: rev_cases)
        case Nil
        then show ?thesis by (simp only: path_filename_def append_Nil tw0 rev_rev_ident)
      next
        case (snoc q c)
        with l tw [of "rev q"] show ?thesis by (simp add: path_filename_def)
      qed
    qed
    have "length (rev (dropWhile (\<lambda>c. c = CHR ''/'') (rev p))) \<le> length p" by (rule length_strip)
    with file' True show ?thesis by (auto simp: path_append_def path_parent_def Let_def Suc_le_eq)
  next
    case False
    then have app: "path_append p s = (p @ ''/'') @ s" by (simp add: path_append_def)
    have "path_filename ((p @ ''/'') @ s) = s" using tw [of "rev p"] by (simp add: path_filename_def)
    moreover have "length (rev (dropWhile (\<lambda>c. c = CHR ''/'') (rev (p @ ''/'')))) \<le> length p"
      using length_strip [of "\<lambda>c. c = CHR ''/''" p] by simp
    moreover have "p \<noteq> []" using False by (auto simp: path_filename_def)
    ultimately show ?thesis unfolding app path_parent_def Let_def by (auto simp: Suc_le_eq)
  qed
qed

text \<open>The final path differs from the resume file and its temporary file, and no directory is made for it.\<close>

definition final_apart :: "download_config \<Rightarrow> path \<Rightarrow> bool" where
  "final_apart config saved \<longleftrightarrow> final_path config \<noteq> saved \<and> final_path config \<noteq> saved @ ''.tmp'' \<and>
     length (path_parent saved) < length (final_path config)"

lemma path_append_inject: "path_append p s = path_append p t \<longleftrightarrow> s = t"
  by (simp add: path_append_def)

lemma path_append_append: "path_append p s @ t = path_append p (s @ t)"
  by (simp add: path_append_def)

lemma final_apart_names:
  assumes "manifest_validate (dc_manifest config) = Inr ()" and "manifest_swarm_id evp (dc_manifest config) = Inr swarm_id"
    and "file_name (dc_manifest config) \<notin> {swarm_id @ ''.resume'', swarm_id @ ''.resume.tmp''}"
  shows "final_apart config (resume_path config swarm_id)"
proof -
  have "is_sha256_hex swarm_id" using swarm_id_atom [OF assms(2)] by simp
  then have "CHR ''/'' \<notin> set (swarm_id @ ''.resume'')"
    by (auto simp: is_sha256_hex_def is_lower_hex_def list_all_iff)
  then have "length (path_parent (resume_path config swarm_id)) \<le> length (dc_output_directory config)"
    unfolding resume_path_def by (intro parent_of_append) simp_all
  also have "\<dots> < length (final_path config)"
    using assms(1) by (simp add: final_path_def path_append_longer manifest_validate_Inr safe_file_name_def)
  finally show ?thesis
    using assms(3) by (simp add: final_apart_def final_path_def resume_path_def path_append_append path_append_inject)
qed

lemma flush_final:
  assumes "resume_flush env s f = (r, s', states)" and "final_apart config (rs_path s)"
  shows "\<forall>g\<in>set states. nodes g (final_path config) = nodes f (final_path config)"
  using resume_flush_frame [OF assms(1)] assms(2) unfolding final_apart_def by blast

lemma revalidate_chunk_path:
  "rfold (revalidate_chunk evp input m) is (s, ch) = Inr (s', ch') \<Longrightarrow> rs_path s' = rs_path s"
proof (induction "is" arbitrary: s ch)
  case (Cons i "is")
  then obtain s1 ch1 where one: "revalidate_chunk evp input m i (s, ch) = Inr (s1, ch1)"
    and rest: "rfold (revalidate_chunk evp input m) is (s1, ch1) = Inr (s', ch')"
    by (auto simp: result_simps)
  have "rs_path s1 = rs_path s" using one mark_cases [of i s s1]
    by (auto simp: revalidate_chunk_def result_simps split: if_splits)
  then show ?case using Cons.IH [OF rest] by simp
qed simp

lemma revalidate_final:
  assumes "revalidate_completed_chunks evp env p m s f = (r, s', states)" and "final_apart config (rs_path s)"
  shows "\<forall>g\<in>set states. nodes g (final_path config) = nodes f (final_path config)"
proof -
  have "states = [f] \<or> (\<exists>s2. resume_flush env s2 f = (r, s', states) \<and> rs_path s2 = rs_path s)"
    using assms(1) by (auto simp: revalidate_completed_chunks_def Let_def dest: revalidate_chunk_path
        split: if_splits option.splits sum.splits prod.splits)
  then show ?thesis using flush_final [of env _ f r s' states config] assms(2) by auto
qed

lemma prepare_partial_final:
  assumes "prepare_partial_file env (partial_path config) size' f = (r, f1)"
  shows "nodes f1 (final_path config) = nodes f (final_path config)"
  using assms partial_not_final [of config]
  by (auto simp: prepare_partial_file_def node_simps split: if_splits)

lemma open_download_final:
  assumes "open_download evp env config swarm_id f = (r, states)" and "final_apart config (resume_path config swarm_id)"
  shows "\<forall>g\<in>set states. nodes g (final_path config) = nodes f (final_path config)"
proof -
  let ?m = "dc_manifest config" and ?p = "partial_path config" and ?saved = "resume_path config swarm_id"
  obtain x f1 where part: "prepare_partial_file (ru_sizing env) ?p (file_size_bytes ?m) f = (x, f1)" by fastforce
  have f1: "nodes f1 (final_path config) = nodes f (final_path config)" by (rule prepare_partial_final [OF part])
  have "set states \<subseteq> {f, f1} \<or> (\<exists>resume y s' states'. resume_load_or_create f1 ?saved swarm_id (of_nat (length (chunk_hashes ?m))) = Inr resume \<and>
      revalidate_completed_chunks evp (ru_revalidate env) ?p ?m resume f1 = (y, s', states') \<and> states = f # f1 # states')"
    using assms(1) unfolding open_download_def Let_def part
    by (auto split: if_splits sum.splits prod.splits)
  then show ?thesis
  proof
    assume "set states \<subseteq> {f, f1}"
    then show ?thesis using f1 by auto
  next
    assume "\<exists>resume y s' states'. resume_load_or_create f1 ?saved swarm_id (of_nat (length (chunk_hashes ?m))) = Inr resume \<and>
      revalidate_completed_chunks evp (ru_revalidate env) ?p ?m resume f1 = (y, s', states') \<and> states = f # f1 # states'"
    then obtain resume y s' states' where load: "resume_load_or_create f1 ?saved swarm_id (of_nat (length (chunk_hashes ?m))) = Inr resume"
      and run: "revalidate_completed_chunks evp (ru_revalidate env) ?p ?m resume f1 = (y, s', states')"
      and st: "states = f # f1 # states'" by blast
    have "final_apart config (rs_path resume)" using load_or_create_Inr [OF load] assms(2) by simp
    from revalidate_final [OF run this] f1 show ?thesis by (simp add: st)
  qed
qed

lemma run_prepare_final:
  assumes "run_prepare evp env config f = (r, states)" and "manifest_validate (dc_manifest config) = Inr ()"
    and "manifest_swarm_id evp (dc_manifest config) = Inr swarm_id" and "final_apart config (resume_path config swarm_id)"
  shows "states \<noteq> [] \<and> (\<forall>g\<in>set states. nodes g (final_path config) = nodes f (final_path config))"
proof -
  obtain x f0 where dirs: "make_directories (ru_mkdir env) (dc_output_directory config) f = (x, f0)" by fastforce
  have ne: "states \<noteq> []" using assms(1) unfolding run_prepare_def open_download_def Let_def
    by (auto split: sum.splits prod.splits if_splits)
  show ?thesis
  proof (cases x)
    case (Inl e)
    then have "f0 = f" using dirs by (auto simp: make_directories_def split: option.splits)
    with Inl dirs assms(1,3) show ?thesis by (auto simp: run_prepare_def)
  next
    case (Inr u)
    have "length (dc_output_directory config) < length (final_path config)"
      using assms(2) by (simp add: final_path_def path_append_longer manifest_validate_Inr safe_file_name_def)
    then have "nodes f0 (final_path config) = nodes f (final_path config)"
      using make_directories_frame dirs Inr by auto
    moreover have run0: "open_download evp env config swarm_id f0 = (r, states)"
      using assms(1,3) dirs Inr by (simp add: run_prepare_def)
    ultimately show ?thesis using open_download_final [OF run0 assms(4)] ne by auto
  qed
qed

lemma worker_step_final:
  assumes "worker_step x s states s'" and "final_apart (rc_config x) (rs_path (ds_store s))"
  shows "(\<forall>g\<in>set states. nodes g (final_path (rc_config x)) = nodes (ds_fs s) (final_path (rc_config x))) \<and>
    nodes (ds_fs s') (final_path (rc_config x)) = nodes (ds_fs s) (final_path (rc_config x))"
  using assms(1)
proof (cases rule: worker_step.cases)
  case (Write w index b env r resume)
  have "\<forall>g\<in>set states. nodes g (final_path (rc_config x)) = nodes (ds_fs s) (final_path (rc_config x))"
    using write_chunk_other [OF Write(4)] partial_not_final [of "rc_config x"] assms(2) by (simp add: final_apart_def)
  moreover have "states \<noteq> []" using write_starts_here [OF Write(4)] by auto
  ultimately show ?thesis using Write(1) by (simp add: worker_defs)
qed (auto simp: worker_defs Let_def result_simps)

lemma worker_run_final:
  assumes "worker_run x s n states s'" and "final_apart (rc_config x) (rs_path (ds_store s))"
  shows "(\<forall>g\<in>set states. nodes g (final_path (rc_config x)) = nodes (ds_fs s) (final_path (rc_config x))) \<and>
    nodes (ds_fs s') (final_path (rc_config x)) = nodes (ds_fs s) (final_path (rc_config x)) \<and>
    rs_path (ds_store s') = rs_path (ds_store s)"
  using assms
proof (induction rule: worker_run.induct)
  case (Run_step n states s1 states' s2)
  with worker_step_final [OF Run_step.hyps(2)] worker_step_frame [OF Run_step.hyps(2)] show ?case by auto
qed simp

text \<open>Only a regular file has a digest.\<close>

lemma sha256_file_Regular:
  assumes evp: "evp_computes evp H" and digest: "sha256_file evp f p = Inr h" and "\<not> unreadable f p"
  shows "\<exists>d. nodes f p = Some (Regular d) \<and> h = hex_encode (H d)"
proof (cases "nodes f p")
  case None
  with digest show ?thesis by (simp add: sha256_file_def open_in_def)
next
  case (Some node)
  show ?thesis
  proof (cases node)
    case (Regular d)
    with Some have nd: "nodes f p = Some (Regular d)" by simp
    have "fault_at f p = None"
      using sha256_file_correct [OF evp nd assms(3)] digest by (cases "fault_at f p") auto
    with sha256_file_plain [OF evp nd assms(3)] sha256_hex_computes [OF evp, of d] digest nd show ?thesis by simp
  next
    case Directory
    define i where "i = (stream_of [])\<lparr>in_fault := True\<rparr>"
    have i: "open_in f p = Some i" "stream_good i" "in_fault i"
      using Some Directory assms(3) by (simp_all add: open_in_def i_def stream_good_def stream_ok_def stream_of_def)
    with digest show ?thesis
      using hash_stream_fault by (fastforce simp: sha256_file_def result_simps split: if_splits)
  next
    case Special
    with Some digest show ?thesis by (simp add: sha256_file_def open_in_def)
  qed
qed

text \<open>What may stand at the final path.\<close>

definition final_ok :: "download_config \<Rightarrow> (bytes \<Rightarrow> bytes) \<Rightarrow> fs \<Rightarrow> bool" where
  "final_ok config H g \<longleftrightarrow> (\<exists>d. nodes g (final_path config) = Some (Regular d) \<and> hex_encode (H d) = file_sha256 (dc_manifest config))"

lemma flush_readable:
  assumes "resume_flush env s f = (r, s', states)" and "path_filename (rs_path s) \<noteq> []"
  shows "states \<noteq> [] \<and> (\<forall>g\<in>set states. unreadable g = unreadable f)"
proof (cases "rs_dirty s")
  case True
  then have "write_atomic env f (rs_path s) (resume_serialize s) = (r, states)"
    using assms(1) by (auto simp: resume_flush_def flush_begin_def split: prod.splits sum.splits)
  from write_atomic_states [OF assms(2) this] show ?thesis by blast
next
  case False
  with assms(1) show ?thesis by (auto simp: resume_flush_def flush_begin_def)
qed

lemma run_finish_final:
  assumes evp: "evp_computes evp H" and apart: "final_apart config (rs_path resume)"
    and readable: "\<not> unreadable f (partial_path config)" and name: "path_filename (rs_path resume) \<noteq> []"
    and run: "run_finish evp env config resume f = (r, resume', states)"
  shows "states \<noteq> [] \<and> (\<forall>g\<in>set states. nodes g (final_path config) = nodes f (final_path config) \<or> final_ok config H g) \<and>
    (\<forall>p. r = Inr p \<longrightarrow> p = final_path config \<and> final_ok config H (last states)) \<and> rs_path resume' = rs_path resume"
proof (cases "resume_all_complete resume")
  case False
  with run show ?thesis by (auto simp: run_finish_def)
next
  case True
  let ?p = "partial_path config" and ?final = "final_path config"
  obtain r1 resume1 fstates where flush: "resume_flush (ru_flush env) resume f = (r1, resume1, fstates)" by (metis prod_cases3)
  note keep = flush_final [OF flush apart] and R = flush_readable [OF flush name]
  have path: "rs_path resume1 = rs_path resume" using resume_flush_store [OF flush] by simp
  define f1 where "f1 = last fstates"
  have f1: "\<not> unreadable f1 ?p" using R readable by (simp add: f1_def)
  show ?thesis
  proof (cases "states = fstates")
    case True
    then have "\<forall>p. r \<noteq> Inr p" and "resume' = resume1"
      using run \<open>resume_all_complete resume\<close> unfolding run_finish_def flush Let_def
      by (auto split: sum.splits if_splits option.splits)
    with True keep R path show ?thesis by auto
  next
    case False
    define f2 where "f2 = rename_node f1 ?p ?final"
    define f3 where "f3 = (if ru_remove env = None then remove_node f2 (rs_path resume1) else f2)"
    from False have ok: "sha256_file evp f1 ?p = Inr (file_sha256 (dc_manifest config))"
      and st: "states = fstates @ [f2, f3]" "r = Inr ?final" "resume' = resume1"
      using run \<open>resume_all_complete resume\<close> unfolding run_finish_def flush Let_def f3_def f2_def f1_def
      by (auto simp: result_simps split: sum.splits if_splits option.splits prod.splits)
    obtain d where d: "nodes f1 ?p = Some (Regular d)" "file_sha256 (dc_manifest config) = hex_encode (H d)"
      using sha256_file_Regular [OF evp ok f1] by blast
    have "nodes f2 ?final = Some (Regular d)"
      using d(1) partial_not_final [of config] by (simp add: f2_def nodes_rename_node)
    moreover have "?final \<noteq> rs_path resume1" using apart path by (simp add: final_apart_def)
    ultimately have "final_ok config H f2" "final_ok config H f3"
      using d(2) by (simp_all add: final_ok_def f3_def nodes_remove_node)
    with st keep path show ?thesis by auto
  qed
qed

lemma run_recover_final:
  assumes "run_recover env e resume f = (e', resume', states)" and "final_apart config (rs_path resume)"
    and "path_filename (rs_path resume) \<noteq> []"
  shows "states \<noteq> [] \<and> (\<forall>g\<in>set states. nodes g (final_path config) = nodes f (final_path config))"
proof -
  obtain r s' where flush: "resume_flush (ru_recover env) resume f = (r, s', states)"
    using assms(1) unfolding run_recover_def by (auto split: prod.splits sum.splits exc.splits)
  from flush_final [OF flush assms(2)] flush_readable [OF flush assms(3)] show ?thesis by simp
qed

lemma run_conclude_final:
  assumes evp: "evp_computes evp H" and apart: "final_apart config (rs_path (ds_store s))"
    and readable: "\<not> unreadable (ds_fs s) (partial_path config)" and name: "path_filename (rs_path (ds_store s)) \<noteq> []"
    and run: "run_conclude evp env config s = (r, resume', states)"
  shows "states \<noteq> [] \<and>
    (\<forall>g\<in>set states. nodes g (final_path config) = nodes (ds_fs s) (final_path config) \<or> final_ok config H g) \<and>
    (\<forall>res. r = Inr res \<longrightarrow> dr_final_path res = final_path config \<and> final_ok config H (last states))"
proof -
  obtain r1 resume1 st where first: "(case ds_failure s of Some e \<Rightarrow> (Inl e, ds_store s, [ds_fs s])
      | None \<Rightarrow> run_finish evp env config (ds_store s) (ds_fs s)) = (r1, resume1, st)" by (metis prod_cases3)
  have F: "st \<noteq> [] \<and> (\<forall>g\<in>set st. nodes g (final_path config) = nodes (ds_fs s) (final_path config) \<or> final_ok config H g) \<and>
      (\<forall>p. r1 = Inr p \<longrightarrow> p = final_path config \<and> final_ok config H (last st)) \<and> rs_path resume1 = rs_path (ds_store s)"
  proof (cases "ds_failure s")
    case None
    with first run_finish_final [OF evp apart readable name] show ?thesis by simp
  next
    case (Some e)
    with first show ?thesis by auto
  qed
  show ?thesis
  proof (cases r1)
    case (Inr p)
    with run first F show ?thesis by (auto simp: run_conclude_def)
  next
    case (Inl e)
    obtain e' resume2 st' where rec: "run_recover env e resume1 (last st) = (e', resume2, st')" by (metis prod_cases3)
    with run first Inl have r: "r = Inl e'" "states = st @ st'" by (auto simp: run_conclude_def)
    have "st' \<noteq> [] \<and> (\<forall>g\<in>set st'. nodes g (final_path config) = nodes (last st) (final_path config))"
      by (rule run_recover_final [OF rec]) (use apart name F in simp_all)
    moreover have "nodes (last st) (final_path config) = nodes (ds_fs s) (final_path config) \<or> final_ok config H (last st)"
      using F by simp
    ultimately show ?thesis using F r by (auto simp: final_ok_def)
  qed
qed

lemma final_kept:
  "\<forall>g\<in>set states. nodes g (final_path config) = nodes f (final_path config) \<or> final_ok config H g \<Longrightarrow>
   \<forall>g\<in>set states'. nodes g (final_path config) = nodes f' (final_path config) \<or> final_ok config H g \<Longrightarrow>
   nodes f' (final_path config) = nodes f (final_path config) \<Longrightarrow>
   \<forall>g\<in>set (states @ states'). nodes g (final_path config) = nodes f (final_path config) \<or> final_ok config H g"
  by auto

lemma threads_final:
  assumes config: "validate_config config = Inr ()" and evp: "evp_computes evp H"
    and swarm: "manifest_swarm_id evp (dc_manifest config) = Inr swarm_id"
    and small: "length (chunk_hashes (dc_manifest config)) + unat (dc_worker_count config) < 2 ^ 32"
    and apart: "final_apart config (resume_path config swarm_id)"
    and backed: "store_backed evp (dc_manifest config) (partial_path config) g0 resume"
    and path: "rs_path resume = resume_path config swarm_id"
    and x: "rc_evp x = evp" "rc_config x = config"
    and run: "worker_run x (workers_start config resume g0) n states s"
    and fin: "run_conclude evp env config s = (r, resume', states')"
  shows "states' \<noteq> [] \<and>
    (\<forall>g\<in>set (states @ states'). nodes g (final_path config) = nodes g0 (final_path config) \<or> final_ok config H g) \<and>
    (\<forall>res. r = Inr res \<longrightarrow> dr_final_path res = final_path config \<and> final_ok config H (last states'))"
proof -
  have valid: "manifest_validate (dc_manifest config) = Inr ()" using config by (auto simp: validate_config_def result_simps)
  have "workers_inv x (unat (dc_worker_count config)) (workers_start config resume g0)"
    using workers_inv_start [of x g0 resume] backed x by simp
  from worker_run_inv [OF run this] have inv: "workers_inv x (unat (dc_worker_count config)) s"
    using valid small x by simp
  have start: "rs_path (ds_store (workers_start config resume g0)) = resume_path config swarm_id"
    "ds_fs (workers_start config resume g0) = g0"
    using path by (simp_all add: workers_start_def)
  have W: "(\<forall>g\<in>set states. nodes g (final_path config) = nodes g0 (final_path config)) \<and>
      nodes (ds_fs s) (final_path config) = nodes g0 (final_path config) \<and> rs_path (ds_store s) = resume_path config swarm_id"
    using worker_run_final [OF run] apart start x by simp
  have C: "states' \<noteq> [] \<and>
      (\<forall>g\<in>set states'. nodes g (final_path config) = nodes (ds_fs s) (final_path config) \<or> final_ok config H g) \<and>
      (\<forall>res. r = Inr res \<longrightarrow> dr_final_path res = final_path config \<and> final_ok config H (last states'))"
    by (rule run_conclude_final [OF evp _ _ _ fin])
      (use W apart inv x download_paths(3) in \<open>simp_all add: workers_inv_def store_backed_def partial_ok_def Let_def\<close>)
  then have "\<forall>g\<in>set (states @ states'). nodes g (final_path config) = nodes g0 (final_path config) \<or> final_ok config H g"
    by (intro final_kept) (use W in auto)
  with C show ?thesis by blast
qed

lemma download_run_final:
  assumes config: "validate_config config = Inr ()" and evp: "evp_computes evp H"
    and swarm: "manifest_swarm_id evp (dc_manifest config) = Inr swarm_id"
    and name: "file_name (dc_manifest config) \<notin> {swarm_id @ ''.resume'', swarm_id @ ''.resume.tmp''}"
    and small: "length (chunk_hashes (dc_manifest config)) + unat (dc_worker_count config) < 2 ^ 32"
    and plain: "plain f (partial_path config)" "plain f (resume_path config swarm_id)" "plain f (final_path config)"
    and run: "download_run evp env config f r states"
  shows "(\<forall>g\<in>set states. nodes g (final_path config) = nodes f (final_path config) \<or> final_ok config H g) \<and>
    (\<forall>res. r = Inr res \<longrightarrow> dr_final_path res = final_path config \<and> final_ok config H (last states))"
proof -
  have valid: "manifest_validate (dc_manifest config) = Inr ()" using config by (auto simp: validate_config_def result_simps)
  have apart: "final_apart config (resume_path config swarm_id)" by (rule final_apart_names [OF valid swarm name])
  note prep = run_prepare_final [OF _ valid swarm apart]
  have sha: "\<exists>h. sha256_hex evp b = Inr h" for b using sha256_hex_computes [OF evp] by blast
  note backed = prepared_backed [OF config sha swarm plain(1,2)]
  show ?thesis using run
  proof (cases rule: download_run.cases)
    case (Unprepared e)
    then show ?thesis using prep [OF Unprepared(2)] by auto
  next
    case (Present p)
    obtain f0 where f0: "p = final_path config" "states = [f0]" "sha256_file evp f0 (final_path config) = Inr (file_sha256 (dc_manifest config))"
      "unreadable f0 = unreadable f"
      using Present(2) swarm unfolding run_prepare_def open_download_def Let_def
      by (auto dest!: make_directories_frame split: sum.splits prod.splits if_splits)
    have "final_ok config H f0"
      using sha256_file_Regular [OF evp f0(3)] f0(4) plain(3) by (auto simp: final_ok_def plain_def)
    with Present(1) f0(1,2) show ?thesis by simp
  next
    case (No_peer_server resume lookup sockname t e)
    then show ?thesis using prep [OF No_peer_server(2)] by auto
  next
    case (No_tracker resume states1 lookup sockname t listener swarm_id' net t' e e' resume' states2)
    have path: "rs_path resume = resume_path config swarm_id" using backed [OF No_tracker(3)] by simp
    have "\<forall>g\<in>set states2. nodes g (final_path config) = nodes (last states1) (final_path config)"
      using run_recover_final [OF No_tracker(7), of config] apart path download_paths(3) by simp
    then show ?thesis using prep [OF No_tracker(3)] No_tracker(1,2) by auto
  next
    case (Threads resume states1 lookup sockname t listener swarm_id' net t' tracker listen_port n states2 s resume' states3)
    note B = backed [OF Threads(2)]
    have same: "nodes (last states1) (final_path config) = nodes f (final_path config)" using prep [OF Threads(2)] by simp
    have T: "states3 \<noteq> [] \<and>
      (\<forall>g\<in>set (states2 @ states3). nodes g (final_path config) = nodes (last states1) (final_path config) \<or> final_ok config H g) \<and>
      (\<forall>res. r = Inr res \<longrightarrow> dr_final_path res = final_path config \<and> final_ok config H (last states3))"
      by (rule threads_final [OF config evp swarm small apart _ _ _ _ Threads(6,8)]) (use B in simp_all)
    then have "\<forall>g\<in>set (states1 @ states2 @ states3). nodes g (final_path config) = nodes f (final_path config) \<or> final_ok config H g"
      using prep [OF Threads(2)] same by auto
    with T Threads(1) show ?thesis by simp
  qed
qed

text \<open>
  C1. Nothing unverified appears under the final name (\<^verbatim>\<open>DownloadCoordinator::run\<close>): whatever the network, the
  tracker, the peers and the system calls do, in every state of the file system during a run the final
  path has what it had before the run or a file whose SHA-256 is the manifest's; and when the
  run returns a result, the final path it names has such a file. Two file names are excluded, which a
  manifest could only have if its digest contained itself.
\<close>

theorem download_run_verified:
  assumes config: "validate_config config = Inr ()" and evp: "evp_computes evp H"
    and swarm: "manifest_swarm_id evp (dc_manifest config) = Inr swarm_id"
    and name: "file_name (dc_manifest config) \<notin> {swarm_id @ ''.resume'', swarm_id @ ''.resume.tmp''}"
    and small: "length (chunk_hashes (dc_manifest config)) + unat (dc_worker_count config) < 2 ^ 32"
    and plain: "plain f (partial_path config)" "plain f (resume_path config swarm_id)" "plain f (final_path config)"
    and run: "download_run evp env config f r states"
  shows "(\<forall>g\<in>set states. nodes g (final_path config) = nodes f (final_path config) \<or>
      (\<exists>d. nodes g (final_path config) = Some (Regular d) \<and> hex_encode (H d) = file_sha256 (dc_manifest config))) \<and>
    (\<forall>res. r = Inr res \<longrightarrow> dr_final_path res = final_path config \<and>
      (\<exists>d. nodes (last states) (final_path config) = Some (Regular d) \<and> hex_encode (H d) = file_sha256 (dc_manifest config)))"
  using download_run_final [OF assms] by (simp add: final_ok_def)

section \<open>Restarting after a crash\<close>

lemma revalidate_nothing_lost:
  assumes "manifest_validate m = Inr ()" and "store_for m resume" and "\<And>b. \<exists>h. sha256_hex evp b = Inr h"
    and "partial_ok m p f" and "\<forall>i\<in>done_chunks resume. file_has evp m (file_data f p) i"
  shows "revalidate_completed_chunks evp env p m resume f = (Inr (), resume, [f])"
proof -
  obtain r s' states where run: "revalidate_completed_chunks evp env p m resume f = (r, s', states)" by (metis prod_cases3)
  obtain s2 where "done_chunks s2 = {i \<in> done_chunks resume. file_has evp m (file_data f p) i}"
    and "(s2 = resume \<and> s' = resume \<and> r = Inr () \<and> states = [f]) \<or>
      (rs_dirty s2 \<and> done_chunks s2 \<noteq> done_chunks resume \<and> resume_flush env s2 f = (r, s', states))"
    by (rule revalidate_runs [OF assms(1-4) run])
  with assms(5) run show ?thesis by auto
qed

lemma prepare_partial_present:
  assumes "partial_ok m p f"
  shows "prepare_partial_file env p (file_size_bytes m) f = (Inr (), f)"
  using assms by (auto simp: partial_ok_def prepare_partial_file_def fs_exists_def is_regular_file_def file_size_def)

text \<open>A state that is consistent is resumed with all the chunks that it claims.\<close>

lemma consistent_resumes:
  assumes valid: "manifest_validate (dc_manifest config) = Inr ()" and sha: "\<And>b. \<exists>h. sha256_hex evp b = Inr h"
    and swarm: "manifest_swarm_id evp (dc_manifest config) = Inr swarm_id"
    and s: "rs_path s = resume_path config swarm_id" "rs_swarm_id s = swarm_id"
      "rs_chunk_count s = of_nat (length (chunk_hashes (dc_manifest config)))"
    and ok: "crash_consistent evp (dc_manifest config) (partial_path config) s g"
    and dirs: "make_directories (ru_mkdir env) (dc_output_directory config) g = (Inr (), g0)"
    and final: "\<not> fs_exists g (final_path config)"
  shows "\<exists>resume. run_prepare evp env config g = (Prepared resume, [g0, g0, g0]) \<and> done_chunks resume = claimed g s \<and>
    (rs_dirty resume \<longleftrightarrow> \<not> fs_exists g (resume_path config swarm_id))"
proof -
  let ?m = "dc_manifest config" and ?p = "partial_path config" and ?saved = "resume_path config swarm_id"
  have "file_name ?m \<noteq> []" using valid by (simp add: manifest_validate_Inr safe_file_name_def)
  then have longer: "length (dc_output_directory config) < length ?p" "length (dc_output_directory config) < length ?saved"
    "length (dc_output_directory config) < length (final_path config)"
    by (simp_all add: partial_path_def resume_path_def final_path_def path_append_longer)
  note F = make_directories_frame [OF dirs]
  have at: "nodes g0 ?p = nodes g ?p" "nodes g0 ?saved = nodes g ?saved" "nodes g0 (final_path config) = nodes g (final_path config)"
    using F longer by blast+
  have part: "partial_ok ?m ?p g0" using ok at(1) F by (simp add: crash_consistent_def partial_ok_def)
  obtain t where t: "resume_load_or_create g ?saved swarm_id (of_nat (length (chunk_hashes ?m))) = Inr t"
    using ok s by (auto simp: crash_consistent_def loadable_def)
  then have claims: "claimed g s = done_chunks t" using s by (simp add: claimed_def)
  have load: "resume_load_or_create g0 ?saved swarm_id (of_nat (length (chunk_hashes ?m))) = Inr t"
    using t load_or_create_local [OF at(2)] F by simp
  have "store_for ?m t" using load_or_create_Inr [OF t] load_or_create_wf [OF t] by (simp add: store_for_def)
  moreover have "file_data g0 ?p = file_data g ?p" using at(1) by (simp add: file_data_def)
  ultimately have reval: "revalidate_completed_chunks evp (ru_revalidate env) ?p ?m t g0 = (Inr (), t, [g0])"
    by (intro revalidate_nothing_lost [OF valid _ sha part]) (use ok claims in \<open>auto simp: crash_consistent_def\<close>)
  have "fs_exists g0 ?p" using part by (auto simp: partial_ok_def fs_exists_def)
  moreover have "\<not> fs_exists g0 (final_path config)" using final at(3) by (simp add: fs_exists_def)
  ultimately have "open_download evp env config swarm_id g0 = (Prepared t, [g0, g0, g0])"
    by (simp add: open_download_def Let_def prepare_partial_present [OF part] load reval)
  with swarm dirs claims load_or_create_Inr [OF t] show ?thesis by (simp add: run_prepare_def)
qed

text \<open>
  C2. A crash loses no finished chunk (\<^verbatim>\<open>DownloadCoordinator::run\<close>): if the process dies in any state of the file
  system that the worker threads pass through, and the program is started again with the same
  configuration and can make its output directory, the new run gets past its preparation and starts
  with exactly the chunks that the resume file claimed at the time of the crash, each of which is intact in the
  partial file.
\<close>

theorem crash_resumes_with_all_claimed:
  assumes config: "validate_config config = Inr ()" and evp: "evp_computes evp H"
    and swarm: "manifest_swarm_id evp (dc_manifest config) = Inr swarm_id"
    and name: "file_name (dc_manifest config) \<notin> {swarm_id @ ''.resume'', swarm_id @ ''.resume.tmp''}"
    and small: "length (chunk_hashes (dc_manifest config)) + unat (dc_worker_count config) < 2 ^ 32"
    and plain: "plain f (partial_path config)" "plain f (resume_path config swarm_id)"
    and first: "run_prepare evp env config f = (Prepared resume, states)"
    and x: "rc_evp x = evp" "rc_config x = config"
    and run: "worker_run x (workers_start config resume (last states)) n states' s"
    and crash: "g \<in> set states'"
    and dirs: "make_directories (ru_mkdir env') (dc_output_directory config) g = (Inr (), g0)"
  shows "\<exists>resume'. run_prepare evp env' config g = (Prepared resume', [g0, g0, g0]) \<and> done_chunks resume' = claimed g resume \<and>
    (\<forall>i\<in>done_chunks resume'. hex_encode (H (chunk_bytes (dc_manifest config) (file_data g (partial_path config)) (unat i))) =
       chunk_hashes (dc_manifest config) ! unat i)"
proof -
  have valid: "manifest_validate (dc_manifest config) = Inr ()" using config by (auto simp: validate_config_def result_simps)
  have hash: "sha256_hex evp b = Inr (hex_encode (H b))" for b using evp by (rule sha256_hex_computes)
  then have sha: "\<exists>h. sha256_hex evp b = Inr h" for b by blast
  have apart: "final_apart config (resume_path config swarm_id)" by (rule final_apart_names [OF valid swarm name])
  note B = prepared_backed [OF config sha swarm plain first]
  then have count: "rs_chunk_count resume = of_nat (length (chunk_hashes (dc_manifest config)))"
    by (simp add: store_backed_def store_for_def)
  have "workers_inv x (unat (dc_worker_count config)) (workers_start config resume (last states))"
    using workers_inv_start [of x "last states" resume] B x by simp
  from worker_run_inv [OF run this] have ok: "crash_consistent evp (dc_manifest config) (partial_path config) resume g"
    using valid small x crash by (simp add: workers_start_def)
  have "nodes g (final_path config) = nodes (last states) (final_path config)"
    using worker_run_final [OF run] apart B x crash by (simp add: workers_start_def)
  also have "\<dots> = nodes f (final_path config)" using run_prepare_final [OF first valid swarm apart] by simp
  finally have "\<not> fs_exists g (final_path config)" using B by (simp add: fs_exists_def)
  from consistent_resumes [OF valid sha swarm _ _ count ok dirs this] B ok hash show ?thesis
    by (auto simp: crash_consistent_def file_has_def)
qed

section \<open>A concrete run\<close>

text \<open>The sample downloader starts in an empty directory, and its one worker fetches and writes the first chunk.\<close>

definition sample_run_env :: run_env where
  "sample_run_env = \<lparr>ru_mkdir = None, ru_sizing = \<lparr>sz_opens = True, sz_sized = True\<rparr>, ru_revalidate = sample_atomic_env,
     ru_flush = sample_atomic_env, ru_recover = sample_atomic_env, ru_rename = None, ru_remove = None\<rparr>"

definition sample_made :: fs where
  "sample_made = create_directories empty_fs ''d''"

lemma sample_made: "make_directories None ''d'' empty_fs = (Inr (), sample_made)"
  by (simp add: make_directories_def or_fault_def sample_made_def empty_fs_def list_ex_iff)

lemma sample_made_empty: "1 < length q \<Longrightarrow> nodes sample_made q = None"
  using make_directories_frame [OF sample_made] by (simp add: empty_fs_def)

lemma sample_paths_long:
  "1 < length (final_path sample_download)" "1 < length (partial_path sample_download)" "1 < length (resume_path sample_download s)"
  by (simp_all add: final_path_def partial_path_def resume_path_def path_append_def sample_download_facts sample_seed_def)

definition sample_sized :: fs where
  "sample_sized = write_node sample_made (partial_path sample_download) (replicate 8 (CHR 0x00))"

lemma sample_prepare:
  assumes "manifest_swarm_id sample_evp sample_seed = Inr swarm"
  shows "\<exists>s states. run_prepare sample_evp sample_run_env sample_download empty_fs = (Prepared s, states) \<and> done_chunks s = {} \<and>
    last states = sample_sized"
proof -
  let ?p = "partial_path sample_download" and ?saved = "resume_path sample_download swarm"
  have absent: "\<not> fs_exists sample_made (final_path sample_download)" "\<not> fs_exists sample_made ?p" "\<not> fs_exists sample_made ?saved"
    using sample_made_empty sample_paths_long by (simp_all add: fs_exists_def)
  have part: "prepare_partial_file \<lparr>sz_opens = True, sz_sized = True\<rparr> ?p 8 sample_made = (Inr (), sample_sized)"
    using absent(2) by (simp add: prepare_partial_file_def sample_sized_def)
  have "\<not> fs_exists sample_sized ?saved" using absent(3) download_paths(1) [of sample_download swarm] by (simp add: sample_sized_def fs_exists_def node_simps)
  moreover have "?saved \<noteq> []" "swarm \<noteq> []"
    using sample_paths_long(3) [of swarm] swarm_id_atom [OF assms] by (auto simp: safe_atom_def)
  ultimately obtain s where s: "resume_load_or_create sample_sized ?saved swarm 3 = Inr s" "rs_completed s = replicate 3 False" "rs_chunk_count s = 3"
    by (simp add: resume_load_or_create_def resume_new_def)
  then have none: "done_chunks s = {}" by (simp add: done_chunks_def word_less_nat_alt)
  then have "resume_completed_chunks s = []" using completed_listing [of s] by auto
  then have "revalidate_completed_chunks sample_evp sample_atomic_env ?p sample_seed s sample_sized = (Inr (), s, [sample_sized])"
    by (simp add: revalidate_completed_chunks_def)
  with s(1) part absent have "open_download sample_evp sample_run_env sample_download swarm sample_made = (Prepared s, [sample_made, sample_sized, sample_sized])"
    by (simp add: open_download_def sample_run_env_def sample_download_facts seed_chunks Let_def)
  with assms sample_made none show ?thesis
    by (simp add: run_prepare_def sample_download_facts) (simp add: sample_run_env_def)
qed

lemma sample_plain: "plain empty_fs p"
  by (simp add: plain_def empty_fs_def)

theorem prepare_resumes_exactly_witness:
  "\<exists>s states. run_prepare sample_evp sample_run_env sample_download empty_fs = (Prepared s, states) \<and>
     claimed (last states) s = {} \<and> partial_ok sample_seed (partial_path sample_download) (last states)"
proof -
  obtain swarm where swarm: "manifest_swarm_id sample_evp sample_seed = Inr swarm" using sample_swarm by blast
  from sample_prepare [OF this] obtain s states where
    run: "run_prepare sample_evp sample_run_env sample_download empty_fs = (Prepared s, states)" "done_chunks s = {}" by blast
  from prepare_resumes_exactly [OF sample_config sample_evp_computes _ sample_plain sample_plain run(1)] swarm run
  show ?thesis by (auto simp: sample_download_facts)
qed

definition sample_context :: "bytes run_context" where
  "sample_context = \<lparr>rc_evp = sample_evp, rc_tracker = sample_client, rc_config = sample_download, rc_swarm_id = ''s'', rc_port = 7001\<rparr>"

lemma sample_context_facts:
  "rc_evp sample_context = sample_evp" "rc_tracker sample_context = sample_client" "rc_config sample_context = sample_download"
  "rc_swarm_id sample_context = ''s''"
  by (simp_all add: sample_context_def)

lemma run_quietly:
  "worker_run x s n [] s1 \<Longrightarrow> worker_step x s1 [] s2 \<Longrightarrow> n' = Suc n \<Longrightarrow> worker_run x s n' [] s2"
  using Run_step [of x s n "[]" s1 "[]" s2] by simp

lemma sample_threads:
  assumes "store_for sample_seed resume" and "done_chunks resume = {}"
  shows "\<exists>states s b r resume'. worker_run sample_context (workers_start sample_download resume f) 5 states s \<and> f \<in> set states \<and>
    write_verified_chunk sample_chunk_env (partial_path sample_download) sample_seed 0 b resume f = (r, resume', states) \<and>
    chunk_verified sample_evp sample_seed 0 b \<and>
    ds_workers s = [case r of Inl e \<Rightarrow> Failing e | Inr _ \<Rightarrow> Announcing] \<and> ds_store s = resume' \<and> ds_fs s = last states"
proof -
  let ?m = "dc_manifest (rc_config sample_context)"
  define s1 where "s1 = worker_test 0 (workers_start sample_download resume f)"
  define s2 where "s2 = worker_take ?m 0 s1"
  define s3 where "s3 = move_worker 0 (Fetching 0) s2"
  obtain b k' t' where fetch: "fetch_with_retry sample_evp sample_client sample_download ''s'' 0 (\<lambda>_. sample_net) 0 0 sample_fds =
     (Inr b, 0, k', t')" using sample_found by blast
  define s4 where "s4 = worker_fetched 0 0 (Inr b) 0 s3"
  obtain r resume' states where wr: "write_verified_chunk sample_chunk_env (partial_path sample_download) sample_seed 0 b resume f =
    (r, resume', states)" by (metis prod_cases3)
  have n: "3 \<le> rs_chunk_count resume" using assms(1) by (simp add: store_for_def seed_chunks)
  have "0 < rs_chunk_count resume" by (rule less_le_trans [OF _ n]) simp
  then have no: "resume_complete 0 resume = Inr False"
    using rl.query_Inr assms by (simp add: store_for_def)
  have w1: "ds_workers s1 = [At_take]" "ds_next s1 = 0" "ds_store s1 = resume" "ds_fs s1 = f" "ds_retries s1 = 0"
    by (simp_all add: s1_def worker_test_def workers_start_def move_worker_def sample_download_facts)
  have w2: "ds_workers s2 = [Took 0]" "ds_store s2 = resume" "ds_fs s2 = f" "ds_retries s2 = 0"
    using w1 by (simp_all add: s2_def worker_take_def move_worker_def sample_context_facts sample_download_facts seed_chunks Let_def)
  have w3: "ds_workers s3 = [Fetching 0]" "ds_store s3 = resume" "ds_fs s3 = f" "ds_retries s3 = 0"
    using w2 by (simp_all add: s3_def move_worker_def)
  have w4: "ds_workers s4 = [Holding 0 b]" "ds_store s4 = resume" "ds_fs s4 = f"
    using w3 by (simp_all add: s4_def worker_fetched_def move_worker_def)
  let ?x = sample_context and ?s = "workers_start sample_download resume f"
  have "worker_step ?x ?s [] s1"
    unfolding s1_def by (rule Test) (simp_all add: workers_start_def sample_download_facts)
  from Run_step [OF Run_none this] have "worker_run ?x ?s 1 [] s1" by simp
  moreover have "worker_step ?x s1 [] s2" unfolding s2_def by (rule Take) (simp_all add: w1)
  ultimately have "worker_run ?x ?s 2 [] s2" by (rule run_quietly) simp
  moreover have "worker_step ?x s2 [] s3" by (rule Check [of 0 _ 0]) (use w2 no in \<open>simp_all add: worker_check_def s3_def\<close>)
  ultimately have "worker_run ?x ?s 3 [] s3" by (rule run_quietly) simp
  moreover have "worker_step ?x s3 [] s4"
    unfolding s4_def by (rule Fetch [of 0 _ 0]) (use w3 fetch in \<open>simp_all add: sample_context_facts\<close>)
  ultimately have "worker_run ?x ?s 4 [] s4" by (rule run_quietly) simp
  moreover have "worker_step ?x s4 states (worker_written 0 r resume' (last states) s4)"
    by (rule Write [of 0 _ 0 b]) (use w4 wr in \<open>simp_all add: sample_context_facts sample_download_facts\<close>)
  ultimately have "worker_run ?x ?s (Suc 4) ([] @ states) (worker_written 0 r resume' (last states) s4)"
    by (rule Run_step)
  then have "worker_run ?x ?s 5 states (worker_written 0 r resume' (last states) s4)" by simp
  moreover have "chunk_verified sample_evp sample_seed 0 b"
    using retry_loop_verified fetch unfolding fetch_with_retry_def by (metis sample_download_facts(1))
  ultimately show ?thesis using write_starts_here [OF wr] wr w4 by (intro exI conjI) (assumption, simp_all add: worker_defs)
qed

lemma sample_prepared:
  "\<exists>swarm s states. manifest_swarm_id sample_evp sample_seed = Inr swarm \<and>
     run_prepare sample_evp sample_run_env sample_download empty_fs = (Prepared s, states) \<and> last states = sample_sized \<and>
     store_backed sample_evp sample_seed (partial_path sample_download) sample_sized s \<and> done_chunks s = {}"
proof -
  obtain swarm where swarm: "manifest_swarm_id sample_evp sample_seed = Inr swarm" using sample_swarm by blast
  from sample_prepare [OF this] obtain s states where
    run: "run_prepare sample_evp sample_run_env sample_download empty_fs = (Prepared s, states)" "done_chunks s = {}" "last states = sample_sized"
    by blast
  have "\<exists>h. sha256_hex sample_evp b = Inr h" for b by (simp add: sample_sha)
  from prepared_backed [OF sample_config this _ sample_plain sample_plain run(1)] swarm run show ?thesis
    by (auto simp: sample_download_facts)
qed

lemma sample_small: "length (chunk_hashes (dc_manifest sample_download)) + unat (dc_worker_count sample_download) < 2 ^ 32"
  by (simp add: sample_download_facts seed_chunks)

theorem workers_terminate_witness:
  "\<exists>resume f states s. worker_run sample_context (workers_start sample_download resume f) 5 states s \<and>
     (set (ds_workers s) \<subseteq> {Returned} \<or> (\<exists>states' s'. worker_step sample_context s states' s'))"
proof -
  obtain resume where R: "store_backed sample_evp sample_seed (partial_path sample_download) sample_sized resume" "done_chunks resume = {}"
    using sample_prepared by blast
  then obtain states s where run: "worker_run sample_context (workers_start sample_download resume sample_sized) 5 states s"
    using sample_threads [of resume sample_sized] by (fastforce simp: store_backed_def)
  from workers_terminate [of sample_context sample_sized resume 5 states s] run R(1) sample_config sample_small
  have "set (ds_workers s) \<subseteq> {Returned} \<or> (\<exists>states' s'. worker_step sample_context s states' s')"
    by (simp add: sample_context_facts sample_download_facts)
  with run show ?thesis by blast
qed

theorem workers_keep_download_intact_witness:
  "\<exists>resume f states s. worker_run sample_context (workers_start sample_download resume f) 5 states s \<and> states \<noteq> [] \<and>
     (\<forall>g\<in>set states. partial_ok sample_seed (partial_path sample_download) g) \<and> claimed (ds_fs s) (ds_store s) \<subseteq> done_chunks (ds_store s) \<and>
     (\<forall>g\<in>set states. \<forall>i\<in>claimed g resume. chunk_synced sample_seed (partial_path sample_download) g i)"
proof -
  obtain resume where R: "store_backed sample_evp sample_seed (partial_path sample_download) sample_sized resume" "done_chunks resume = {}"
    using sample_prepared by blast
  then obtain states s where run: "worker_run sample_context (workers_start sample_download resume sample_sized) 5 states s" "states \<noteq> []"
    using sample_threads [of resume sample_sized] by (fastforce simp: store_backed_def)
  from workers_keep_download_intact [of sample_context sample_sized resume 5 states s] run(1) R(1) sample_config sample_small
  have "(\<forall>g\<in>set states. partial_ok sample_seed (partial_path sample_download) g) \<and> claimed (ds_fs s) (ds_store s) \<subseteq> done_chunks (ds_store s) \<and>
      (\<forall>g\<in>set states. \<forall>i\<in>claimed g resume. chunk_synced sample_seed (partial_path sample_download) g i)"
    using R(2) by (simp add: sample_context_facts sample_download_facts)
  with run show ?thesis by blast
qed

lemma sample_name:
  assumes "manifest_swarm_id sample_evp sample_seed = Inr swarm"
  shows "file_name (dc_manifest sample_download) \<notin> {swarm @ ''.resume'', swarm @ ''.resume.tmp''}"
proof -
  have "length swarm = 64" using swarm_id_atom [OF assms] by (simp add: is_sha256_hex_def)
  moreover have "length (file_name (dc_manifest sample_download)) = 5" by (simp add: sample_download_facts sample_seed_def)
  ultimately show ?thesis by auto
qed

lemma sample_made_again:
  assumes "nodes g ''d'' = Some Directory"
  shows "make_directories None ''d'' g = (Inr (), g)"
proof -
  have p: "dir_prefixes ''d'' = [''d'']" by (simp add: dir_prefixes_def)
  have "create_directories g ''d'' = g" using assms by (intro fs.equality ext) (auto simp: create_directories_def p)
  with assms p show ?thesis by (simp add: make_directories_def or_fault_def)
qed

lemma sample_made_dir:
  "nodes sample_made ''d'' = Some Directory" "1 < length q \<Longrightarrow> nodes (write_node sample_made q b) ''d'' = Some Directory"
  by (auto simp: node_simps sample_made_def create_directories_def dir_prefixes_def empty_fs_def)

theorem crash_resumes_with_all_claimed_witness:
  "\<exists>resume states n states' s g g0 resume'. run_prepare sample_evp sample_run_env sample_download empty_fs = (Prepared resume, states) \<and>
     worker_run sample_context (workers_start sample_download resume (last states)) n states' s \<and> g \<in> set states' \<and>
     run_prepare sample_evp sample_run_env sample_download g = (Prepared resume', [g0, g0, g0]) \<and> done_chunks resume' = claimed g resume"
proof -
  obtain swarm resume states where P: "manifest_swarm_id sample_evp sample_seed = Inr swarm"
    "run_prepare sample_evp sample_run_env sample_download empty_fs = (Prepared resume, states)" "last states = sample_sized"
    "store_backed sample_evp sample_seed (partial_path sample_download) sample_sized resume" "done_chunks resume = {}"
    using sample_prepared by blast
  then obtain states' s where run: "worker_run sample_context (workers_start sample_download resume (last states)) 5 states' s"
    "sample_sized \<in> set states'"
    using sample_threads [of resume sample_sized] by (fastforce simp: store_backed_def)
  have dirs: "make_directories (ru_mkdir sample_run_env) (dc_output_directory sample_download) sample_sized = (Inr (), sample_sized)"
    using sample_made_again [OF sample_made_dir(2) [OF sample_paths_long(2)]] by (simp add: sample_run_env_def sample_download_facts sample_sized_def)
  have swarm: "manifest_swarm_id sample_evp (dc_manifest sample_download) = Inr swarm" using P(1) by (simp add: sample_download_facts)
  from crash_resumes_with_all_claimed [OF sample_config sample_evp_computes swarm sample_name [OF P(1)] sample_small
      sample_plain sample_plain P(2) sample_context_facts(1,3) run dirs]
  show ?thesis using P(2) run by blast
qed

definition sample_finished :: fs where
  "sample_finished = write_node sample_made (final_path sample_download) ''abcdefgh''"

theorem download_run_verified_witness:
  "\<exists>res states. download_run sample_evp sample_run_env sample_download sample_finished (Inr res) states \<and>
     (\<exists>d. nodes (last states) (dr_final_path res) = Some (Regular d) \<and> hex_encode (sample_digest d) = file_sha256 sample_seed)"
proof -
  obtain swarm where swarm: "manifest_swarm_id sample_evp (dc_manifest sample_download) = Inr swarm"
    using sample_swarm by (auto simp: sample_download_facts)
  have at: "nodes sample_finished (final_path sample_download) = Some (Regular ''abcdefgh'')"
    by (simp add: sample_finished_def node_simps)
  have plain: "plain sample_finished p" for p
    using sample_made_empty [of p] make_directories_frame [OF sample_made]
    by (auto simp: plain_def sample_finished_def node_simps empty_fs_def sample_made_def create_directories_def)
  then have "sha256_file sample_evp sample_finished (final_path sample_download) = Inr (file_sha256 sample_seed)"
    using sha256_file_plain [OF sample_evp_computes at] by (simp add: plain_def sample_sha sample_seed_def)
  then have "open_download sample_evp sample_run_env sample_download swarm sample_finished = (Already_there (final_path sample_download), [sample_finished])"
    using at by (simp add: open_download_def sample_download_facts fs_exists_def Let_def)
  then have "run_prepare sample_evp sample_run_env sample_download sample_finished = (Already_there (final_path sample_download), [sample_finished])"
    using sample_made_again [OF sample_made_dir(2) [OF sample_paths_long(1)]] swarm
    by (simp add: run_prepare_def sample_run_env_def sample_download_facts sample_finished_def)
  then obtain res states where run: "download_run sample_evp sample_run_env sample_download sample_finished (Inr res) states"
    using Present by blast
  have name: "file_name (dc_manifest sample_download) \<notin> {swarm @ ''.resume'', swarm @ ''.resume.tmp''}"
    using sample_name swarm by (simp add: sample_download_facts)
  have "\<exists>d. nodes (last states) (dr_final_path res) = Some (Regular d) \<and> hex_encode (sample_digest d) = file_sha256 sample_seed"
    using download_run_verified [OF sample_config sample_evp_computes swarm name sample_small plain plain plain run]
    by (auto simp: sample_download_facts)
  with run show ?thesis by blast
qed

end
