(* ===== verification/Delivery.thy ===== *)
theory Delivery
  imports Coordinator
begin

text \<open>
  What a completed download has delivered: when the manifest was made from a file, the bytes that arrive under the
  final name are those of that file. This theory puts \<open>Manifest\<close>, \<open>Download\<close> and \<open>Coordinator\<close> together.
\<close>

section \<open>A manifest that was made from a file\<close>

definition describes :: "(bytes \<Rightarrow> bytes) \<Rightarrow> manifest \<Rightarrow> bytes \<Rightarrow> bool" where
  "describes H m d \<longleftrightarrow>
     length d = unat (file_size_bytes m) \<and> file_sha256 m = hex_encode (H d) \<and>
     (\<forall>i < length (chunk_hashes m). chunk_hashes m ! i = hex_encode (H (chunk_bytes m d i)))"

text \<open>What is needed of SHA-256: no other byte string of its length collides with a chunk of the file.\<close>

definition no_collision :: "(bytes \<Rightarrow> bytes) \<Rightarrow> manifest \<Rightarrow> bytes \<Rightarrow> bool" where
  "no_collision H m d \<longleftrightarrow>
     (\<forall>i < length (chunk_hashes m). \<forall>b. length b = length (chunk_bytes m d i) \<longrightarrow> H b = H (chunk_bytes m d i) \<longrightarrow>
        b = chunk_bytes m d i)"

lemma valid_block_count:
  assumes "manifest_validate m = Inr ()" and "length d = unat (file_size_bytes m)"
  shows "length (blocks (unat (chunk_size_bytes m)) d) = length (chunk_hashes m)"
proof -
  have c: "chunk_size_bytes m \<noteq> 0" using assms(1) by (auto simp: manifest_validate_Inr)
  have "length d < 2 ^ 64" using assms(2) unsigned_less [of "file_size_bytes m", where 'a = nat] by simp
  from length_blocks_expected [OF c this] assms show ?thesis by (simp add: manifest_validate_Inr)
qed

lemma same_chunks_same_file:
  assumes "manifest_validate m = Inr ()" and "length d = unat (file_size_bytes m)" "length d' = unat (file_size_bytes m)"
    and "\<forall>i < length (chunk_hashes m). chunk_bytes m d' i = chunk_bytes m d i"
  shows "d' = d"
proof -
  let ?c = "unat (chunk_size_bytes m)"
  have c: "0 < ?c" using assms(1) by (auto simp: manifest_validate_Inr unat_gt_0)
  have "blocks ?c d' = blocks ?c d"
    by (rule nth_equalityI) (use assms(4) valid_block_count [OF assms(1)] assms(2,3) chunk_bytes_blocks [OF c] in auto)
  then show ?thesis using concat_blocks [OF c] by metis
qed

lemma complete_store_is_file:
  assumes valid: "manifest_validate m = Inr ()" and evp: "evp_computes evp H"
    and backed: "store_backed evp m p f s" and all: "resume_all_complete s"
    and made: "describes H m d" and unique: "no_collision H m d"
  shows "nodes f p = Some (Regular d)"
proof -
  have store: "store_for m s" using backed by (simp add: store_backed_def)
  then have wf: "wf_store s" by (simp add: store_for_def)
  obtain d' where d': "nodes f p = Some (Regular d')" "length d' = unat (file_size_bytes m)"
    using backed by (auto simp: store_backed_def partial_ok_def)
  have len: "length d = unat (file_size_bytes m)" using made by (simp add: describes_def)
  have n: "length (chunk_hashes m) < 2 ^ 32" using valid by (simp add: manifest_validate_Inr kMaxChunkCount_def)
  have "chunk_bytes m d' i = chunk_bytes m d i" if i: "i < length (chunk_hashes m)" for i
  proof -
    have u: "unat (of_nat i :: u32) = i" using i n by (simp add: unat_of_nat take_bit_nat_eq_self)
    then have "of_nat i < rs_chunk_count s" using store_for_bound [OF valid store] i by simp
    then have "of_nat i \<in> done_chunks s" using all rl.everything_iff [OF wf] by simp
    then have "file_has evp m d' (of_nat i)" using backed d'(1) by (simp add: store_backed_def)
    then have "hex_encode (H (chunk_bytes m d' i)) = hex_encode (H (chunk_bytes m d i))"
      using made i u sha256_hex_computes [OF evp] by (simp add: file_has_def describes_def)
    then have "H (chunk_bytes m d' i) = H (chunk_bytes m d i)" by (simp add: hex_encode_inject)
    moreover have "length (chunk_bytes m d' i) = length (chunk_bytes m d i)"
      using len d'(2) by (simp add: chunk_bytes_def)
    ultimately show ?thesis using unique i by (simp add: no_collision_def)
  qed
  with same_chunks_same_file [OF valid len d'(2)] d'(1) show ?thesis by simp
qed

text \<open>The last part of a run, when the store is complete and the partial file is the file itself.\<close>

lemma run_finish_success:
  assumes evp: "evp_computes evp H" and apart: "final_apart config (rs_path resume)"
    and all: "resume_all_complete resume"
    and backed: "store_backed evp (dc_manifest config) (partial_path config) f resume"
    and file': "nodes f (partial_path config) = Some (Regular d)" "file_sha256 (dc_manifest config) = hex_encode (H d)"
    and final: "nodes f (final_path config) \<noteq> Some Directory"
    and calls: "ru_rename env = None" "fst (resume_flush (ru_flush env) resume f) = Inr ()"
  shows "\<exists>resume' states. run_finish evp env config resume f = (Inr (final_path config), resume', states) \<and>
    nodes (last states) (final_path config) = Some (Regular d) \<and> nodes (last states) (partial_path config) = None"
proof -
  let ?p = "partial_path config" and ?final = "final_path config"
  obtain resume1 fstates where flush: "resume_flush (ru_flush env) resume f = (Inr (), resume1, fstates)"
    using calls(2) by (metis prod.collapse)
  note B = flush_backed [OF backed flush]
  define f1 where "f1 = last fstates"
  have p1: "nodes f1 ?p = Some (Regular d)" using B file'(1) by (simp add: f1_def)
  have "store_backed evp (dc_manifest config) ?p f1 resume1" using B by (simp add: f1_def)
  then have "\<not> unreadable f1 ?p" "fault_at f1 ?p = None" by (simp_all add: store_backed_def partial_ok_def)
  then have digest: "sha256_file evp f1 ?p = Inr (file_sha256 (dc_manifest config))"
    using sha256_file_plain [OF evp p1] sha256_hex_computes [OF evp] file'(2) by simp
  have "f1 \<in> set fstates" using B by (simp add: f1_def)
  then have dir: "nodes f1 ?final \<noteq> Some Directory" using flush_final [OF flush apart] final by auto
  have path: "rs_path resume1 = rs_path resume" using resume_flush_store [OF flush] by simp
  define f2 where "f2 = rename_node f1 ?p ?final"
  define f3 where "f3 = (if ru_remove env = None then remove_node f2 (rs_path resume1) else f2)"
  have "run_finish evp env config resume f = (Inr ?final, resume1, fstates @ [f2, f3])"
    using all digest dir calls(1)
    by (simp add: run_finish_def flush f1_def [symmetric] or_fault_def f2_def f3_def Let_def)
  moreover have "nodes f3 ?final = Some (Regular d)" "nodes f3 ?p = None"
    using p1 partial_not_final [of config] apart path
    by (auto simp: f3_def f2_def nodes_rename_node nodes_remove_node final_apart_def)
  ultimately show ?thesis by simp
qed

text \<open>
  C4. The file that arrives is the file that was shared (\<^verbatim>\<open>DownloadCoordinator::run\<close>): if the manifest was
  made from a file and no chunk of it has a SHA-256 collision, then after the threads have all
  returned without a failure, in whatever interleaving and from whatever peers the chunks came,
  the full-file check does not fail: provided that the last flush and the rename succeed, the
  run returns its result, the final path has exactly the bytes of that file, and the partial file is gone.
\<close>

theorem download_delivers_the_file:
  assumes config: "validate_config config = Inr ()" and evp: "evp_computes evp H"
    and swarm: "manifest_swarm_id evp (dc_manifest config) = Inr swarm_id"
    and name: "file_name (dc_manifest config) \<notin> {swarm_id @ ''.resume'', swarm_id @ ''.resume.tmp''}"
    and small: "length (chunk_hashes (dc_manifest config)) + unat (dc_worker_count config) < 2 ^ 32"
    and plain: "plain f (partial_path config)" "plain f (resume_path config swarm_id)"
    and first: "run_prepare evp env config f = (Prepared resume, states)"
    and x: "rc_evp x = evp" "rc_config x = config"
    and run: "worker_run x (workers_start config resume (last states)) n states' s"
    and returned: "set (ds_workers s) \<subseteq> {Returned}" "ds_failure s = None"
    and made: "describes H (dc_manifest config) d" and unique: "no_collision H (dc_manifest config) d"
    and calls: "ru_rename env = None" "fst (resume_flush (ru_flush env) (ds_store s) (ds_fs s)) = Inr ()"
  shows "\<exists>resume' states''. run_conclude evp env config s =
      (Inr \<lparr>dr_final_path = final_path config, dr_completed_chunks = length (chunk_hashes (dc_manifest config)),
        dr_retry_events = ds_retries s\<rparr>, resume', states'') \<and>
    nodes (last states'') (final_path config) = Some (Regular d) \<and> nodes (last states'') (partial_path config) = None"
proof -
  have valid: "manifest_validate (dc_manifest config) = Inr ()" and "0 < dc_worker_count config"
    using config by (auto simp: validate_config_def result_simps word_gt_0 split: if_splits)
  then have pos: "0 < unat (dc_worker_count config)" by (simp add: unat_gt_0 word_gt_0)
  have sha: "\<exists>h. sha256_hex evp b = Inr h" for b using sha256_hex_computes [OF evp] by blast
  have apart: "final_apart config (resume_path config swarm_id)" by (rule final_apart_names [OF valid swarm name])
  note B = prepared_backed [OF config sha swarm plain first]
  have "workers_inv x (unat (dc_worker_count config)) (workers_start config resume (last states))"
    using workers_inv_start [of x "last states" resume] B x by simp
  from worker_run_inv [OF run this] have inv: "workers_inv x (unat (dc_worker_count config)) s" using valid small x by simp
  then have backed: "store_backed evp (dc_manifest config) (partial_path config) (ds_fs s) (ds_store s)"
    using x by (simp add: workers_inv_def Let_def)
  have all: "resume_all_complete (ds_store s)" using all_returned_complete [OF inv _ pos returned] valid x by simp
  have W: "nodes (ds_fs s) (final_path config) = nodes (last states) (final_path config) \<and> rs_path (ds_store s) = resume_path config swarm_id"
    using worker_run_final [OF run] apart B x by (simp add: workers_start_def)
  also have "nodes (last states) (final_path config) = nodes f (final_path config)"
    using run_prepare_final [OF first valid swarm apart] by simp
  finally have final: "nodes (ds_fs s) (final_path config) \<noteq> Some Directory" "rs_path (ds_store s) = resume_path config swarm_id"
    using B by (simp_all add: fs_exists_def)
  have file': "nodes (ds_fs s) (partial_path config) = Some (Regular d)"
    by (rule complete_store_is_file [OF valid evp backed all made unique])
  obtain resume' states'' where R: "run_finish evp env config (ds_store s) (ds_fs s) = (Inr (final_path config), resume', states'')"
    "nodes (last states'') (final_path config) = Some (Regular d)" "nodes (last states'') (partial_path config) = None"
    using run_finish_success [OF evp _ all backed file' _ final(1) calls] final(2) apart made by (auto simp: describes_def)
  then show ?thesis using returned(2) by (simp add: run_conclude_def)
qed

lemma from_file_describes:
  assumes evp: "evp_computes evp H"
    and node: "nodes f p = Some (Regular d)" "\<not> unreadable f p" "fault_at f p = None" "length d < 2 ^ 64"
    and made: "manifest_from_file evp f p c = Inr m"
  shows "manifest_validate m = Inr () \<and> describes H m d \<and> file_name m = path_filename p \<and> chunk_size_bytes m = c"
proof -
  have sha: "sha256_hex evp b = Inr (hex_encode (H b))" for b using evp by (rule sha256_hex_computes)
  have file': "sha256_file evp f p = Inr (hex_encode (H d))" using sha256_file_plain [OF evp node(1-3)] sha by simp
  have c: "c \<noteq> 0" using made by (auto simp: manifest_from_file_def Let_def split: if_splits)
  obtain i' where "hash_chunks evp (unat c) (stream_of d) [] = Inr (map (\<lambda>b. hex_encode (H b)) (blocks (unat c) d), i')"
    using hash_chunks_blocks [of evp "\<lambda>b. hex_encode (H b)" "unat c" "stream_of d" "[]"] sha c by (auto simp: unat_gt_0)
  moreover have "file_size f p = of_nat (length d)" "open_in f p = Some (stream_of d)"
    using node by (simp_all add: file_size_def file_data_def open_in_def)
  ultimately have m: "manifest_validate m = Inr ()" "m = \<lparr>file_name = path_filename p, file_size_bytes = of_nat (length d),
      chunk_size_bytes = c, file_sha256 = hex_encode (H d), chunk_hashes = map (\<lambda>b. hex_encode (H b)) (blocks (unat c) d)\<rparr>"
    using made file' by (auto simp: manifest_from_file_def result_simps Let_def split: if_splits)
  moreover have "length d = unat (of_nat (length d) :: u64)" using node(4) by (simp add: unat_of_nat take_bit_nat_eq_self)
  moreover have "0 < unat c" using c by (simp add: unat_gt_0)
  ultimately show ?thesis by (simp add: describes_def chunk_bytes_def nth_blocks)
qed

section \<open>A concrete delivery\<close>

text \<open>The sample download is started again when all its chunks are there.\<close>

lemma sample_describes: "describes sample_digest sample_seed ''abcdefgh''"
proof -
  have "chunk_hashes sample_seed ! i = hex_encode (sample_digest (chunk_bytes sample_seed ''abcdefgh'' i))" if "i < 3" for i
  proof -
    from that consider "i = 0" | "i = 1" | "i = 2" by linarith
    then show ?thesis by cases (simp_all add: sample_seed_def chunk_bytes_def)
  qed
  then show ?thesis by (simp add: describes_def seed_chunks) (simp add: sample_seed_def)
qed

lemma sample_digest_inj: "length a = length b \<Longrightarrow> length b < 32 \<Longrightarrow> sample_digest a = sample_digest b \<Longrightarrow> a = b"
  by (simp add: sample_digest_def)

lemma sample_no_collision: "no_collision sample_digest sample_seed ''abcdefgh''"
proof -
  have "length (chunk_bytes sample_seed ''abcdefgh'' i) < 32" for i by (simp add: chunk_bytes_def seed_chunks)
  then show ?thesis unfolding no_collision_def using sample_digest_inj by blast
qed

definition full_store :: "string \<Rightarrow> resume_store" where
  "full_store swarm = \<lparr>rs_path = resume_path sample_download swarm, rs_swarm_id = swarm, rs_chunk_count = 3,
     rs_completed = [True, True, True], rs_revision = 0, rs_dirty = False\<rparr>"

definition sample_full :: "string \<Rightarrow> fs" where
  "sample_full swarm =
     write_node (write_node sample_made (partial_path sample_download) ''abcdefgh'') (resume_path sample_download swarm)
       (resume_serialize (full_store swarm))"

lemma full_store_chunks: "i < 3 \<Longrightarrow> i \<in> done_chunks (full_store swarm)"
  by (auto simp: done_chunks_def full_store_def word_less_nat_alt nth_Cons')

lemma sample_full_nodes:
  "nodes (sample_full swarm) (partial_path sample_download) = Some (Regular ''abcdefgh'')"
  "nodes (sample_full swarm) (resume_path sample_download swarm) = Some (Regular (resume_serialize (full_store swarm)))"
  "nodes (sample_full swarm) ''d'' = Some Directory"
  "\<not> unreadable (sample_full swarm) p" "fault_at (sample_full swarm) p = None"
  using download_paths(1) [of sample_download swarm] sample_made_dir(1) sample_paths_long(2) sample_paths_long(3) [of swarm]
    make_directories_frame [OF sample_made]
  by (auto simp: sample_full_def node_simps empty_fs_def)

lemma sample_full_consistent:
  assumes "manifest_swarm_id sample_evp sample_seed = Inr swarm"
  shows "crash_consistent sample_evp sample_seed (partial_path sample_download) (full_store swarm) (sample_full swarm) \<and>
    claimed (sample_full swarm) (full_store swarm) = done_chunks (full_store swarm)"
proof -
  let ?s = "full_store swarm" and ?g = "sample_full swarm"
  have s: "rs_path ?s = resume_path sample_download swarm" "rs_swarm_id ?s = swarm" "rs_chunk_count ?s = 3" "wf_store ?s"
    by (simp_all add: full_store_def wf_store_def)
  have C: "claimed ?g ?s = done_chunks ?s \<and> loadable ?g ?s"
    by (rule claimed_written) (use s swarm_text [OF assms] download_paths(3) sample_full_nodes in simp_all)
  have "partial_ok sample_seed (partial_path sample_download) ?g"
    using sample_full_nodes by (simp add: partial_ok_def seed_chunks)
  moreover have "file_has sample_evp sample_seed ''abcdefgh'' i" if "i \<in> done_chunks ?s" for i
  proof -
    have "i < 3" using that by (simp add: done_chunks_def s)
    then have "unat i < length (chunk_hashes sample_seed)" by (simp add: seed_chunks word_less_nat_alt)
    then show ?thesis using sample_describes by (simp add: file_has_def sample_sha describes_def)
  qed
  ultimately show ?thesis using C sample_full_nodes(1) [of swarm] by (simp add: crash_consistent_def)
qed

text \<open>A worker that finds the next chunk complete takes the one after it.\<close>

lemma skip_complete:
  assumes "worker_run x s0 n states s" and "ds_workers s = [At_test]" "\<not> ds_failed s"
    and "unat (ds_next s) < length (chunk_hashes (dc_manifest (rc_config x)))" "resume_complete (ds_next s) (ds_store s) = Inr True"
  shows "worker_run x s0 (n + 3) states (s\<lparr>ds_next := ds_next s + 1\<rparr>)"
proof -
  let ?i = "ds_next s" and ?m = "dc_manifest (rc_config x)"
  let ?s1 = "s\<lparr>ds_workers := [At_take]\<rparr>" and ?s2 = "s\<lparr>ds_next := ds_next s + 1, ds_workers := [Took (ds_next s)]\<rparr>"
  have "worker_test 0 s = ?s1" using assms(2,3) by (simp add: worker_test_def move_worker_def)
  then have "worker_step x s [] ?s1" using Test [of 0 s x] assms(2) by simp
  moreover have "worker_take ?m 0 ?s1 = ?s2" using assms(4) by (simp add: worker_take_def move_worker_def Let_def)
  then have "worker_step x ?s1 [] ?s2" using Take [of 0 ?s1 x] by simp
  moreover have "worker_step x ?s2 [] (s\<lparr>ds_next := ds_next s + 1\<rparr>)"
    by (rule Check [of 0 _ ?i]) (use assms(2,5) in \<open>simp_all add: worker_check_def move_worker_def\<close>)
  ultimately have "worker_run x s0 (Suc (Suc (Suc n))) (((states @ []) @ []) @ []) (s\<lparr>ds_next := ds_next s + 1\<rparr>)"
    using assms(1) by (intro Run_step)
  then show ?thesis by (simp add: eval_nat_numeral)
qed

lemma sample_all_skipped:
  assumes store: "store_for sample_seed resume" and all: "\<And>i. i < 3 \<Longrightarrow> i \<in> done_chunks resume"
  shows "\<exists>n states s. worker_run sample_context (workers_start sample_download resume f) n states s \<and>
    set (ds_workers s) \<subseteq> {Returned} \<and> ds_failure s = None \<and> ds_store s = resume \<and> ds_fs s = f"
proof -
  let ?x = sample_context and ?s = "workers_start sample_download resume f"
  have n: "length (chunk_hashes (dc_manifest (rc_config ?x))) = 3" by (simp add: sample_context_facts sample_download_facts seed_chunks)
  have count: "rs_chunk_count resume = 3" using store by (simp add: store_for_def seed_chunks)
  have ok: "resume_complete i resume = Inr True" if "i < 3" for i
    using rl.query_Inr [of resume i] that all [OF that] store count by (simp add: store_for_def)
  have s: "ds_workers ?s = [At_test]" "\<not> ds_failed ?s" "ds_next ?s = 0" "ds_store ?s = resume"
    by (simp_all add: workers_start_def sample_download_facts)
  define s1 where "s1 = ?s\<lparr>ds_next := 1\<rparr>"
  define s2 where "s2 = ?s\<lparr>ds_next := 2\<rparr>"
  define s3 where "s3 = ?s\<lparr>ds_next := 3\<rparr>"
  have "worker_run ?x ?s 3 [] s1" using skip_complete [OF Run_none [of ?x ?s]] s n ok [of 0] by (simp add: s1_def)
  from skip_complete [OF this] have "worker_run ?x ?s 6 [] s2" using s n ok [of 1] by (simp add: s1_def s2_def)
  from skip_complete [OF this] have r3: "worker_run ?x ?s 9 [] s3" using s n ok [of 2] by (simp add: s3_def s2_def)
  define s4 where "s4 = worker_test 0 s3"
  define s5 where "s5 = worker_take (dc_manifest (rc_config ?x)) 0 s4"
  have s4: "ds_workers s4 = [At_take]" "ds_next s4 = 3" "ds_failure s4 = None" "ds_store s4 = resume" "ds_fs s4 = f"
    using s by (simp_all add: s4_def s3_def worker_test_def move_worker_def) (simp_all add: workers_start_def)
  have "worker_step ?x s3 [] s4" unfolding s4_def by (rule Test) (use s in \<open>simp_all add: s3_def\<close>)
  from run_quietly [OF r3 this] have "worker_run ?x ?s 10 [] s4" by simp
  moreover have "worker_step ?x s4 [] s5" unfolding s5_def by (rule Take) (simp_all add: s4)
  ultimately have "worker_run ?x ?s 11 [] s5" by (rule run_quietly) simp
  moreover have "ds_workers s5 = [Returned]" "ds_failure s5 = None" "ds_store s5 = resume" "ds_fs s5 = f"
    using s4 n by (simp_all add: s5_def worker_take_def move_worker_def Let_def)
  ultimately show ?thesis by (intro exI [of _ 11] exI [of _ "[]"] exI [of _ s5]) simp
qed

theorem download_delivers_the_file_witness:
  "\<exists>swarm s resume' states. run_conclude sample_evp sample_run_env sample_download s =
      (Inr \<lparr>dr_final_path = final_path sample_download, dr_completed_chunks = 3, dr_retry_events = ds_retries s\<rparr>, resume', states) \<and>
    ds_fs s = sample_full swarm \<and>
    nodes (last states) (final_path sample_download) = Some (Regular ''abcdefgh'')"
proof -
  let ?c = sample_download
  obtain swarm where swarm: "manifest_swarm_id sample_evp sample_seed = Inr swarm" using sample_swarm by blast
  then have swarm': "manifest_swarm_id sample_evp (dc_manifest ?c) = Inr swarm" by (simp add: sample_download_facts)
  let ?g = "sample_full swarm"
  have "length swarm = 64" using swarm_id_atom [OF swarm] by (simp add: is_sha256_hex_def)
  moreover have "resume_completed_chunks (full_store swarm) = [0, 1, 2]"
    by (simp add: resume_completed_chunks_def full_store_def upt_rec)
  ultimately have "length (resume_serialize (full_store swarm)) < 2 ^ 64"
    by (simp add: resume_serialize_lines) (simp add: full_store_def chunk_text_def dec.simps)
  then have plain: "plain ?g (partial_path ?c)" "plain ?g (resume_path ?c swarm)"
    using sample_full_nodes by (simp_all add: plain_def)
  have dirs: "make_directories (ru_mkdir sample_run_env) (dc_output_directory ?c) ?g = (Inr (), ?g)"
    using sample_made_again [OF sample_full_nodes(3)] by (simp add: sample_run_env_def sample_download_facts)
  have "final_path ?c \<noteq> resume_path ?c swarm"
    using sample_name [OF swarm] by (auto simp: final_path_def resume_path_def path_append_inject)
  then have final: "\<not> fs_exists ?g (final_path ?c)"
    using partial_not_final [of ?c] sample_made_empty [OF sample_paths_long(1)]
    by (auto simp: fs_exists_def sample_full_def node_simps)
  have sha: "\<exists>h. sha256_hex sample_evp b = Inr h" for b by (simp add: sample_sha)
  obtain resume where R: "run_prepare sample_evp sample_run_env ?c ?g = (Prepared resume, [?g, ?g, ?g])"
    "done_chunks resume = done_chunks (full_store swarm)" "\<not> rs_dirty resume"
    using consistent_resumes [OF _ sha swarm' _ _ _ _ dirs final, of "full_store swarm"] sample_full_consistent [OF swarm]
      sample_seed_valid sample_full_nodes(2) [of swarm]
    by (auto simp: sample_download_facts full_store_def seed_chunks fs_exists_def)
  have "store_for sample_seed resume"
    using prepared_backed [OF sample_config sha swarm' plain R(1)] by (simp add: store_backed_def sample_download_facts)
  then obtain n states s where run: "worker_run sample_context (workers_start ?c resume ?g) n states s"
    "set (ds_workers s) \<subseteq> {Returned}" "ds_failure s = None" "ds_store s = resume" "ds_fs s = ?g"
    using sample_all_skipped [of resume ?g] full_store_chunks R(2) by blast
  have flush: "fst (resume_flush (ru_flush sample_run_env) (ds_store s) (ds_fs s)) = Inr ()"
    using R(3) run(4) by (simp add: resume_flush_def flush_begin_def)
  have calls: "ru_rename sample_run_env = None" by (simp add: sample_run_env_def)
  have "worker_run sample_context (workers_start ?c resume (last [?g, ?g, ?g])) n states s" using run(1) by simp
  from download_delivers_the_file [OF sample_config sample_evp_computes swarm' sample_name [OF swarm] sample_small plain R(1)
      sample_context_facts(1,3) this run(2,3) _ _ calls flush, of "''abcdefgh''"] sample_describes sample_no_collision
  obtain resume' states' where "run_conclude sample_evp sample_run_env ?c s =
      (Inr \<lparr>dr_final_path = final_path ?c, dr_completed_chunks = 3, dr_retry_events = ds_retries s\<rparr>, resume', states')"
    "nodes (last states') (final_path ?c) = Some (Regular ''abcdefgh'')"
    by (auto simp: sample_download_facts seed_chunks)
  with run(5) show ?thesis by blast
qed

end
