(* ===== verification/Logging.thy ===== *)
theory Logging
  imports Swarm_Prelude
begin

text \<open>
  The component \<^verbatim>\<open>src/common.cpp\<close>: log lines on the standard error stream. The local time is what \<^verbatim>\<open>localtime_r\<close> answers;
  the fields of \<^verbatim>\<open>std::tm\<close> that are printed are a record. The mutex makes each call one step, so what several threads
  write is what their calls write in some order.
\<close>

section \<open>Definitions\<close>

text \<open>Months count from 0 and years from 1900, as in \<^verbatim>\<open>std::tm\<close>.\<close>

record tm =
  tm_year :: int
  tm_mon :: nat
  tm_mday :: nat
  tm_hour :: nat
  tm_min :: nat
  tm_sec :: nat

definition two_digits :: "nat \<Rightarrow> string" where
  "two_digits n = (if n < 10 then CHR ''0'' # dec n else dec n)"

text \<open>\<^verbatim>\<open>std::put_time\<close> with the format \<^verbatim>\<open>%Y-%m-%dT%H:%M:%S\<close>, for years that are not negative.\<close>

definition timestamp :: "tm \<Rightarrow> string" where
  "timestamp local =
     dec (nat (tm_year local + 1900)) @ ''-'' @ two_digits (tm_mon local + 1) @ ''-'' @ two_digits (tm_mday local) @ ''T'' @
     two_digits (tm_hour local) @ '':'' @ two_digits (tm_min local) @ '':'' @ two_digits (tm_sec local)"

text \<open>What one call appends to the stream.\<close>

definition log_line :: "tm \<Rightarrow> string \<Rightarrow> string \<Rightarrow> string" where
  "log_line now level message = timestamp now @ '' ['' @ level @ ''] '' @ message @ [nl]"

definition log_info :: "tm \<Rightarrow> string \<Rightarrow> string" where
  "log_info now message = log_line now ''INFO'' message"

definition log_error :: "tm \<Rightarrow> string \<Rightarrow> string" where
  "log_error now message = log_line now ''ERROR'' message"

text \<open>The stream after a sequence of calls, each with its time, level and message.\<close>

definition log_stream :: "(tm \<times> string \<times> string) list \<Rightarrow> string" where
  "log_stream calls = concat (map (\<lambda>(now, level, message). log_line now level message) calls)"

section \<open>The log can be read back\<close>

text \<open>A reader that splits the stream into lines and each line at its brackets.\<close>

fun lines_of :: "string \<Rightarrow> string \<Rightarrow> string list" where
  "lines_of acc [] = []"
| "lines_of acc (c # cs) = (if c = nl then acc # lines_of [] cs else lines_of (acc @ [c]) cs)"

definition read_entry :: "string \<Rightarrow> string \<times> string \<times> string" where
  "read_entry line =
     (let rest = drop 2 (dropWhile (\<lambda>c. c \<noteq> CHR '' '') line)
      in (takeWhile (\<lambda>c. c \<noteq> CHR '' '') line, takeWhile (\<lambda>c. c \<noteq> CHR '']'') rest,
          drop 2 (dropWhile (\<lambda>c. c \<noteq> CHR '']'') rest)))"

lemma dec_plain: "c \<in> set (dec n) \<Longrightarrow> is_digit c"
  using dec_digits [of n] by (simp add: list_all_iff)

lemma two_digits_plain: "c \<in> set (two_digits n) \<Longrightarrow> is_digit c"
  by (auto simp: two_digits_def is_digit_def dest: dec_plain split: if_splits)

lemma timestamp_plain: "c \<in> set (timestamp now) \<Longrightarrow> c \<noteq> CHR '' '' \<and> c \<noteq> nl"
  by (auto simp: timestamp_def is_digit_def  dest!: dec_plain two_digits_plain)

lemma lines_of_append: "nl \<notin> set line \<Longrightarrow> lines_of acc (line @ nl # rest) = (acc @ line) # lines_of [] rest"
  by (induction line arbitrary: acc) auto

lemma lines_of_stream:
  "\<forall>(now, level, message)\<in>set calls. nl \<notin> set level \<and> nl \<notin> set message \<Longrightarrow>
     lines_of [] (log_stream calls) = map (\<lambda>(now, level, message). timestamp now @ '' ['' @ level @ ''] '' @ message) calls"
proof (induction calls)
  case (Cons c calls)
  obtain now level message where c: "c = (now, level, message)" by (metis prod_cases3)
  let ?line = "timestamp now @ '' ['' @ level @ ''] '' @ message"
  have "nl \<notin> set ?line" using Cons.prems c timestamp_plain [of nl now] by auto
  from lines_of_append [OF this, of "[]" "log_stream calls"] Cons c show ?case by (simp add: log_stream_def log_line_def)
qed (simp add: log_stream_def)

lemma span_at:
  "c \<notin> set xs \<Longrightarrow> takeWhile (\<lambda>d. d \<noteq> c) (xs @ c # ys) = xs \<and> dropWhile (\<lambda>d. d \<noteq> c) (xs @ c # ys) = c # ys"
  by (induction xs) auto

lemma read_entry_line:
  assumes "CHR '']'' \<notin> set level"
  shows "read_entry (timestamp now @ '' ['' @ level @ ''] '' @ message) = (timestamp now, level, message)"
proof -
  have "CHR '' '' \<notin> set (timestamp now)" using timestamp_plain by blast
  with span_at [OF this] span_at [OF assms] show ?thesis by (simp add: read_entry_def Let_def)
qed

text \<open>
  The log can be read back (\<^verbatim>\<open>log_info\<close>, \<^verbatim>\<open>log_error\<close>): whatever the threads log, in whatever order the mutex lets them, the
  stream consists of one line for each call, from which its time, level and message can be recovered, if no
  message has a line break. All messages of the program are such.
\<close>

theorem log_stream_roundtrip:
  assumes "\<forall>(now, level, message)\<in>set calls. level \<in> {''INFO'', ''ERROR''} \<and> nl \<notin> set message"
  shows "map read_entry (lines_of [] (log_stream calls)) = map (\<lambda>(now, level, message). (timestamp now, level, message)) calls"
proof -
  have "\<forall>(now, level, message)\<in>set calls. nl \<notin> set level \<and> nl \<notin> set message" using assms by auto
  moreover have "read_entry (timestamp now @ '' ['' @ level @ ''] '' @ message) = (timestamp now, level, message)"
    if "(now, level, message) \<in> set calls" for now level message
    by (rule read_entry_line) (use assms that in auto)
  ultimately show ?thesis by (auto simp: lines_of_stream)
qed

definition sample_time :: tm where
  "sample_time = \<lparr>tm_year = 126, tm_mon = 0, tm_mday = 31, tm_hour = 9, tm_min = 5, tm_sec = 0\<rparr>"

theorem log_stream_roundtrip_witness:
  "map read_entry (lines_of [] (log_error sample_time ''x'' @ log_info sample_time ''y z'')) =
     [(''2026-01-31T09:05:00'', ''ERROR'', ''x''), (''2026-01-31T09:05:00'', ''INFO'', ''y z'')]"
proof -
  have t: "timestamp sample_time = ''2026-01-31T09:05:00''"
    by (simp add: timestamp_def sample_time_def two_digits_def dec.simps digit_simps)
  have "map read_entry (lines_of [] (log_stream [(sample_time, ''ERROR'', ''x''), (sample_time, ''INFO'', ''y z'')])) =
      map (\<lambda>(now, level, message). (timestamp now, level, message)) [(sample_time, ''ERROR'', ''x''), (sample_time, ''INFO'', ''y z'')]"
    by (rule log_stream_roundtrip) simp
  then show ?thesis by (simp add: log_stream_def log_error_def log_info_def t)
qed

end
