(* ===== verification/Cli.thy ===== *)
theory Cli
  imports Delivery Logging
begin

text \<open>
  The command lines of the two programs (\<^verbatim>\<open>apps/swarmsync_main.cpp\<close>, \<^verbatim>\<open>apps/tracker_main.cpp\<close>): option parsing, the
  commands \<^verbatim>\<open>manifest create\<close>, \<^verbatim>\<open>seed\<close> and \<^verbatim>\<open>download\<close>, and the options of the tracker. The installation of the signal
  handler and the sleeping between heartbeats are left out; a signal ends the list of heartbeats. The whole
  programs, with their exit codes, are in the theory \<open>Programs\<close>.
\<close>

section \<open>Options\<close>

text \<open>
  \<^verbatim>\<open>std::unordered_map\<close> as an association list in the order of insertion. The order in which a loop
  visits its entries is left open: \<open>order\<close> is an argument of what iterates.
\<close>

type_synonym option_map = "(string \<times> string) list"

record options =
  op_values :: option_map
  op_help :: bool

definition no_options :: options where
  "no_options = \<lparr>op_values = [], op_help = False\<rparr>"

text \<open>The loop of \<^verbatim>\<open>parse_options\<close>, on the arguments from \<^verbatim>\<open>start\<close> on.\<close>

fun parse_options :: "string list \<Rightarrow> options \<Rightarrow> options result" where
  "parse_options [] options = Inr options"
| "parse_options (name # rest) options =
     (if name = ''--help'' then parse_options rest (options\<lparr>op_help := True\<rparr>)
      else if \<not> starts_with name ''--'' then throw (''Expected an option followed by a value: '' @ name)
      else case rest of
        [] \<Rightarrow> throw (''Expected an option followed by a value: '' @ name)
      | value # rest' \<Rightarrow>
          if starts_with value ''--'' then throw (''Option is missing a value: '' @ name)
          else if map_of (op_values options) name \<noteq> None then throw (''Option appears more than once: '' @ name)
          else parse_options rest' (options\<lparr>op_values := op_values options @ [(name, value)]\<rparr>))"

fun allow_each :: "string list \<Rightarrow> option_map \<Rightarrow> unit result" where
  "allow_each allowed [] = Inr ()"
| "allow_each allowed ((name, value) # rest) =
     (if \<not> list_ex (\<lambda>candidate. name = candidate) allowed then throw (''Unsupported option: '' @ name)
      else allow_each allowed rest)"

definition allow_only :: "(option_map \<Rightarrow> option_map) \<Rightarrow> option_map \<Rightarrow> string list \<Rightarrow> unit result" where
  "allow_only order values allowed = allow_each allowed (order values)"

definition option_require :: "option_map \<Rightarrow> string \<Rightarrow> string result" where
  "option_require values name =
     (case map_of values name of
        None \<Rightarrow> throw (''Required option is missing: '' @ name)
      | Some v \<Rightarrow> if v = [] then throw (''Required option is missing: '' @ name) else Inr v)"

definition option_optional :: "option_map \<Rightarrow> string \<Rightarrow> string \<Rightarrow> string" where
  "option_optional values name fallback = (case map_of values name of None \<Rightarrow> fallback | Some v \<Rightarrow> v)"

definition option_number :: "string \<Rightarrow> string \<Rightarrow> u32 result" where
  "option_number value name =
     (let (end', error, parsed) = from_chars value
      in if value = [] \<or> error \<noteq> Errc_ok \<or> end' \<noteq> []
         then throw (''Option must be an unsigned integer: '' @ name) else Inr parsed)"

definition option_port :: "option_map \<Rightarrow> string \<Rightarrow> u16 result" where
  "option_port values name =
     rbind (option_require values name) (\<lambda>text.
     rbind (option_number text name) (\<lambda>parsed.
     if parsed = 0 \<or> parsed > 65535
     then throw (''Option must be a TCP port from 1 to 65535: '' @ name) else Inr (ucast parsed)))"

definition option_listen_port :: "option_map \<Rightarrow> string \<Rightarrow> u16 result" where
  "option_listen_port values name =
     rbind (option_require values name) (\<lambda>text.
     rbind (option_number text name) (\<lambda>parsed.
     if parsed > 65535
     then throw (''Option must be a TCP port from 0 to 65535: '' @ name) else Inr (ucast parsed)))"

text \<open>\<open>environment\<close> is the value of \<^verbatim>\<open>SWARMSYNC_TOKEN\<close>.\<close>

definition option_token :: "string option \<Rightarrow> option_map \<Rightarrow> string result" where
  "option_token environment values =
     (case map_of values ''--token'' of
        Some supplied \<Rightarrow> Inr supplied
      | None \<Rightarrow>
          (case environment of
             Some t \<Rightarrow> if t \<noteq> [] then Inr t else throw ''Set SWARMSYNC_TOKEN or pass --token for this private swarm''
           | None \<Rightarrow> throw ''Set SWARMSYNC_TOKEN or pass --token for this private swarm''))"

section \<open>The commands of \<^verbatim>\<open>swarmsync\<close>\<close>

record cli_env =
  cl_token :: "string option"
  cl_order :: "option_map \<Rightarrow> option_map"

text \<open>
  A path is printed in quotation marks, with a backslash before each of them and each backslash in it. An
  exception in the middle of a statement that prints leaves what was printed before it.
\<close>

definition quoted :: "path \<Rightarrow> string" where
  "quoted p = CHR 0x22 # concat (map (\<lambda>c. if c = CHR 0x22 \<or> c = CHR 0x5C then [CHR 0x5C, c] else [c]) p) @ [CHR 0x22]"

definition created_text :: "'c evp \<Rightarrow> path \<Rightarrow> manifest \<Rightarrow> string \<times> unit result" where
  "created_text evp out m =
     (let start = ''Created manifest: '' @ quoted out @ [nl] @ ''Swarm ID: ''
      in case manifest_swarm_id evp m of
           Inl e \<Rightarrow> (start, Inl e)
         | Inr swarm_id \<Rightarrow> (start @ swarm_id @ [nl] @ ''Chunks: '' @ dec (length (chunk_hashes m)) @ [nl], Inr ()))"

text \<open>\<^verbatim>\<open>create_manifest\<close>: what it prints, its result and the file system.\<close>

definition create_manifest ::
  "'c evp \<Rightarrow> cli_env \<Rightarrow> save_env \<Rightarrow> options \<Rightarrow> fs \<Rightarrow> string \<times> unit result \<times> fs" where
  "create_manifest evp env save options f =
     (case rbind (allow_only (cl_order env) (op_values options) [''--file'', ''--out'', ''--chunk-size'']) (\<lambda>_.
           rbind (option_require (op_values options) ''--file'') (\<lambda>source.
           rbind (option_require (op_values options) ''--out'') (\<lambda>out.
           rbind (option_number (option_optional (op_values options) ''--chunk-size'' ''262144'') ''--chunk-size'') (\<lambda>chunk_size.
           rbind (manifest_from_file evp f source chunk_size) (\<lambda>m. Inr (out, m)))))) of
        Inl e \<Rightarrow> ([], Inl e, f)
      | Inr (out, m) \<Rightarrow>
          (case manifest_save save m f out of
             (Inl e, f) \<Rightarrow> ([], Inl e, f)
           | (Inr _, f) \<Rightarrow> let (printed, r) = created_text evp out m in (printed, r, f)))"

text \<open>The parts of \<^verbatim>\<open>seed\<close>: what it reads and checks before it opens a socket.\<close>

record seed_plan =
  sp_peer :: peer_server_config
  sp_tracker :: endpoint
  sp_peer_id :: string
  sp_heartbeat :: int

definition check_seed_file :: "'c evp \<Rightarrow> fs \<Rightarrow> path \<Rightarrow> manifest \<Rightarrow> unit result" where
  "check_seed_file evp f source m =
     (if \<not> is_regular_file f source \<or> file_size f source \<noteq> file_size_bytes m
      then throw ''Seed file does not match the selected manifest''
      else
        rbind (sha256_file evp f source) (\<lambda>digest.
        if digest \<noteq> file_sha256 m then throw ''Seed file does not match the selected manifest'' else Inr ()))"

definition seed_allowed :: "string list" where
  "seed_allowed = [''--manifest'', ''--file'', ''--tracker-host'', ''--tracker-port'', ''--listen-port'', ''--peer-id'',
     ''--bind'', ''--heartbeat-ms'', ''--token'']"

definition seed_prepare :: "'c evp \<Rightarrow> cli_env \<Rightarrow> options \<Rightarrow> fs \<Rightarrow> seed_plan result" where
  "seed_prepare evp env options f =
     (let values = op_values options in
      rbind (allow_only (cl_order env) values seed_allowed) (\<lambda>_.
      rbind (option_require values ''--manifest'') (\<lambda>manifest_path.
      rbind (manifest_load f manifest_path) (\<lambda>m.
      rbind (option_require values ''--file'') (\<lambda>source.
      rbind (check_seed_file evp f source m) (\<lambda>_.
      rbind (option_token (cl_token env) values) (\<lambda>token.
      rbind (option_require values ''--tracker-host'') (\<lambda>tracker_host.
      rbind (option_port values ''--tracker-port'') (\<lambda>tracker_port.
      rbind (option_require values ''--peer-id'') (\<lambda>peer_id.
      rbind (option_number (option_optional values ''--heartbeat-ms'' ''1000'') ''--heartbeat-ms'') (\<lambda>heartbeat.
      if uint heartbeat \<le> 0 then throw ''--heartbeat-ms must be positive''
      else
        rbind (option_listen_port values ''--listen-port'') (\<lambda>listen_port.
        Inr \<lparr>sp_peer = \<lparr>ps_manifest = m, ps_file_path = source, ps_token = token, ps_port = listen_port,
                ps_bind_address = option_optional values ''--bind'' ''127.0.0.1'', ps_max_connections = 32,
                ps_has_chunk = None\<rparr>,
              sp_tracker = \<lparr>host = tracker_host, port = tracker_port\<rparr>, sp_peer_id = peer_id,
              sp_heartbeat = uint heartbeat\<rparr>))))))))))))"

text \<open>The announcement that \<^verbatim>\<open>seed\<close> makes at first and with every heartbeat.\<close>

definition seed_announce ::
  "'c evp \<Rightarrow> seed_plan \<Rightarrow> server_listener \<Rightarrow> tracker_client \<Rightarrow> network \<Rightarrow> fd_table \<Rightarrow> unit result \<times> fd_table" where
  "seed_announce evp plan listener tracker net t =
     (case rbind (manifest_swarm_id evp (ps_manifest (sp_peer plan))) (\<lambda>swarm_id.
           rbind (server_endpoint ''Peer server'' listener) (\<lambda>e.
           Inr \<lparr>ad_swarm_id = swarm_id, ad_peer_id = sp_peer_id plan, ad_listen_port = port e, ad_chunks = [],
                ad_has_all_chunks = True\<rparr>)) of
        Inl e \<Rightarrow> (Inl e, t)
      | Inr ad \<Rightarrow> (case client_announce tracker ad net t of (r, _, t) \<Rightarrow> (r, t)))"

text \<open>
  The heartbeats: \<open>beats\<close> are the answers of the network and the times until the signal is seen. The first part of
  the result is what is logged.
\<close>

fun seed_loop ::
  "'c evp \<Rightarrow> seed_plan \<Rightarrow> server_listener \<Rightarrow> tracker_client \<Rightarrow> (network \<times> tm) list \<Rightarrow> fd_table \<Rightarrow> string \<times> unit result \<times> fd_table" where
  "seed_loop evp plan listener tracker [] t = ([], Inr (), t)"
| "seed_loop evp plan listener tracker ((net, now) # beats) t =
     (case seed_announce evp plan listener tracker net t of
        (Inr _, t) \<Rightarrow> seed_loop evp plan listener tracker beats t
      | (Inl (Error _), t) \<Rightarrow>
          let (logged, rest) = seed_loop evp plan listener tracker beats t
          in (log_error now ''Seeder heartbeat could not reach the tracker'' @ logged, rest)
      | (Inl (Filesystem_error e), t) \<Rightarrow> ([], Inl (Filesystem_error e), t))"

definition seed_text :: "'c evp \<Rightarrow> seed_plan \<Rightarrow> server_listener \<Rightarrow> string \<times> unit result" where
  "seed_text evp plan listener =
     (let start = ''Seeder peer '' @ sp_peer_id plan @ '' is serving swarm ''
      in case manifest_swarm_id evp (ps_manifest (sp_peer plan)) of
           Inl e \<Rightarrow> (start, Inl e)
         | Inr swarm_id \<Rightarrow>
             let start = start @ swarm_id @ '' on ''
             in case server_endpoint ''Peer server'' listener of
                  Inl e \<Rightarrow> (start, Inl e)
                | Inr e \<Rightarrow> (start @ host e @ '':'' @ dec (unat (port e)) @ [nl] @ ''Press Ctrl+C to stop.'' @ [nl], Inr ()))"

text \<open>What \<^verbatim>\<open>seed\<close> does while its server runs: what it prints, what it logs, and its result.\<close>

definition seed_session ::
  "'c evp \<Rightarrow> seed_plan \<Rightarrow> server_listener \<Rightarrow> network \<Rightarrow> (network \<times> tm) list \<Rightarrow> fd_table \<Rightarrow>
     string \<times> string \<times> unit result \<times> fd_table" where
  "seed_session evp plan listener first beats t =
     (case tracker_client_new (sp_tracker plan) (ps_token (sp_peer plan)) 3000 of
        Inl e \<Rightarrow> ([], [], Inl e, t)
      | Inr tracker \<Rightarrow>
          (case seed_announce evp plan listener tracker first t of
             (Inl e, t) \<Rightarrow> ([], [], Inl e, t)
           | (Inr _, t) \<Rightarrow>
               (case seed_text evp plan listener of
                  (printed, Inl e) \<Rightarrow> (printed, [], Inl e, t)
                | (printed, Inr _) \<Rightarrow> (printed, seed_loop evp plan listener tracker beats t))))"

text \<open>
  \<^verbatim>\<open>seed\<close> from the first socket on. Whatever happens after the server has started, it is stopped: by the last
  statement or by its destructor.
\<close>

definition seed_serve ::
  "'c evp \<Rightarrow> seed_plan \<Rightarrow> string + listen_attempt list \<Rightarrow> string + sock_name \<Rightarrow> network \<Rightarrow> (network \<times> tm) list \<Rightarrow> fd_table \<Rightarrow>
     string \<times> string \<times> unit result \<times> fd_table" where
  "seed_serve evp plan lookup sockname first beats t =
     (case peer_server_new (sp_peer plan) of
        Inl e \<Rightarrow> ([], [], Inl e, t)
      | Inr config \<Rightarrow>
          (case peer_start config lookup sockname listener_down t of
             (Inl e, _, t) \<Rightarrow> ([], [], Inl e, t)
           | (Inr _, listener, t) \<Rightarrow>
               let (printed, logged, r, t) = seed_session evp plan listener first beats t
               in (printed, logged, r, snd (server_stop listener t))))"

text \<open>\<^verbatim>\<open>seed\<close> as a whole.\<close>

definition seed ::
  "'c evp \<Rightarrow> cli_env \<Rightarrow> options \<Rightarrow> fs \<Rightarrow> string + listen_attempt list \<Rightarrow> string + sock_name \<Rightarrow> network \<Rightarrow> (network \<times> tm) list \<Rightarrow>
     fd_table \<Rightarrow> string \<times> string \<times> unit result \<times> fd_table" where
  "seed evp env options f lookup sockname first beats t =
     (case seed_prepare evp env options f of
        Inl e \<Rightarrow> ([], [], Inl e, t)
      | Inr plan \<Rightarrow> seed_serve evp plan lookup sockname first beats t)"

definition download_allowed :: "string list" where
  "download_allowed = [''--manifest'', ''--out-dir'', ''--tracker-host'', ''--tracker-port'', ''--listen-port'', ''--peer-id'',
     ''--workers'', ''--retries'', ''--bind'', ''--heartbeat-ms'', ''--token'']"

text \<open>The configuration that \<^verbatim>\<open>download\<close> makes of its options.\<close>

definition download_options :: "cli_env \<Rightarrow> options \<Rightarrow> fs \<Rightarrow> download_config result" where
  "download_options env options f =
     (let values = op_values options in
      rbind (allow_only (cl_order env) values download_allowed) (\<lambda>_.
      rbind (option_require values ''--manifest'') (\<lambda>manifest_path.
      rbind (manifest_load f manifest_path) (\<lambda>m.
      rbind (option_require values ''--out-dir'') (\<lambda>out_dir.
      rbind (option_require values ''--tracker-host'') (\<lambda>tracker_host.
      rbind (option_port values ''--tracker-port'') (\<lambda>tracker_port.
      rbind (option_token (cl_token env) values) (\<lambda>token.
      rbind (option_listen_port values ''--listen-port'') (\<lambda>listen_port.
      rbind (option_require values ''--peer-id'') (\<lambda>peer_id.
      rbind (option_number (option_optional values ''--workers'' ''4'') ''--workers'') (\<lambda>workers.
      rbind (option_number (option_optional values ''--retries'' ''3'') ''--retries'') (\<lambda>retries.
      rbind (option_number (option_optional values ''--heartbeat-ms'' ''1000'') ''--heartbeat-ms'') (\<lambda>heartbeat.
      Inr \<lparr>dc_manifest = m, dc_output_directory = out_dir, dc_tracker_endpoint = \<lparr>host = tracker_host, port = tracker_port\<rparr>,
           dc_token = token, dc_listen_port = listen_port, dc_peer_id = peer_id, dc_worker_count = workers,
           dc_max_retries = retries, dc_network_timeout = 3000, dc_heartbeat_interval = uint heartbeat,
           dc_bind_address = option_optional values ''--bind'' ''127.0.0.1'', dc_peer_max_connections = 32\<rparr>)))))))))))))"

text \<open>\<^verbatim>\<open>download\<close>: the configuration, the constructor and the run.\<close>

inductive download_command ::
  "'c evp \<Rightarrow> cli_env \<Rightarrow> run_env \<Rightarrow> options \<Rightarrow> fs \<Rightarrow> download_result result \<Rightarrow> fs list \<Rightarrow> bool"
  for evp env run_env options f where
  Refused: "rbind (download_options env options f) coordinator_new = Inl e \<Longrightarrow> download_command evp env run_env options f (Inl e) [f]"
| Runs: "rbind (download_options env options f) coordinator_new = Inr config \<Longrightarrow> download_run evp run_env config f r states \<Longrightarrow>
    download_command evp env run_env options f r states"

text \<open>\<^verbatim>\<open>main\<close>: which command is run; an exception is printed and makes the exit code 1.\<close>

datatype cli_action = Usage | Create_manifest options | Seed options | Download options

definition swarmsync_main :: "string list \<Rightarrow> cli_action result" where
  "swarmsync_main args =
     (case args of
        [] \<Rightarrow> Inr Usage
      | command # rest \<Rightarrow>
          if command = ''--help'' then Inr Usage
          else if command = ''manifest'' then
            (case rest of
               [] \<Rightarrow> throw ''Use: swarmsync manifest create --file <path> --out <path>''
             | sub # rest' \<Rightarrow>
                 if sub \<noteq> ''create'' then throw ''Use: swarmsync manifest create --file <path> --out <path>''
                 else rbind (parse_options rest' no_options) (\<lambda>options.
                      Inr (if op_help options then Usage else Create_manifest options)))
          else
            rbind (parse_options rest no_options) (\<lambda>options.
            if op_help options then Inr Usage
            else if command = ''seed'' then Inr (Seed options)
            else if command = ''download'' then Inr (Download options)
            else throw (''Unknown command: '' @ command)))"

section \<open>The command of \<^verbatim>\<open>swarmsync-tracker\<close>\<close>

fun tracker_parse_options :: "string list \<Rightarrow> option_map \<Rightarrow> option_map result" where
  "tracker_parse_options [] options = Inr options"
| "tracker_parse_options [name] options = throw (''Expected an option followed by a value: '' @ name)"
| "tracker_parse_options (name # value # rest) options =
     (if \<not> starts_with name ''--'' then throw (''Expected an option followed by a value: '' @ name)
      else if starts_with value ''--'' \<or> map_of options name \<noteq> None then throw (''Invalid or duplicate option: '' @ name)
      else tracker_parse_options rest (options @ [(name, value)]))"

definition tracker_allowed :: "string list" where
  "tracker_allowed = [''--port'', ''--bind'', ''--ttl-seconds'', ''--max-connections'', ''--workers'', ''--max-swarms'',
     ''--max-peers-per-swarm'', ''--max-response-peers'', ''--token'']"

text \<open>The tracker's program has its own copies of the functions that read options.\<close>

definition tracker_require :: "option_map \<Rightarrow> string \<Rightarrow> string result" where
  "tracker_require options name =
     (case map_of options name of
        None \<Rightarrow> throw (''Required option is missing: '' @ name)
      | Some v \<Rightarrow> if v = [] then throw (''Required option is missing: '' @ name) else Inr v)"

definition tracker_optional :: "option_map \<Rightarrow> string \<Rightarrow> string \<Rightarrow> string" where
  "tracker_optional options name fallback = (case map_of options name of None \<Rightarrow> fallback | Some v \<Rightarrow> v)"

definition tracker_number :: "string \<Rightarrow> string \<Rightarrow> u32 result" where
  "tracker_number value name =
     (let (end', error, parsed) = from_chars value
      in if value = [] \<or> error \<noteq> Errc_ok \<or> end' \<noteq> []
         then throw (''Option must be an unsigned integer: '' @ name) else Inr parsed)"

definition tracker_token :: "string option \<Rightarrow> option_map \<Rightarrow> string result" where
  "tracker_token environment options =
     (case map_of options ''--token'' of
        Some supplied \<Rightarrow> Inr supplied
      | None \<Rightarrow>
          (case environment of
             Some t \<Rightarrow> if t \<noteq> [] then Inr t else throw ''Set SWARMSYNC_TOKEN or pass --token for this private tracker''
           | None \<Rightarrow> throw ''Set SWARMSYNC_TOKEN or pass --token for this private tracker''))"

text \<open>\<^verbatim>\<open>main\<close> up to \<^verbatim>\<open>start\<close>: nothing to do, or the server that is started.\<close>

definition tracker_main :: "cli_env \<Rightarrow> string list \<Rightarrow> tracker_server option result" where
  "tracker_main env args =
     (if args = [] \<or> args = [''--help''] then Inr None
      else
        rbind (tracker_parse_options args []) (\<lambda>options.
        rbind (allow_only (cl_order env) options tracker_allowed) (\<lambda>_.
        rbind (tracker_require options ''--port'') (\<lambda>text.
        rbind (tracker_number text ''--port'') (\<lambda>requested_port.
        rbind (tracker_number (tracker_optional options ''--ttl-seconds'' ''30'') ''--ttl-seconds'') (\<lambda>ttl_seconds.
        if requested_port > 65535 \<or> ttl_seconds = 0
        then throw ''--port must be from 0 to 65535 and --ttl-seconds must be positive''
        else
          rbind (tracker_number (tracker_optional options ''--max-connections'' ''32'') ''--max-connections'') (\<lambda>max_connections.
          rbind (tracker_number (tracker_optional options ''--workers'' ''4'') ''--workers'') (\<lambda>workers.
          rbind (tracker_number (tracker_optional options ''--max-swarms'' ''1024'') ''--max-swarms'') (\<lambda>max_swarms.
          rbind (tracker_number (tracker_optional options ''--max-peers-per-swarm'' ''256'') ''--max-peers-per-swarm'') (\<lambda>max_peers.
          rbind (tracker_number (tracker_optional options ''--max-response-peers'' ''128'') ''--max-response-peers'') (\<lambda>max_response.
          rbind (tracker_token (cl_token env) options) (\<lambda>token.
          rbind (tracker_server_new (ucast requested_port) token (uint ttl_seconds)
                   (tracker_optional options ''--bind'' ''127.0.0.1'')
                   \<lparr>max_connections = max_connections, worker_count = workers, max_swarms = max_swarms,
                    max_peers_per_swarm = max_peers, max_response_peers = max_response\<rparr>) (\<lambda>srv. Inr (Some srv))))))))))))))"

section \<open>What command lines are accepted\<close>

text \<open>An accepted command line: help flags and settings in any order, no option set twice.\<close>

datatype cli_item = Help_flag | Setting string string

fun item_args :: "cli_item \<Rightarrow> string list" where
  "item_args Help_flag = [''--help'']"
| "item_args (Setting name value) = [name, value]"

fun good_item :: "cli_item \<Rightarrow> bool" where
  "good_item Help_flag = True"
| "good_item (Setting name value) \<longleftrightarrow> name \<noteq> ''--help'' \<and> starts_with name ''--'' \<and> \<not> starts_with value ''--''"

fun item_setting :: "cli_item \<Rightarrow> option_map" where
  "item_setting Help_flag = []"
| "item_setting (Setting name value) = [(name, value)]"

definition settings :: "cli_item list \<Rightarrow> option_map" where
  "settings items = concat (map item_setting items)"

lemma settings_simps [simp]:
  "settings [] = []" "settings (Help_flag # items) = settings items"
  "settings (Setting n v # items) = (n, v) # settings items"
  by (simp_all add: settings_def)

lemma parse_options_sound:
  "parse_options args opts = Inr opts' \<Longrightarrow> distinct (map fst (op_values opts)) \<Longrightarrow>
     \<exists>items. args = concat (map item_args items) \<and> list_all good_item items \<and> distinct (map fst (op_values opts @ settings items)) \<and>
       opts' = opts\<lparr>op_values := op_values opts @ settings items, op_help := op_help opts \<or> Help_flag \<in> set items\<rparr>"
proof (induction args opts rule: parse_options.induct)
  case (1 opts)
  then show ?case by (intro exI [of _ "[]"]) simp
next
  case (2 name rest opts)
  show ?case
  proof (cases "name = ''--help''")
    case True
    with 2 obtain items where "rest = concat (map item_args items)" "list_all good_item items"
      "distinct (map fst (op_values opts @ settings items))"
      "opts' = opts\<lparr>op_values := op_values opts @ settings items, op_help := True\<rparr>" by fastforce
    with True show ?thesis by (intro exI [of _ "Help_flag # items"]) simp
  next
    case False
    with 2(3) obtain v rest' where v: "rest = v # rest'" "starts_with name ''--''" "\<not> starts_with v ''--''"
      "map_of (op_values opts) name = None"
      "parse_options rest' (opts\<lparr>op_values := op_values opts @ [(name, v)]\<rparr>) = Inr opts'"
      by (auto split: if_splits list.splits)
    have "name \<notin> fst ` set (op_values opts)" using v(4) by (simp add: map_of_eq_None_iff)
    with 2(2) [OF False _ v(1)] v 2(4) obtain items where "rest' = concat (map item_args items)" "list_all good_item items"
      "distinct (map fst ((op_values opts @ [(name, v)]) @ settings items))"
      "opts' = opts\<lparr>op_values := (op_values opts @ [(name, v)]) @ settings items, op_help := op_help opts \<or> Help_flag \<in> set items\<rparr>"
      by auto
    with False v show ?thesis by (intro exI [of _ "Setting name v # items"]) simp
  qed
qed

lemma parse_options_complete:
  "list_all good_item items \<Longrightarrow> distinct (map fst (op_values opts @ settings items)) \<Longrightarrow>
     parse_options (concat (map item_args items)) opts =
       Inr (opts\<lparr>op_values := op_values opts @ settings items, op_help := op_help opts \<or> Help_flag \<in> set items\<rparr>)"
proof (induction items arbitrary: opts)
  case (Cons item items)
  show ?case
  proof (cases item)
    case Help_flag
    with Cons.prems Cons.IH [of "opts\<lparr>op_help := True\<rparr>"] show ?thesis by simp
  next
    case (Setting n v)
    with Cons.prems have "n \<notin> fst ` set (op_values opts)" by auto
    then have "map_of (op_values opts) n = None" by (simp add: map_of_eq_None_iff)
    with Setting Cons.prems Cons.IH [of "opts\<lparr>op_values := op_values opts @ [(n, v)]\<rparr>"] show ?thesis by simp
  qed
qed simp

text \<open>
  C37. Exactly these command lines are accepted (\<^verbatim>\<open>parse_options\<close> of \<^verbatim>\<open>apps/swarmsync_main.cpp\<close>): help flags and settings, each
  a name with two dashes followed by a value without them, with no name twice; the result has
  exactly the given settings. Everything else is refused.
\<close>

theorem parse_options_exact:
  "parse_options args no_options = Inr opts \<longleftrightarrow>
     (\<exists>items. args = concat (map item_args items) \<and> list_all good_item items \<and> distinct (map fst (settings items)) \<and>
        op_values opts = settings items \<and> op_help opts = (Help_flag \<in> set items))"
proof
  assume "parse_options args no_options = Inr opts"
  from parse_options_sound [OF this] show "\<exists>items. args = concat (map item_args items) \<and> list_all good_item items \<and>
      distinct (map fst (settings items)) \<and> op_values opts = settings items \<and> op_help opts = (Help_flag \<in> set items)"
    by (auto simp: no_options_def)
next
  assume "\<exists>items. args = concat (map item_args items) \<and> list_all good_item items \<and> distinct (map fst (settings items)) \<and>
    op_values opts = settings items \<and> op_help opts = (Help_flag \<in> set items)"
  then show "parse_options args no_options = Inr opts" using parse_options_complete [of _ no_options] by (auto simp: no_options_def)
qed

interpretation cp: unsigned_parser option_number
proof
  show "option_number s name = Inr w \<longleftrightarrow> s \<noteq> [] \<and> list_all is_digit s \<and> dec_value s = unat w" for s name w
    using from_chars_complete [of s w] by (auto simp: option_number_def split: prod.splits)
qed

interpretation tn: unsigned_parser tracker_number
proof
  show "tracker_number s name = Inr w \<longleftrightarrow> s \<noteq> [] \<and> list_all is_digit s \<and> dec_value s = unat w" for s name w
    using from_chars_complete [of s w] by (auto simp: tracker_number_def split: prod.splits)
qed

lemma unat_small_port: "w \<le> 65535 \<Longrightarrow> unat (ucast (w :: u32) :: u16) = unat w"
  by (simp add: word_le_nat_alt unsigned_ucast_eq take_bit_nat_eq_self)

lemma port_of_number: "unat (p :: u16) = n \<Longrightarrow> \<exists>w :: u32. unat w = n \<and> w \<le> 65535 \<and> ucast w = p"
proof (intro exI [of _ "of_nat n"] conjI)
  assume p: "unat p = n"
  then have n: "n < 65536" using unsigned_less [of p, where 'a = nat] by simp
  then show u: "unat (of_nat n :: u32) = n" by (simp add: unat_of_nat take_bit_nat_eq_self)
  with n show small: "(of_nat n :: u32) \<le> 65535" by (simp add: word_le_nat_alt)
  show "ucast (of_nat n :: u32) = p" using unat_small_port [OF small] u p by (intro injD [OF inj_unat]) simp
qed

lemma option_require_Inr: "option_require values name = Inr v \<longleftrightarrow> map_of values name = Some v \<and> v \<noteq> []"
  by (auto simp: option_require_def split: option.splits if_splits)

lemma tracker_require_Inr: "tracker_require values name = Inr v \<longleftrightarrow> map_of values name = Some v \<and> v \<noteq> []"
  by (auto simp: tracker_require_def split: option.splits if_splits)

text \<open>
  Ports are taken as they are written (\<^verbatim>\<open>port\<close>, \<^verbatim>\<open>listen_port\<close>): an option is accepted as a port exactly if it is a
  decimal number in the range of ports, without zero where a peer has to be reached, and the
  16-bit result is that number: the narrowing cast never cuts anything off.
\<close>

theorem option_ports_exact:
  "(option_port values name = Inr p \<longleftrightarrow>
      (\<exists>v. map_of values name = Some v \<and> v \<noteq> [] \<and> list_all is_digit v \<and> dec_value v = unat p \<and> p \<noteq> 0)) \<and>
   (option_listen_port values name = Inr p \<longleftrightarrow>
      (\<exists>v. map_of values name = Some v \<and> v \<noteq> [] \<and> list_all is_digit v \<and> dec_value v = unat p))"
proof -
  have zero: "(ucast w :: u16) = 0 \<longleftrightarrow> w = 0" if "w \<le> 65535" for w :: u32
    using unat_small_port [OF that] by (metis unat_eq_0)
  have listen: "option_listen_port values name = Inr p \<longleftrightarrow>
      (\<exists>v (w :: u32). map_of values name = Some v \<and> v \<noteq> [] \<and> list_all is_digit v \<and> dec_value v = unat w \<and> w \<le> 65535 \<and> p = ucast w)"
  proof -
    have cut: "(if w > 65535 then throw m else Inr (ucast w)) = Inr p \<longleftrightarrow> w \<le> 65535 \<and> p = (ucast w :: u16)" for w :: u32 and m
      by (cases "w > 65535") (auto simp: not_less)
    show ?thesis by (simp only: option_listen_port_def rbind_eq_Inr option_require_Inr cp.parse_Inr cut) blast
  qed
  have port: "option_port values name = Inr p \<longleftrightarrow> option_listen_port values name = Inr p \<and> p \<noteq> 0"
    using zero by (auto simp: option_port_def option_listen_port_def result_simps option_require_Inr cp.parse_Inr not_less split: if_splits)
  have "option_listen_port values name = Inr p \<longleftrightarrow>
      (\<exists>v. map_of values name = Some v \<and> v \<noteq> [] \<and> list_all is_digit v \<and> dec_value v = unat p)"
    unfolding listen using unat_small_port port_of_number by metis
  with port show ?thesis by blast
qed

lemma allow_each_Inr: "allow_each allowed xs = Inr () \<longleftrightarrow> fst ` set xs \<subseteq> set allowed"
  by (induction allowed xs rule: allow_each.induct) (auto simp: list_ex_iff)

lemma allow_only_Inr:
  assumes "\<And>xs. set (order xs) = set xs"
  shows "allow_only order values allowed = Inr () \<longleftrightarrow> fst ` set values \<subseteq> set allowed"
  by (simp add: allow_only_def allow_each_Inr assms)

text \<open>
  The tracker that is started is the one that was asked for (\<^verbatim>\<open>main\<close> of \<^verbatim>\<open>apps/tracker_main.cpp\<close>): its port is the number
  given, its limits are positive and consistent with one another, it has a token and a positive time to live, and no
  option that the program does not know was given.
\<close>

theorem tracker_main_starts:
  assumes "tracker_main env args = Inr (Some srv)" and "\<And>xs. set (cl_order env xs) = set xs"
  shows "\<exists>opts. tracker_parse_options args [] = Inr opts \<and> fst ` set opts \<subseteq> set tracker_allowed \<and>
    (\<exists>v. map_of opts ''--port'' = Some v \<and> list_all is_digit v \<and> dec_value v = unat (ts_requested_port srv)) \<and>
    ts_token srv \<noteq> [] \<and> ts_bind_address srv \<noteq> [] \<and> wf_server srv \<and>
    0 < worker_count (ts_limits srv) \<and> worker_count (ts_limits srv) \<le> max_connections (ts_limits srv) \<and>
    max_response_peers (ts_limits srv) \<le> max_peers_per_swarm (ts_limits srv)"
proof -
  obtain opts digits p ttl token bind' limits where
    opts: "tracker_parse_options args [] = Inr opts" "allow_only (cl_order env) opts tracker_allowed = Inr ()"
    and p: "tracker_require opts ''--port'' = Inr digits" "tracker_number digits ''--port'' = Inr p" "\<not> p > 65535"
    and srv: "tracker_server_new (ucast p) token ttl bind' limits = Inr srv"
    using assms(1) by (auto simp: tracker_main_def result_simps split: if_splits)
  have "ts_requested_port srv = ucast p" "ts_token srv \<noteq> []" "ts_bind_address srv \<noteq> []"
    "0 < worker_count (ts_limits srv)" "worker_count (ts_limits srv) \<le> max_connections (ts_limits srv)"
    "max_response_peers (ts_limits srv) \<le> max_peers_per_swarm (ts_limits srv)"
    using srv by (auto simp: tracker_server_new_def word_gt_0 split: if_splits)
  moreover have "wf_server srv" by (rule tracker_server_new_wf [OF srv])
  moreover have "map_of opts ''--port'' = Some digits" "list_all is_digit digits" "dec_value digits = unat (ucast p :: u16)"
    using p unat_small_port [of p] by (auto simp: tracker_require_Inr tn.parse_Inr not_less)
  moreover have "fst ` set opts \<subseteq> set tracker_allowed" using opts(2) allow_only_Inr assms(2) by blast
  ultimately show ?thesis using opts(1) by auto
qed

lemma sample_numbers:
  "tracker_number ''7000'' x = Inr 7000" "tracker_number ''30'' x = Inr 30" "tracker_number ''32'' x = Inr 32"
  "tracker_number ''2'' x = Inr 2" "tracker_number ''1024'' x = Inr 1024" "tracker_number ''256'' x = Inr 256"
  "tracker_number ''128'' x = Inr 128"
  by (simp_all add: tn.parse_Inr is_digit_def dec_value_def digit_value_def)

theorem tracker_main_starts_witness:
  "\<exists>srv. tracker_main \<lparr>cl_token = None, cl_order = id\<rparr> [''--port'', ''7000'', ''--token'', ''tok'', ''--workers'', ''2''] = Inr (Some srv) \<and>
     wf_server srv \<and> worker_count (ts_limits srv) \<le> max_connections (ts_limits srv)"
proof -
  let ?env = "\<lparr>cl_token = None, cl_order = id\<rparr>"
  let ?args = "[''--port'', ''7000'', ''--token'', ''tok'', ''--workers'', ''2'']"
  obtain srv where srv: "tracker_main ?env ?args = Inr (Some srv)"
    by (simp add: tracker_main_def tracker_allowed_def allow_only_def tracker_require_def tracker_optional_def sample_numbers
        tracker_token_def tracker_server_new_def starts_with_def)
  from tracker_main_starts [OF this] srv show ?thesis by auto
qed

section \<open>Seeding\<close>

lemma with_connection_fds:
  assumes "with_connection net e timeout body t = (r, c, t')" and "connect_fresh (net, e, timeout) t"
  shows "open_fds t' = open_fds t"
proof (cases "connect_tcp net e timeout t")
  case (Pair x t1)
  from connect_tcp_table [OF Pair assms(2)] cn.scoped_use [of "(net, e, timeout)" t _ t1] assms Pair show ?thesis
    by (cases x) (auto simp: with_connection_def split: prod.splits)
qed

lemma client_announce_fds:
  assumes "client_announce tracker ad net t = (r, c, t')" and "connect_fresh (net, tc_endpoint tracker, tc_timeout tracker) t"
  shows "open_fds t' = open_fds t"
  using assms(1) unfolding client_announce_def Let_def
  by (auto dest: with_connection_fds [OF _ assms(2)] split: sum.splits)

lemma seed_announce_fds:
  assumes "seed_announce evp plan listener tracker net t = (r, t')" and "connect_fresh (net, tc_endpoint tracker, tc_timeout tracker) t"
  shows "open_fds t' = open_fds t"
  using assms(1) unfolding seed_announce_def
  by (auto dest: client_announce_fds [OF _ assms(2)] split: sum.splits prod.splits)

lemma seed_loop_fds:
  assumes "seed_loop evp plan listener tracker beats t = (logged, r, t')"
    and "\<forall>net\<in>fst ` set beats. \<forall>u. open_fds u = open_fds t \<longrightarrow> connect_fresh (net, tc_endpoint tracker, tc_timeout tracker) u"
  shows "open_fds t' = open_fds t"
  using assms
proof (induction beats arbitrary: t logged)
  case (Cons beat beats)
  obtain net now where beat: "beat = (net, now)" by fastforce
  obtain x t1 where a: "seed_announce evp plan listener tracker net t = (x, t1)" by fastforce
  have same: "open_fds t1 = open_fds t" using seed_announce_fds [OF a] Cons.prems(2) beat by simp
  show ?case
  proof (cases "\<exists>e. x = Inl (Filesystem_error e)")
    case True
    then have "t' = t1" using a Cons.prems(1) beat by auto
    then show ?thesis by (simp only: same)
  next
    case False
    then obtain logged' where "seed_loop evp plan listener tracker beats t1 = (logged', r, t')"
      using a Cons.prems(1) beat by (auto split: sum.splits exc.splits prod.splits)
    moreover have "\<forall>net\<in>fst ` set beats. \<forall>u. open_fds u = open_fds t1 \<longrightarrow> connect_fresh (net, tc_endpoint tracker, tc_timeout tracker) u"
      using Cons.prems(2) unfolding same by simp
    ultimately have "open_fds t' = open_fds t1" by (rule Cons.IH)
    then show ?thesis unfolding same .
  qed
qed simp

lemma client_new: "tracker_client_new e token timeout = Inr tracker \<Longrightarrow> tc_endpoint tracker = e \<and> tc_timeout tracker = timeout"
  by (auto simp: tracker_client_new_def split: if_splits)

lemma seed_session_fds:
  assumes run: "seed_session evp plan listener first beats t = (printed, logged, r, t')"
    and fresh: "\<forall>net\<in>set (first # map fst beats). \<forall>u. open_fds u = open_fds t \<longrightarrow> connect_fresh (net, sp_tracker plan, 3000) u"
  shows "open_fds t' = open_fds t"
proof (cases "tracker_client_new (sp_tracker plan) (ps_token (sp_peer plan)) 3000")
  case (Inl e)
  with run show ?thesis by (simp add: seed_session_def)
next
  case (Inr tracker)
  note C = client_new [OF this]
  obtain x t1 where a: "seed_announce evp plan listener tracker first t = (x, t1)" by fastforce
  have same: "open_fds t1 = open_fds t" using seed_announce_fds [OF a] fresh C by simp
  show ?thesis
  proof (cases x)
    case (Inl e)
    then have "t' = t1" using run a Inr by (simp add: seed_session_def)
    then show ?thesis by (simp only: same)
  next
    case (Inr v)
    then consider "t' = t1" | "seed_loop evp plan listener tracker beats t1 = (logged, r, t')"
      using run a \<open>tracker_client_new _ _ _ = _\<close> by (auto simp: seed_session_def split: prod.splits sum.splits)
    moreover have "\<forall>net\<in>fst ` set beats. \<forall>u. open_fds u = open_fds t1 \<longrightarrow> connect_fresh (net, tc_endpoint tracker, tc_timeout tracker) u"
      using fresh C unfolding same by simp
    ultimately have "open_fds t' = open_fds t1" by cases (simp, metis seed_loop_fds)
    then show ?thesis by (simp only: same)
  qed
qed

text \<open>
  C35. Seeding gives back every descriptor (\<^verbatim>\<open>seed\<close> of \<^verbatim>\<open>apps/swarmsync_main.cpp\<close>): however the server starts, the
  first announcement and the heartbeats go, and whether the command ends with a signal or an
  exception, the open descriptors afterwards are those from before. Needed is only that the system does
  not hand out descriptors that are open.
\<close>

theorem seed_leaves_no_descriptor:
  assumes run: "seed_serve evp plan lookup sockname first beats t = (printed, logged, r, t')"
    and listen: "listen_fresh (lookup, ps_port (sp_peer plan), ps_bind_address (sp_peer plan), 64) t"
    and fresh: "\<forall>net\<in>set (first # map fst beats). \<forall>u.
      open_fds u = open_fds (snd (snd (peer_start (sp_peer plan) lookup sockname listener_down t))) \<longrightarrow>
      connect_fresh (net, sp_tracker plan, 3000) u"
  shows "open_fds t' = open_fds t"
proof (cases "peer_server_new (sp_peer plan)")
  case (Inl e)
  with run show ?thesis by (simp add: seed_serve_def)
next
  case (Inr config)
  then have config: "config = sp_peer plan" using peer_server_new_valid by blast
  obtain x listener t1 where start: "peer_start (sp_peer plan) lookup sockname listener_down t = (x, listener, t1)"
    by (metis prod_cases3)
  have down: "\<not> sl_running listener_down" "sl_listener listener_down = no_socket" by (simp_all add: listener_down_def)
  note S = server_start_outcome [OF down listen start [unfolded peer_start_def]]
  show ?thesis
  proof (cases x)
    case (Inl e)
    with run Inr config start S show ?thesis by (auto simp: seed_serve_def)
  next
    case x: (Inr u)
    obtain pr lg r2 t2 where session: "seed_session evp plan listener first beats t1 = (pr, lg, r2, t2)" by (metis prod_cases4)
    have t': "t' = snd (server_stop listener t2)"
      using run Inr config start x session by (simp add: seed_serve_def Let_def)
    have "open_fds t2 = open_fds t1" by (rule seed_session_fds [OF session]) (use fresh start in auto)
    moreover have "sl_running listener" "sl_listener listener \<notin> open_fds t" "open_fds t1 = insert (sl_listener listener) (open_fds t)"
      "server_stop listener t1 = (listener_down\<lparr>sl_endpoint := sl_endpoint listener\<rparr>, t)"
      using S x by auto
    ultimately show ?thesis unfolding t'
      by (auto simp: server_stop_def socket_close_def socket_release_def close_fd_def Let_def split: if_splits)
  qed
qed

definition sample_plan :: seed_plan where
  "sample_plan = \<lparr>sp_peer = sample_peer, sp_tracker = sample_endpoint, sp_peer_id = ''seed'', sp_heartbeat = 1000\<rparr>"

theorem seed_leaves_no_descriptor_witness:
  "open_fds (snd (snd (snd (seed_serve sample_evp sample_plan (Inr [sample_listen]) (Inr (Inet 4000)) (\<lambda>_. Inl ''unreachable'') [] sample_fds)))) =
     open_fds sample_fds"
proof -
  have p: "ps_port sample_peer = 0" "ps_bind_address sample_peer = ''127.0.0.1''" "sp_peer sample_plan = sample_peer"
    by (simp_all add: sample_peer_def sample_plan_def)
  obtain printed logged r t' where run: "seed_serve sample_evp sample_plan (Inr [sample_listen]) (Inr (Inet 4000)) (\<lambda>_. Inl ''unreachable'') []
    sample_fds = (printed, logged, r, t')" by (metis prod_cases4)
  from seed_leaves_no_descriptor [OF run] sample_listening(1) have "open_fds t' = open_fds sample_fds"
    by (simp add: p connect_fresh_def)
  with run show ?thesis by simp
qed

section \<open>A manifest that was created can be seeded\<close>

lemma save_keeps_file:
  assumes "manifest_save save m f q = (Inr (), f1)" and "nodes f p = Some (Regular d)" and "q \<noteq> p"
    and "length (manifest_text m) \<le> out_stored save"
  shows "nodes f1 p = Some (Regular d) \<and> nodes f1 q = Some (Regular (manifest_text m)) \<and>
    unreadable f1 = unreadable f \<and> fault_at f1 = fault_at f"
proof -
  have "manifest_serialize m = Inr (manifest_text m)"
    using assms(1) by (auto simp: manifest_save_def manifest_serialize_def result_simps Let_def split: if_splits sum.splits)
  with assms show ?thesis
    by (auto simp: manifest_save_def Let_def nodes_create_directories node_simps split: if_splits)
qed

text \<open>
  C16. What was created can be seeded and served (\<^verbatim>\<open>create_manifest\<close>, then \<^verbatim>\<open>seed\<close>): when the first command succeeds
  and its output reaches the disk, \<^verbatim>\<open>seed\<close> loads exactly the manifest that was made, the file passes its
  check, and whenever the remaining options are accepted, the server answers each well-formed request
  for a chunk with exactly the bytes of that chunk of the file.
\<close>

theorem created_manifest_is_served:
  assumes evp: "evp_computes evp H"
    and node: "nodes f p = Some (Regular d)" "\<not> unreadable f p" "fault_at f p = None" "length d < 2 ^ 64"
    and target: "q \<noteq> p" "\<not> unreadable f q" "fault_at f q = None"
    and args: "map_of (op_values opts) ''--file'' = Some p" "map_of (op_values opts) ''--out'' = Some q"
    and created: "create_manifest evp env save opts f = (printed, Inr (), f1)"
    and stored: "\<forall>m c. option_number (option_optional (op_values opts) ''--chunk-size'' ''262144'') ''--chunk-size'' = Inr c \<longrightarrow>
      manifest_from_file evp f p c = Inr m \<longrightarrow> length (manifest_text m) \<le> out_stored save"
    and args': "map_of (op_values opts') ''--file'' = Some p" "map_of (op_values opts') ''--manifest'' = Some q"
  shows "\<exists>m. manifest_load f1 q = Inr m \<and> check_seed_file evp f1 p m = Inr () \<and> describes H m d \<and>
    (\<forall>plan config swarm (i :: u32) c. seed_prepare evp env' opts' f1 = Inr plan \<longrightarrow> peer_server_new (sp_peer plan) = Inr config \<longrightarrow>
       manifest_swarm_id evp m = Inr swarm \<longrightarrow> unat i < length (chunk_hashes m) \<longrightarrow> safe_atom (ps_token config) \<longrightarrow>
       pending (incoming c) = ''GET '' @ ps_token config @ '' '' @ swarm @ '' '' @ dec (unat i) @ [nl] \<longrightarrow>
       0 \<le> native_handle c \<longrightarrow> (\<forall>e. Send_failed e \<notin> set (sending c)) \<longrightarrow>
       sent (serve_connection evp config f1 c) = sent c @ data_reply (chunk_bytes m d (unat i)) (chunk_hashes m ! unat i))"
proof -
  obtain m chunk_size where m: "manifest_from_file evp f p chunk_size = Inr m" "manifest_save save m f q = (Inr (), f1)"
    "option_number (option_optional (op_values opts) ''--chunk-size'' ''262144'') ''--chunk-size'' = Inr chunk_size"
    using created args
    by (auto simp: create_manifest_def result_simps option_require_Inr split: sum.splits prod.splits)
  note D = from_file_describes [OF evp node m(1)]
  note S = save_keeps_file [OF m(2) node(1) target(1) stored [rule_format, OF m(3,1)]]
  have load: "manifest_load f1 q = Inr m"
    using S target D manifest_parse_text by (simp add: manifest_load_def open_in_def)
  have sha: "sha256_hex evp b = Inr (hex_encode (H b))" for b using evp by (rule sha256_hex_computes)
  have "sha256_file evp f1 p = Inr (file_sha256 m)"
    using sha256_file_plain [OF evp, of f1 p d] S node sha D by (simp add: describes_def)
  moreover have "is_regular_file f1 p" "file_size f1 p = file_size_bytes m"
    using S D by (simp_all add: is_regular_file_def file_size_def file_data_def describes_def)
  ultimately have check: "check_seed_file evp f1 p m = Inr ()" by (simp add: check_seed_file_def)
  have "sent (serve_connection evp config f1 c) = sent c @ data_reply (chunk_bytes m d (unat i)) (chunk_hashes m ! unat i)"
    if plan: "seed_prepare evp env' opts' f1 = Inr plan" "peer_server_new (sp_peer plan) = Inr config"
      and swarm: "manifest_swarm_id evp m = Inr swarm" and i: "unat i < length (chunk_hashes m)" and tok: "safe_atom (ps_token config)"
      and c: "pending (incoming c) = ''GET '' @ ps_token config @ '' '' @ swarm @ '' '' @ dec (unat i) @ [nl]"
        "0 \<le> native_handle c" "\<forall>e. Send_failed e \<notin> set (sending c)" for plan config swarm and i :: u32 and c
  proof -
    have cfg: "ps_manifest (sp_peer plan) = m" "ps_file_path (sp_peer plan) = p" "ps_has_chunk (sp_peer plan) = None"
      using plan(1) args' load by (auto simp: seed_prepare_def result_simps option_require_Inr Let_def split: if_splits)
    have "config = sp_peer plan" using peer_server_new_valid [OF plan(2)] by simp
    with serve_connection_chunk [OF plan(2), of f1 d i evp swarm c] cfg S node D sha swarm i tok c show ?thesis
      by (simp add: has_chunk_def describes_def data_reply_def)
  qed
  with load check D show ?thesis by blast
qed

definition sample_create :: options where
  "sample_create = \<lparr>op_values = [(''--file'', ''a.bin''), (''--out'', ''m''), (''--chunk-size'', ''3'')], op_help = False\<rparr>"

definition sample_save :: save_env where
  "sample_save = \<lparr>mkdir_error = None, out_opens = True, out_good = True, out_stored = length (manifest_text sample_seed)\<rparr>"

definition sample_cli :: cli_env where
  "sample_cli = \<lparr>cl_token = Some ''tok'', cl_order = id\<rparr>"

definition sample_share :: options where
  "sample_share = \<lparr>op_values = [(''--manifest'', ''m''), (''--file'', ''a.bin''), (''--tracker-host'', ''h''), (''--tracker-port'', ''7000''),
     (''--listen-port'', ''7000''), (''--peer-id'', ''s'')], op_help = False\<rparr>"

lemma sample_source: "manifest_from_file sample_evp (no_faults ''a.bin'' ''abcdefgh'') ''a.bin'' 3 = Inr sample_seed"
proof -
  have b: "blocks 3 ''abcdefgh'' = [''abc'', ''def'', ''gh'']" by (simp add: blocks.simps)
  have n: "path_filename ''a.bin'' = ''a.bin''" by (simp add: path_filename_def)
  show ?thesis
    using manifest_from_file_blocks [OF sample_evp_computes, of "no_faults ''a.bin'' ''abcdefgh''" "''a.bin''" "''abcdefgh''" 3]
    by (simp add: b n no_faults_def kMaxChunkSize_def kMaxChunkCount_def safe_file_name_def sample_seed_def)
qed

lemma sample_create_values:
  "map_of (op_values sample_create) ''--file'' = Some ''a.bin''" "map_of (op_values sample_create) ''--out'' = Some ''m''"
  "option_number (option_optional (op_values sample_create) ''--chunk-size'' ''262144'') x = Inr 3"
  "allow_only id (op_values sample_create) [''--file'', ''--out'', ''--chunk-size''] = Inr ()"
  "map_of (op_values sample_share) ''--file'' = Some ''a.bin''" "map_of (op_values sample_share) ''--manifest'' = Some ''m''"
  by (simp_all add: sample_create_def sample_share_def allow_only_def option_optional_def cp.parse_Inr is_digit_def dec_value_def digit_value_def)

theorem created_manifest_is_served_witness:
  "\<exists>printed f1 m. create_manifest sample_evp sample_cli sample_save sample_create (no_faults ''a.bin'' ''abcdefgh'') = (printed, Inr (), f1) \<and>
     manifest_load f1 ''m'' = Inr m \<and> check_seed_file sample_evp f1 ''a.bin'' m = Inr ()"
proof -
  define f where "f = no_faults ''a.bin'' ''abcdefgh''"
  have f: "nodes f ''a.bin'' = Some (Regular ''abcdefgh'')" "\<not> unreadable f x" "fault_at f x = None" for x
    by (simp_all add: f_def no_faults_def)
  have src: "manifest_from_file sample_evp f ''a.bin'' 3 = Inr sample_seed" using sample_source by (simp add: f_def)
  obtain f1 where save: "manifest_save sample_save sample_seed f ''m'' = (Inr (), f1)"
    using sample_seed_valid by (simp add: manifest_save_def sample_save_def manifest_serialize_def Let_def)
  obtain swarm where "manifest_swarm_id sample_evp sample_seed = Inr swarm" using sample_swarm by blast
  with src save sample_create_values obtain printed where
    made: "create_manifest sample_evp sample_cli sample_save sample_create f = (printed, Inr (), f1)"
    by (simp add: create_manifest_def sample_cli_def option_require_def created_text_def Let_def)
  have stored: "\<forall>m c. option_number (option_optional (op_values sample_create) ''--chunk-size'' ''262144'') ''--chunk-size'' = Inr c \<longrightarrow>
      manifest_from_file sample_evp f ''a.bin'' c = Inr m \<longrightarrow> length (manifest_text m) \<le> out_stored sample_save"
    using src sample_create_values(3) by (simp add: sample_save_def)
  from created_manifest_is_served [where env' = sample_cli, OF sample_evp_computes f(1) f(2,3) _ _ f(2,3) sample_create_values(1,2) made stored
      sample_create_values(5,6)]
  obtain m where "manifest_load f1 ''m'' = Inr m" "check_seed_file sample_evp f1 ''a.bin'' m = Inr ()" by auto
  with made show ?thesis unfolding f_def by blast
qed

end
