(* ===== verification/Programs.thy ===== *)
theory Programs
  imports Cli
begin

text \<open>
  The two programs as a whole (\<^verbatim>\<open>main\<close> of \<^verbatim>\<open>apps/swarmsync_main.cpp\<close> and \<^verbatim>\<open>apps/tracker_main.cpp\<close>): what they print, what they
  leave on the error stream, and their exit codes.
\<close>

section \<open>The end of a program\<close>

record program_end =
  pe_code :: int
  pe_out :: string
  pe_err :: string

fun what :: "exc \<Rightarrow> string" where
  "what (Error m) = m"
| "what (Filesystem_error m) = m"

text \<open>
  The handler around \<^verbatim>\<open>main\<close>: an exception is printed on the error stream, behind what was logged there.
\<close>

definition program_ends :: "string \<Rightarrow> string \<Rightarrow> unit result \<Rightarrow> program_end" where
  "program_ends printed logged r =
     (case r of
        Inr _ \<Rightarrow> \<lparr>pe_code = 0, pe_out = printed, pe_err = logged\<rparr>
      | Inl e \<Rightarrow> \<lparr>pe_code = 1, pe_out = printed, pe_err = logged @ ''error: '' @ what e @ [nl]\<rparr>)"

section \<open>The program \<^verbatim>\<open>swarmsync\<close>\<close>

definition print_usage :: string where
  "print_usage =
     ''SwarmSync private peer-to-peer file sharing'' @ [nl, nl] @
     ''Commands:'' @ [nl] @
     ''  manifest create --file <path> --out <path> [--chunk-size <bytes>]'' @ [nl] @
     ''  seed --manifest <path> --file <path> --tracker-host <host> --tracker-port <port>'' @ [nl] @
     ''       --listen-port <0-65535> --peer-id <id> [--bind <address>] [--heartbeat-ms <ms>]'' @ [nl] @
     ''  download --manifest <path> --out-dir <directory> --tracker-host <host> --tracker-port <port>'' @ [nl] @
     ''       --listen-port <0-65535> --peer-id <id> [--workers <count>] [--retries <count>]'' @ [nl, nl] @
     ''Read the token from SWARMSYNC_TOKEN by default. --token is an explicit override.'' @ [nl]"

text \<open>The last statement of \<^verbatim>\<open>download\<close>; \<open>elapsed\<close> is the time that the run took, in milliseconds.\<close>

definition download_text :: "nat \<Rightarrow> download_result \<Rightarrow> string" where
  "download_text elapsed result =
     ''Verified download completed: '' @ quoted (dr_final_path result) @ [nl] @ ''Chunks: '' @ dec (dr_completed_chunks result) @
     ''  Retry events: '' @ dec (dr_retry_events result) @ ''  Elapsed: '' @ dec elapsed @ '' ms'' @ [nl]"

text \<open>What the system answers to a run of the program.\<close>

record machine =
  mc_save :: save_env
  mc_run :: run_env
  mc_lookup :: "string + listen_attempt list"
  mc_sockname :: "string + sock_name"
  mc_first :: network
  mc_beats :: "(network \<times> tm) list"
  mc_fds :: fd_table

text \<open>
  The program on its arguments: how it ends, and the states of the file system. The threads of a download may log
  anything before it ends.
\<close>

inductive swarmsync_program ::
  "'c evp \<Rightarrow> cli_env \<Rightarrow> machine \<Rightarrow> string list \<Rightarrow> fs \<Rightarrow> program_end \<Rightarrow> fs list \<Rightarrow> bool" for evp env mc args f where
  Misused: "swarmsync_main args = Inl e \<Longrightarrow> swarmsync_program evp env mc args f (program_ends [] [] (Inl e)) [f]"
| Explains: "swarmsync_main args = Inr Usage \<Longrightarrow> swarmsync_program evp env mc args f (program_ends print_usage [] (Inr ())) [f]"
| Creates: "swarmsync_main args = Inr (Create_manifest options) \<Longrightarrow>
    create_manifest evp env (mc_save mc) options f = (printed, r, f') \<Longrightarrow>
    swarmsync_program evp env mc args f (program_ends printed [] r) [f, f']"
| Seeds: "swarmsync_main args = Inr (Seed options) \<Longrightarrow>
    seed evp env options f (mc_lookup mc) (mc_sockname mc) (mc_first mc) (mc_beats mc) (mc_fds mc) = (printed, logged, r, t) \<Longrightarrow>
    swarmsync_program evp env mc args f (program_ends printed logged r) [f]"
| Downloads: "swarmsync_main args = Inr (Download options) \<Longrightarrow>
    download_command evp env (mc_run mc) options f (Inr result) states \<Longrightarrow>
    swarmsync_program evp env mc args f (program_ends (download_text elapsed result) logged (Inr ())) states"
| Download_fails: "swarmsync_main args = Inr (Download options) \<Longrightarrow>
    download_command evp env (mc_run mc) options f (Inl e) states \<Longrightarrow>
    swarmsync_program evp env mc args f (program_ends [] logged (Inl e)) states"

inductive_cases swarmsync_program_cases: "swarmsync_program evp env mc args f p states"

section \<open>The program \<^verbatim>\<open>swarmsync-tracker\<close>\<close>

definition tracker_usage :: string where
  "tracker_usage =
     ''Usage: swarmsync-tracker --port <0-65535> [--bind <address>] [--ttl-seconds <seconds>]'' @ [nl] @
     ''       [--max-connections <count>] [--workers <count>] [--max-swarms <count>]'' @ [nl] @
     ''       [--max-peers-per-swarm <count>] [--max-response-peers <count>] [--token <token>]'' @ [nl]"

definition tracker_text :: "tracker_server \<Rightarrow> server_listener \<Rightarrow> string \<times> unit result" where
  "tracker_text srv listener =
     (let start = ''SwarmSync tracker listening on ''
      in case server_endpoint ''Tracker server'' listener of
           Inl e \<Rightarrow> (start, Inl e)
         | Inr e \<Rightarrow> (start @ host e @ '':'' @ dec (unat (port e)) @ '' with presence TTL '' @ dec (nat (ts_ttl srv)) @ '' seconds'' @ [nl] @
             ''Press Ctrl+C to stop.'' @ [nl], Inr ()))"

text \<open>
  From \<^verbatim>\<open>start\<close> on. The program waits for a signal and stops the server; when printing throws, the destructor stops it.
\<close>

definition tracker_serve ::
  "tracker_server \<Rightarrow> string + listen_attempt list \<Rightarrow> string + sock_name \<Rightarrow> fd_table \<Rightarrow> string \<times> unit result \<times> fd_table" where
  "tracker_serve srv lookup sockname t =
     (case tracker_start srv lookup sockname listener_down t of
        (Inl e, _, t) \<Rightarrow> ([], Inl e, t)
      | (Inr _, listener, t) \<Rightarrow>
          let (printed, r) = tracker_text srv listener in (printed, r, snd (server_stop listener t)))"

definition tracker_program ::
  "cli_env \<Rightarrow> string list \<Rightarrow> string + listen_attempt list \<Rightarrow> string + sock_name \<Rightarrow> fd_table \<Rightarrow> program_end \<times> fd_table" where
  "tracker_program env args lookup sockname t =
     (case tracker_main env args of
        Inl e \<Rightarrow> (program_ends [] [] (Inl e), t)
      | Inr None \<Rightarrow> (program_ends tracker_usage [] (Inr ()), t)
      | Inr (Some srv) \<Rightarrow> let (printed, r, t) = tracker_serve srv lookup sockname t in (program_ends printed [] r, t))"

section \<open>Exit codes\<close>

lemma program_ends_code: "pe_code (program_ends printed logged r) = (if r = Inr () then 0 else 1)"
  by (auto simp: program_ends_def split: sum.splits)

text \<open>
  The exit code tells success from failure (\<^verbatim>\<open>main\<close> of \<^verbatim>\<open>apps/swarmsync_main.cpp\<close>): a run ends with 0 or with 1. It ends with
  1 exactly if its command line is refused or its command throws, and then the error stream ends with the
  message of that exception; with 0 the command did all its work.
\<close>

theorem swarmsync_exit_code:
  assumes "swarmsync_program evp env mc args f p states"
  shows "(pe_code p = 0 \<or> pe_code p = 1) \<and>
    (pe_code p = 1 \<longrightarrow> (\<exists>logged e. pe_err p = logged @ ''error: '' @ what e @ [nl] \<and>
       (swarmsync_main args = Inl e \<or>
        (\<exists>options. swarmsync_main args = Inr (Create_manifest options) \<and> fst (snd (create_manifest evp env (mc_save mc) options f)) = Inl e) \<or>
        (\<exists>options. swarmsync_main args = Inr (Seed options) \<and>
           fst (snd (snd (seed evp env options f (mc_lookup mc) (mc_sockname mc) (mc_first mc) (mc_beats mc) (mc_fds mc)))) = Inl e) \<or>
        (\<exists>options. swarmsync_main args = Inr (Download options) \<and> download_command evp env (mc_run mc) options f (Inl e) states)))) \<and>
    (pe_code p = 0 \<longrightarrow>
       (swarmsync_main args = Inr Usage \<and> pe_out p = print_usage \<or>
        (\<exists>options. swarmsync_main args = Inr (Create_manifest options) \<and> fst (snd (create_manifest evp env (mc_save mc) options f)) = Inr ()) \<or>
        (\<exists>options. swarmsync_main args = Inr (Seed options) \<and>
           fst (snd (snd (seed evp env options f (mc_lookup mc) (mc_sockname mc) (mc_first mc) (mc_beats mc) (mc_fds mc)))) = Inr ()) \<or>
        (\<exists>options result elapsed. swarmsync_main args = Inr (Download options) \<and> pe_out p = download_text elapsed result \<and>
           download_command evp env (mc_run mc) options f (Inr result) states)))"
  using assms
proof (cases rule: swarmsync_program.cases)
  case (Creates options printed r f')
  then show ?thesis by (cases r) (auto simp: program_ends_def)
next
  case (Seeds options printed logged r t)
  then show ?thesis by (cases r) (auto simp: program_ends_def)
qed (auto simp: program_ends_def)

text \<open>
  The tracker's program gives back every descriptor (\<^verbatim>\<open>main\<close> of \<^verbatim>\<open>apps/tracker_main.cpp\<close>): whether it only prints how
  it is used, refuses its options, cannot listen, or serves until a signal comes, the open descriptors
  afterwards are those from before; it ends with 0 or 1, and with 1 exactly if an exception was printed.
\<close>

theorem tracker_program_ends:
  assumes run: "tracker_program env args lookup sockname t = (p, t')"
    and fresh: "\<forall>srv. tracker_main env args = Inr (Some srv) \<longrightarrow>
      listen_fresh (lookup, ts_requested_port srv, ts_bind_address srv, 64) t"
  shows "open_fds t' = open_fds t \<and> (pe_code p = 0 \<and> pe_err p = [] \<or> pe_code p = 1 \<and> (\<exists>e. pe_err p = ''error: '' @ what e @ [nl]))"
proof -
  have ends: "pe_code (program_ends printed [] r) = 0 \<and> pe_err (program_ends printed [] r) = [] \<or>
      pe_code (program_ends printed [] r) = 1 \<and> (\<exists>e. pe_err (program_ends printed [] r) = ''error: '' @ what e @ [nl])" for printed r
    by (auto simp: program_ends_def split: sum.splits)
  show ?thesis
  proof (cases "\<exists>srv. tracker_main env args = Inr (Some srv)")
    case False
    with run ends show ?thesis by (fastforce simp: tracker_program_def split: sum.splits option.splits)
  next
    case True
    then obtain srv where srv: "tracker_main env args = Inr (Some srv)" by blast
    obtain x listener t1 where start: "tracker_start srv lookup sockname listener_down t = (x, listener, t1)" by (metis prod_cases3)
    have down: "\<not> sl_running listener_down" "sl_listener listener_down = no_socket" by (simp_all add: listener_down_def)
    have fr: "listen_fresh (lookup, ts_requested_port srv, ts_bind_address srv, 64) t" using fresh srv by blast
    note S = server_start_outcome [OF down fr start [unfolded tracker_start_def]]
    have "t' = (if x = Inr () then snd (server_stop listener t1) else t1)" "\<exists>printed r. p = program_ends printed [] r"
      using run srv start by (auto simp: tracker_program_def tracker_serve_def Let_def split: sum.splits prod.splits)
    then have "t' = t" "\<exists>printed r. p = program_ends printed [] r" using S by (auto split: if_splits)
    with ends show ?thesis by auto
  qed
qed

theorem tracker_program_ends_witness:
  "open_fds (snd (tracker_program \<lparr>cl_token = None, cl_order = id\<rparr> [''--port'', ''7000'', ''--token'', ''tok'', ''--workers'', ''2'']
     (Inr [sample_listen]) (Inr (Inet 7000)) sample_fds)) = open_fds sample_fds"
proof -
  let ?env = "\<lparr>cl_token = None, cl_order = id\<rparr>" and ?args = "[''--port'', ''7000'', ''--token'', ''tok'', ''--workers'', ''2'']"
  obtain p t' where run: "tracker_program ?env ?args (Inr [sample_listen]) (Inr (Inet 7000)) sample_fds = (p, t')" by fastforce
  have "listen_fresh (Inr [sample_listen], port, addr, 64) sample_fds" for port addr
    by (simp add: listen_fresh_def fresh_fd_def sample_listen_def sample_fds_def)
  with tracker_program_ends [OF run] run show ?thesis by simp
qed

definition sample_machine :: machine where
  "sample_machine = \<lparr>mc_save = sample_save, mc_run = sample_run_env, mc_lookup = Inr [sample_listen], mc_sockname = Inr (Inet 4000),
     mc_first = (\<lambda>_. Inl ''unreachable''), mc_beats = [], mc_fds = sample_fds\<rparr>"

theorem swarmsync_exit_code_witness:
  "\<exists>p. swarmsync_program sample_evp sample_cli sample_machine [''share''] sample_made p [sample_made] \<and> pe_code p = 1 \<and>
     pe_err p = ''error: Unknown command: share'' @ [nl]"
proof -
  have m: "swarmsync_main [''share''] = throw ''Unknown command: share''" by (simp add: swarmsync_main_def no_options_def)
  then have run: "swarmsync_program sample_evp sample_cli sample_machine [''share''] sample_made (program_ends [] [] (throw ''Unknown command: share'')) [sample_made]"
    by (rule Misused)
  from swarmsync_exit_code [OF run] m show ?thesis using run
    by (intro exI [of _ "program_ends [] [] (throw ''Unknown command: share'')"]) (auto simp: program_ends_def)
qed

end
