(* ===== verification/Heartbeat.thy ===== *)
theory Heartbeat
  imports Coordinator
begin

text \<open>
  The heartbeat thread of \<^verbatim>\<open>DownloadCoordinator::run\<close> (\<^verbatim>\<open>src/download.cpp\<close>) as a step relation, and that it neither ends the
  process nor keeps a download from finishing.
\<close>

section \<open>The thread\<close>

text \<open>
  Where the heartbeat thread is: at its loop condition, in \<^verbatim>\<open>wait_for\<close>, announcing, at its end, or out of its
  function by an exception that nothing catches, which ends the process.
\<close>

datatype heartbeat_pc = Hb_test | Hb_wait | Hb_announce | Hb_ended | Hb_terminated

record heartbeat =
  hb_running :: bool
  hb_pc :: heartbeat_pc

definition heartbeat_start :: heartbeat where
  "heartbeat_start = \<lparr>hb_running = True, hb_pc = Hb_test\<rparr>"

definition heartbeat_test :: "heartbeat \<Rightarrow> heartbeat" where
  "heartbeat_test s = s\<lparr>hb_pc := (if hb_running s then Hb_wait else Hb_ended)\<rparr>"

text \<open>\<^verbatim>\<open>wait_for\<close> returns, after the interval or a notification, with the value of its predicate.\<close>

definition heartbeat_wake :: "heartbeat \<Rightarrow> heartbeat" where
  "heartbeat_wake s = s\<lparr>hb_pc := (if \<not> hb_running s then Hb_ended else Hb_announce)\<rparr>"

text \<open>An \<^verbatim>\<open>Error\<close> is caught and logged.\<close>

definition heartbeat_announced :: "unit result \<Rightarrow> heartbeat \<Rightarrow> heartbeat" where
  "heartbeat_announced r s = s\<lparr>hb_pc := (case r of Inl (Filesystem_error _) \<Rightarrow> Hb_terminated | _ \<Rightarrow> Hb_test)\<rparr>"

text \<open>\<^verbatim>\<open>stop_heartbeat\<close>, called by the main thread, up to the join.\<close>

definition heartbeat_stop :: "heartbeat \<Rightarrow> heartbeat" where
  "heartbeat_stop s = s\<lparr>hb_running := False\<rparr>"

text \<open>
  The chunks are those of the store at one moment, the flag is that of the store at a later one; the network and the
  descriptor table are those of the announcement.
\<close>

inductive heartbeat_step :: "'c run_context \<Rightarrow> heartbeat \<Rightarrow> heartbeat \<Rightarrow> bool" for x where
  Hb_tests: "hb_pc s = Hb_test \<Longrightarrow> heartbeat_step x s (heartbeat_test s)"
| Hb_wakes: "hb_pc s = Hb_wait \<Longrightarrow> heartbeat_step x s (heartbeat_wake s)"
| Hb_announces: "hb_pc s = Hb_announce \<Longrightarrow>
    announce_current (rc_tracker x) (rc_config x) (rc_swarm_id x) (rc_port x) (resume_completed_chunks resume)
      (resume_all_complete later) net t = (r, c, t') \<Longrightarrow>
    heartbeat_step x s (heartbeat_announced r s)"

inductive_cases heartbeat_step_cases: "heartbeat_step x s s'"

inductive heartbeat_run :: "'c run_context \<Rightarrow> heartbeat \<Rightarrow> nat \<Rightarrow> heartbeat \<Rightarrow> bool" for x s where
  Hb_none: "heartbeat_run x s 0 s"
| Hb_more: "heartbeat_run x s n s1 \<Longrightarrow> heartbeat_step x s1 s2 \<Longrightarrow> heartbeat_run x s (Suc n) s2"

section \<open>Announcing throws only what is caught\<close>

definition only_error :: "'a result \<Rightarrow> bool" where
  "only_error r \<longleftrightarrow> (\<forall>m. r \<noteq> Inl (Filesystem_error m))"

named_theorems caught \<open>calls that throw nothing but \<^verbatim>\<open>Error\<close>\<close>

lemma caught_basic [caught]: "only_error (Inr x)" "only_error (throw m)"
  by (simp_all add: only_error_def)

lemma caught_rbind [caught]: "only_error r \<Longrightarrow> (\<And>x. only_error (f x)) \<Longrightarrow> only_error (rbind r f)"
  by (cases r) (simp_all add: only_error_def)

lemma caught_if [caught]: "only_error a \<Longrightarrow> only_error b \<Longrightarrow> only_error (if p then a else b)"
  by simp

lemma caught_split_loop [caught]: "only_error (split_loop k s cur acc)"
  by (induction k s cur acc rule: split_loop.induct) (auto simp: only_error_def)

lemma caught_split_header [caught]: "only_error (split_header h)"
  unfolding split_header_def by (intro caught)

lemma caught_require_atom [caught]: "only_error (require_atom v n)"
  unfolding require_atom_def by (intro caught)

lemma caught_parse_number [caught]: "only_error (parse_number v n)"
  by (auto simp: parse_number_def only_error_def split: prod.splits)

lemma caught_parse_chunk_loop [caught]: "only_error (parse_chunk_loop rest chunks)"
proof (induction rest chunks rule: parse_chunk_loop.induct)
  case (1 rest chunks)
  define r :: "u32 result" where "r = parse_number (before CHR '','' rest) ''chunk list entry''"
  have "only_error r" unfolding r_def by (rule caught_parse_number)
  then show ?case using 1 unfolding r_def [symmetric]
    by (subst parse_chunk_loop.simps, fold r_def, cases r) (auto simp: only_error_def)
qed

lemma caught_parse_tracker_request [caught]: "only_error (parse_tracker_request h)"
  unfolding parse_tracker_request_def parse_chunk_list_def by (intro caught)

lemma caught_encode_loop [caught]: "only_error (encode_chunk_loop cs prev out)"
  by (induction cs prev out rule: encode_chunk_loop.induct) (auto simp: only_error_def Let_def)

lemma caught_encode [caught]: "only_error (encode_chunk_list cs all)"
  unfolding encode_chunk_list_def by (intro caught)

lemma caught_read_line [caught]: "only_error (fst (read_line n c))"
proof -
  have "only_error (fst (read_line_loop m es line))" for m es line
  proof (induction m es line rule: read_line_loop.induct)
    case (1 m es line)
    obtain x es' where x: "recv 1 es = (x, es')" by fastforce
    show ?case
    proof (cases x)
      case (Received b)
      with x 1 show ?thesis
        by (subst read_line_loop.simps) (auto simp: Let_def caught_basic simp del: One_nat_def)
    next
      case Recv_eintr
      with x 1 show ?thesis by (subst read_line_loop.simps) (simp del: One_nat_def)
    qed (use x in \<open>subst read_line_loop.simps, simp add: caught_basic\<close>)+
  qed
  then show ?thesis by (auto simp: read_line_def caught_basic Let_def case_prod_unfold)
qed

lemma caught_write_all [caught]: "only_error (fst (write_all b c))"
proof -
  have "only_error (fst (write_loop es b d))" for es b d
    by (induction es b d rule: write_loop.induct) (auto simp: caught_basic split: send_event.splits)
  then show ?thesis by (simp add: write_all_def Let_def case_prod_unfold)
qed

lemma caught_io_bind [caught]:
  "only_error (fst (m c)) \<Longrightarrow> (\<And>x c. only_error (fst (f x c))) \<Longrightarrow> only_error (fst (io_bind m f c))"
  by (cases "m c"; cases "fst (m c)") (auto simp: io_bind_def only_error_def)

lemma caught_expect_ok [caught]: "only_error (fst (expect_ok c))"
  unfolding expect_ok_def by (rule caught_io_bind [OF caught_read_line]) (auto simp: io_lift_def io_return_def caught_basic)

lemma caught_connect [caught]: "only_error (fst (connect_tcp net e timeout t))"
  by (auto simp: connect_tcp_def caught_basic split: sum.splits prod.splits)

lemma caught_with_connection [caught]:
  "(\<And>c. only_error (fst (body c))) \<Longrightarrow> only_error (fst (with_connection net e timeout body t))"
  using caught_connect [of net e timeout t]
  by (cases "connect_tcp net e timeout t"; cases "fst (connect_tcp net e timeout t)")
    (auto simp: with_connection_def only_error_def Let_def case_prod_unfold)

lemma caught_announce [caught]: "only_error (fst (client_announce client ad net t))"
proof (cases "encode_chunk_list (ad_chunks ad) (ad_has_all_chunks ad)")
  case (Inl e)
  then show ?thesis using caught_encode [of "ad_chunks ad" "ad_has_all_chunks ad"] by (simp add: client_announce_def only_error_def)
next
  case (Inr chunks)
  define h where "h = announce_header (tc_token client) ad chunks"
  have "only_error (parse_tracker_request h)" by (rule caught)
  moreover have "only_error (fst (with_connection net (tc_endpoint client) (tc_timeout client)
      (io_bind (write_all (h @ [nl])) (\<lambda>_. expect_ok)) t))" by (intro caught)
  ultimately show ?thesis using Inr
    by (cases "parse_tracker_request h") (auto simp: client_announce_def h_def [symmetric] only_error_def)
qed

section \<open>The heartbeat ends when it is told to\<close>

lemma heartbeat_step_next:
  assumes "heartbeat_step x s s'"
  shows "hb_running s' = hb_running s \<and> hb_pc s' \<noteq> Hb_terminated \<and> hb_pc s \<noteq> Hb_ended \<and>
    (hb_pc s = Hb_announce \<longrightarrow> hb_pc s' = Hb_test) \<and> (\<not> hb_running s \<longrightarrow> hb_pc s \<noteq> Hb_announce \<longrightarrow> hb_pc s' = Hb_ended)"
  using assms
proof (cases rule: heartbeat_step.cases)
  case (Hb_announces resume later net t r c t')
  then have "only_error r" using caught_announce [of "rc_tracker x" _ net t] unfolding announce_current_def by (metis fst_conv)
  with Hb_announces show ?thesis by (auto simp: heartbeat_announced_def only_error_def split: sum.splits exc.splits)
qed (auto simp: heartbeat_test_def heartbeat_wake_def)

lemma heartbeat_run_safe:
  "heartbeat_run x s n s' \<Longrightarrow> hb_pc s \<noteq> Hb_terminated \<Longrightarrow> hb_pc s' \<noteq> Hb_terminated \<and> hb_running s' = hb_running s"
  by (induction rule: heartbeat_run.induct) (use heartbeat_step_next in auto)

fun heartbeat_left :: "heartbeat_pc \<Rightarrow> nat" where
  "heartbeat_left Hb_announce = 2"
| "heartbeat_left Hb_test = 1"
| "heartbeat_left Hb_wait = 1"
| "heartbeat_left _ = 0"

lemma heartbeat_run_left:
  "heartbeat_run x s n s' \<Longrightarrow> \<not> hb_running s \<Longrightarrow> hb_pc s \<noteq> Hb_terminated \<Longrightarrow>
     n + heartbeat_left (hb_pc s') \<le> heartbeat_left (hb_pc s)"
proof (induction rule: heartbeat_run.induct)
  case (Hb_more n s1 s2)
  have s1: "hb_pc s1 \<noteq> Hb_terminated" "\<not> hb_running s1" using heartbeat_run_safe [OF Hb_more.hyps(1)] Hb_more.prems by simp_all
  have "Suc (heartbeat_left (hb_pc s2)) \<le> heartbeat_left (hb_pc s1)"
    using heartbeat_step_next [OF Hb_more.hyps(2)] s1 by (cases "hb_pc s1") auto
  with Hb_more.IH Hb_more.prems show ?case by simp
qed simp

text \<open>
  C26. The heartbeat never takes the process down and ends when it is told to (\<^verbatim>\<open>run\<close>, its heartbeat thread and
  \<^verbatim>\<open>stop_heartbeat\<close>): whatever the tracker and the network do, no exception leaves the thread's function; and
  after the flag is cleared, wherever the thread then is, it takes at most two more steps, at most one
  of them an announcement, and as long as it has not ended it has a next step, so that the join returns.
\<close>

theorem heartbeat_stops:
  assumes "heartbeat_run x heartbeat_start n s" and "heartbeat_run x (heartbeat_stop s) k s'"
  shows "hb_pc s \<noteq> Hb_terminated \<and> hb_pc s' \<noteq> Hb_terminated \<and> k \<le> 2 \<and>
    (hb_pc s' = Hb_ended \<or> (\<exists>s2. heartbeat_step x s' s2))"
proof -
  have s: "hb_pc s \<noteq> Hb_terminated" using heartbeat_run_safe [OF assms(1)] by (simp add: heartbeat_start_def)
  then have stop: "hb_pc (heartbeat_stop s) \<noteq> Hb_terminated" "\<not> hb_running (heartbeat_stop s)" by (simp_all add: heartbeat_stop_def)
  have s': "hb_pc s' \<noteq> Hb_terminated" using heartbeat_run_safe [OF assms(2) stop(1)] by simp
  have "heartbeat_left pc \<le> 2" for pc by (cases pc) simp_all
  then have "k \<le> 2" using heartbeat_run_left [OF assms(2) stop(2,1)] by (meson add_leD1 le_trans)
  moreover have "\<exists>s2. heartbeat_step x s' s2" if "hb_pc s' \<noteq> Hb_ended"
  proof (cases "hb_pc s'")
    case Hb_announce
    obtain r c t' where "announce_current (rc_tracker x) (rc_config x) (rc_swarm_id x) (rc_port x) (resume_completed_chunks undefined)
        (resume_all_complete undefined) undefined undefined = (r, c, t')"
      by (metis prod_cases3)
    from Hb_announces [OF Hb_announce this] show ?thesis by blast
  qed (use s' that in \<open>blast intro: heartbeat_step.intros\<close>)+
  ultimately show ?thesis using s s' by blast
qed

theorem heartbeat_stops_witness:
  "\<exists>s s'. heartbeat_run sample_context heartbeat_start 2 s \<and> hb_pc s = Hb_announce \<and>
     heartbeat_run sample_context (heartbeat_stop s) 0 s' \<and> (hb_pc s' = Hb_ended \<or> (\<exists>s2. heartbeat_step sample_context s' s2))"
proof -
  let ?s1 = "heartbeat_test heartbeat_start" and ?s2 = "heartbeat_wake (heartbeat_test heartbeat_start)"
  have a: "heartbeat_step sample_context heartbeat_start ?s1" by (rule Hb_tests) (simp add: heartbeat_start_def)
  have b: "heartbeat_step sample_context ?s1 ?s2" by (rule Hb_wakes) (simp add: heartbeat_start_def heartbeat_test_def)
  from Hb_more [OF Hb_more [OF Hb_none a] b] have run: "heartbeat_run sample_context heartbeat_start 2 ?s2" by (simp add: numeral_2_eq_2)
  have "hb_pc ?s2 = Hb_announce" by (simp add: heartbeat_start_def heartbeat_test_def heartbeat_wake_def)
  with heartbeat_stops [OF run Hb_none] run show ?thesis using Hb_none by blast
qed

end
