(* ===== verification/Sharing.thy ===== *)
theory Sharing
  imports Delivery Heartbeat
begin

text \<open>
  The parts of a swarm together. While it downloads, a peer serves what it has: this theory puts the workers of
  \<open>Coordinator\<close> and the server of \<open>Peer_Server\<close> side by side. And a download completes when the others help: it joins the tracker
  client, the fetching of chunks and the disk with the workers.
\<close>

section \<open>What is advertised is served\<close>

text \<open>A step of the workers loses no chunk, not even between two of its system calls.\<close>

lemma worker_step_intact:
  assumes "worker_step x s states s'" and inv: "workers_inv x k s" and valid: "manifest_validate (dc_manifest (rc_config x)) = Inr ()"
  shows "done_chunks (ds_store s) \<subseteq> done_chunks (ds_store s') \<and>
    (\<forall>g\<in>set states. chunks_intact (rc_evp x) (dc_manifest (rc_config x)) (partial_path (rc_config x)) (done_chunks (ds_store s)) g)"
  using assms(1)
proof (cases rule: worker_step.cases)
  case (Write w i b env r resume)
  have i: "i < rs_chunk_count (ds_store s)" using held_bound [OF inv Write(2) _ valid] Write(3) by simp
  have hold: "i \<notin> done_chunks (ds_store s)" "chunk_verified (rc_evp x) (dc_manifest (rc_config x)) i b"
    using inv Write nth_mem [OF Write(2)] by (auto simp: workers_inv_def holding_inv_def Let_def)
  have backed: "store_backed (rc_evp x) (dc_manifest (rc_config x)) (partial_path (rc_config x)) (ds_fs s) (ds_store s)"
    using inv by (simp add: workers_inv_def Let_def)
  from write_verified_chunk_outcome [OF valid backed i hold Write(4), unfolded chunk_write_outcome_def] Write(1) show ?thesis
    by (simp add: worker_defs)
qed (auto simp: worker_defs Let_def result_simps)

lemma worker_run_intact:
  assumes "worker_run x s n states s'" and inv: "workers_inv x k s" and valid: "manifest_validate (dc_manifest (rc_config x)) = Inr ()"
    and small: "length (chunk_hashes (dc_manifest (rc_config x))) + k < 2 ^ 32"
  shows "done_chunks (ds_store s) \<subseteq> done_chunks (ds_store s') \<and>
    (\<forall>g\<in>set states. chunks_intact (rc_evp x) (dc_manifest (rc_config x)) (partial_path (rc_config x)) (done_chunks (ds_store s)) g)"
  using assms(1)
proof (induction rule: worker_run.induct)
  case (Run_step n states s1 states' s2)
  have "workers_inv x k s1" using worker_run_inv [OF Run_step.hyps(1) inv valid small] by simp
  from worker_step_intact [OF Run_step.hyps(2) this valid] Run_step.IH show ?case
    using chunks_intact_mono by fastforce
qed simp

text \<open>A worker that has read the list of completed chunks never advertises one that is missing.\<close>

definition advertised :: "download_state \<Rightarrow> bool" where
  "advertised s \<longleftrightarrow> (\<forall>chunks. Advertising chunks \<in> set (ds_workers s) \<longrightarrow> set chunks \<subseteq> done_chunks (ds_store s))"

lemma worker_step_moves:
  assumes "worker_step x s states s'"
  shows "\<exists>w pc. ds_workers s' = (ds_workers s)[w := pc] \<and> (\<forall>chunks. pc = Advertising chunks \<longrightarrow> chunks = resume_completed_chunks (ds_store s))"
  using assms
proof (cases rule: worker_step.cases)
  case (Check w i)
  then obtain complete where "s' = move_worker w (if complete then At_test else Fetching i) s"
    by (auto simp: worker_check_def result_simps)
  then show ?thesis by (intro exI [of _ w] exI [of _ "if complete then At_test else Fetching i"]) (auto simp: move_worker_def split: if_splits)
next
  case (Take w)
  then show ?thesis
    by (intro exI [of _ w] exI [of _ "if unat (ds_next s) \<ge> length (chunk_hashes (dc_manifest (rc_config x))) then Returned else Took (ds_next s)"])
      (auto simp: worker_defs Let_def split: if_splits)
next
  case (Test w)
  then show ?thesis by (intro exI [of _ w] exI [of _ "if \<not> ds_failed s then At_take else Returned"]) (auto simp: worker_defs split: if_splits)
next
  case (Announce w chunks net t r c t')
  then show ?thesis
    by (intro exI [of _ w] exI [of _ "case r of Inl (Filesystem_error e) \<Rightarrow> Failing (Filesystem_error e) | _ \<Rightarrow> At_test"])
      (auto simp: worker_defs split: sum.splits exc.splits)
next
  case (Fetch w i nets k t r retries k' t')
  then show ?thesis
    by (intro exI [of _ w] exI [of _ "case r of Inl e \<Rightarrow> Failing e | Inr b \<Rightarrow> Holding i b"]) (auto simp: worker_defs split: sum.splits)
next
  case (Write w i b env r resume)
  then show ?thesis
    by (intro exI [of _ w] exI [of _ "case r of Inl e \<Rightarrow> Failing e | Inr _ \<Rightarrow> Announcing"]) (auto simp: worker_defs split: sum.splits)
qed (fastforce simp: worker_defs)+

lemma worker_step_advertised:
  assumes "worker_step x s states s'" and inv: "workers_inv x k s" and valid: "manifest_validate (dc_manifest (rc_config x)) = Inr ()"
    and adv: "advertised s"
  shows "advertised s'"
proof -
  note sub = worker_step_intact [OF assms(1) inv valid, THEN conjunct1]
  have "wf_store (ds_store s)" using inv by (simp add: workers_inv_def store_backed_def store_for_def Let_def)
  then have "set (resume_completed_chunks (ds_store s)) \<subseteq> done_chunks (ds_store s)" using rl.listing_set by blast
  moreover obtain w pc where "ds_workers s' = (ds_workers s)[w := pc]" "\<forall>chunks. pc = Advertising chunks \<longrightarrow> chunks = resume_completed_chunks (ds_store s)"
    using worker_step_moves [OF assms(1)] by blast
  ultimately show ?thesis using adv sub unfolding advertised_def by (metis in_update subset_trans)
qed

lemma worker_run_advertised:
  assumes "worker_run x s n states s'" and inv: "workers_inv x k s" and valid: "manifest_validate (dc_manifest (rc_config x)) = Inr ()"
    and small: "length (chunk_hashes (dc_manifest (rc_config x))) + k < 2 ^ 32" and "advertised s"
  shows "advertised s'"
  using assms(1)
proof (induction rule: worker_run.induct)
  case (Run_step n states s1 states' s2)
  have "workers_inv x k s1" using worker_run_inv [OF Run_step.hyps(1) inv valid small] by simp
  from worker_step_advertised [OF Run_step.hyps(2) this valid Run_step.IH] show ?case .
qed (rule assms(5))

lemma workers_start_advertised: "advertised (workers_start config resume f)"
  by (simp add: advertised_def workers_start_def)

text \<open>The downloader's own server accepts its configuration and serves what is intact.\<close>

lemma download_peer_new:
  assumes "validate_config config = Inr ()"
  shows "peer_server_new (download_peer config resume) = Inr (download_peer config resume)"
proof -
  have "partial_path config \<noteq> []" by (simp add: partial_path_def path_append_def)
  with assms show ?thesis by (auto simp: validate_config_def peer_server_new_def download_peer_def result_simps split: if_splits)
qed

lemma intact_served:
  assumes config: "validate_config config = Inr ()" and store: "store_for (dc_manifest config) resume"
    and intact: "chunks_intact evp (dc_manifest config) (partial_path config) D g"
    and i: "i \<in> D" "i \<in> done_chunks resume"
    and swarm: "manifest_swarm_id evp (dc_manifest config) = Inr swarm" and token: "safe_atom (dc_token config)"
    and c: "pending (incoming c) = ''GET '' @ dc_token config @ '' '' @ swarm @ '' '' @ dec (unat i) @ [nl]"
      "0 \<le> native_handle c" "\<And>m. Send_failed m \<notin> set (sending c)"
  shows "sent (serve_connection evp (download_peer config resume) g c) = sent c @
    data_reply (chunk_bytes (dc_manifest config) (file_data g (partial_path config)) (unat i)) (chunk_hashes (dc_manifest config) ! unat i)"
proof -
  let ?m = "dc_manifest config" and ?p = "download_peer config resume"
  have valid: "manifest_validate ?m = Inr ()" using config by (auto simp: validate_config_def result_simps)
  have wf: "wf_store resume" using store by (simp add: store_for_def)
  have bound: "i < rs_chunk_count resume" using rl.members_bound [OF wf i(2)] .
  then have n: "unat i < length (chunk_hashes ?m)" using store_for_bound [OF valid store] by blast
  have has: "has_chunk ?p i = Inr True"
    using rl.query_Inr [OF wf bound] i(2) by (simp add: has_chunk_def download_peer_def)
  obtain d where d: "nodes g (partial_path config) = Some (Regular d)" "length d = unat (file_size_bytes ?m)"
    "\<not> unreadable g (partial_path config)" "fault_at g (partial_path config) = None"
    using intact by (auto simp: chunks_intact_def partial_ok_def)
  have "file_has evp ?m d i" using intact i(1) d(1) by (simp add: chunks_intact_def)
  with serve_connection_chunk [OF download_peer_new [OF config, of resume], of g d i evp swarm c] d n has swarm token c
  show ?thesis by (simp add: download_peer_def file_has_def data_reply_def)
qed

text \<open>
  C13. What a downloader advertises it serves (\<^verbatim>\<open>DownloadCoordinator::run\<close> with its \<^verbatim>\<open>PeerServer\<close>): while the workers run in
  any interleaving, take any moment at which one of them announces the chunks it has read from the store, or
  that all are complete. From then on, in every state of the file system, also between the
  system calls of a write, a well-formed request for an advertised chunk is answered with that
  chunk of the partial file, and these bytes have the digest of the manifest. Chunks are shared before the download is complete, and never taken back.
\<close>

theorem advertised_chunks_are_served:
  assumes config: "validate_config (rc_config x) = Inr ()" and m: "m = dc_manifest (rc_config x)" and p: "p = partial_path (rc_config x)"
    and backed: "store_backed (rc_evp x) m p f resume"
    and small: "length (chunk_hashes m) + unat (dc_worker_count (rc_config x)) < 2 ^ 32"
    and before: "worker_run x (workers_start (rc_config x) resume f) n1 states1 s1"
    and announcing: "Advertising chunks \<in> set (ds_workers s1)"
    and offered: "i \<in> set chunks \<or> resume_all_complete (ds_store s1) \<and> unat i < length (chunk_hashes m)"
    and after: "worker_run x s1 n2 states2 s2" and g: "g \<in> set (ds_fs s1 # states2 @ [ds_fs s2])"
    and swarm: "manifest_swarm_id (rc_evp x) m = Inr swarm" and token: "safe_atom (dc_token (rc_config x))"
    and c: "pending (incoming c) = ''GET '' @ dc_token (rc_config x) @ '' '' @ swarm @ '' '' @ dec (unat i) @ [nl]"
      "0 \<le> native_handle c" "\<And>e. Send_failed e \<notin> set (sending c)"
  shows "sent (serve_connection (rc_evp x) (download_peer (rc_config x) (ds_store s2)) g c) =
      sent c @ data_reply (chunk_bytes m (file_data g p) (unat i)) (chunk_hashes m ! unat i) \<and>
    sha256_hex (rc_evp x) (chunk_bytes m (file_data g p) (unat i)) = Inr (chunk_hashes m ! unat i)"
proof -
  let ?k = "unat (dc_worker_count (rc_config x))"
  have valid: "manifest_validate (dc_manifest (rc_config x)) = Inr ()" using config by (auto simp: validate_config_def result_simps)
  note start = workers_inv_start [OF backed [unfolded m p]]
  have inv1: "workers_inv x ?k s1" using worker_run_inv [OF before start valid] small m by simp
  have inv2: "workers_inv x ?k s2" using worker_run_inv [OF after inv1 valid] small m by simp
  have B1: "store_backed (rc_evp x) m p (ds_fs s1) (ds_store s1)" and B2: "store_backed (rc_evp x) m p (ds_fs s2) (ds_store s2)"
    using inv1 inv2 m p by (simp_all add: workers_inv_def Let_def)
  have "advertised s1" using worker_run_advertised [OF before start valid _ workers_start_advertised] small m by simp
  moreover have "i \<in> done_chunks (ds_store s1)" if "resume_all_complete (ds_store s1)" "unat i < length (chunk_hashes m)"
    using that rl.everything_iff store_for_bound [of m "ds_store s1" i] valid B1 m by (auto simp: store_backed_def store_for_def)
  ultimately have i1: "i \<in> done_chunks (ds_store s1)" using announcing offered by (auto simp: advertised_def)
  note R = worker_run_intact [OF after inv1 valid]
  have i2: "i \<in> done_chunks (ds_store s2)" using R small m i1 by auto
  have intact: "chunks_intact (rc_evp x) m p (done_chunks (ds_store s1)) g"
    using g R small m p store_backed_intact [OF B1] chunks_intact_mono [OF store_backed_intact [OF B2]] by auto
  have "store_for m (ds_store s2)" using B2 by (simp add: store_backed_def)
  from intact_served [OF config this [unfolded m] intact [unfolded m p] i1 i2 swarm [unfolded m] token c] i1 intact m p show ?thesis
    by (auto simp: chunks_intact_def file_has_def)
qed

section \<open>A disk that works\<close>

text \<open>System calls that report no error, for a chunk and for the resume file after it.\<close>

definition disk_works :: "chunk_write_env \<Rightarrow> bool" where
  "disk_works env \<longleftrightarrow> cw_open env = None \<and> cw_fsync env = None \<and> cw_close env = None \<and>
     (\<forall>m. Write_failed m \<notin> set (cw_writes env)) \<and> Wrote 0 \<notin> set (cw_writes env) \<and> atomic_works (cw_flush env)"

lemma pwrite_loop_works:
  "\<forall>m. Write_failed m \<notin> set es \<Longrightarrow> Wrote 0 \<notin> set es \<Longrightarrow> fst (pwrite_loop es d offset rest) = Inr ()"
proof (induction es arbitrary: d offset rest)
  case (Cons e es)
  have "fst (pwrite_loop es d offset rest) = Inr ()" for d offset rest using Cons by simp
  with Cons.prems show ?case by (cases e) (auto simp: case_prod_unfold Let_def)
qed simp

lemma chunk_in_range:
  assumes "manifest_validate m = Inr ()" and "unat i < length (chunk_hashes m)" and "manifest_chunk_size m i = Inr sz"
    and "length (d :: bytes) = unat (file_size_bytes m)"
  shows "unat i * unat (chunk_size_bytes m) + unat sz < 2 ^ 63"
proof -
  have "length (chunk_hashes m) \<le> 1000000" "chunk_size_bytes m \<le> kMaxChunkSize"
    using assms(1) by (auto simp: manifest_validate_Inr kMaxChunkCount_def)
  then have "unat i \<le> 1000000" "unat (chunk_size_bytes m) \<le> 4194304"
    using assms(2) by (simp_all add: word_le_nat_alt kMaxChunkSize_def)
  then have "unat i * unat (chunk_size_bytes m) \<le> 1000000 * 4194304" by (rule mult_le_mono)
  moreover have "unat sz \<le> unat (chunk_size_bytes m)" using chunk_extent [OF assms(1,2,4,3)] by simp
  ultimately show ?thesis using \<open>unat (chunk_size_bytes m) \<le> 4194304\<close> by simp
qed

lemma resume_site_write:
  "resume_site f p \<Longrightarrow> nodes f q = Some (Regular d) \<Longrightarrow> resume_site (write_node f q d') p"
  by (auto simp: resume_site_def node_simps)

lemma write_verified_chunk_works:
  assumes valid: "manifest_validate m = Inr ()" and backed: "store_backed evp m p f s"
    and i: "i < rs_chunk_count s" and b: "chunk_verified evp m i b"
    and env: "disk_works env" and site: "resume_site f (rs_path s)"
  shows "\<exists>s' states. write_verified_chunk env p m i b s f = (Inr (), s', states) \<and> resume_site (last states) (rs_path s)"
proof -
  have store: "store_for m s" "paths_apart p s" and "partial_ok m p f" using backed by (simp_all add: store_backed_def)
  then obtain d where d: "nodes f p = Some (Regular d)" "length d = unat (file_size_bytes m)" by (auto simp: partial_ok_def)
  have n: "unat i < length (chunk_hashes m)" using store_for_bound [OF valid store(1)] i by blast
  obtain ofs where ofs: "manifest_chunk_offset m i = Inr ofs" "unat ofs = unat i * unat (chunk_size_bytes m)"
    using valid n by (rule manifest_chunk_offset_unat)
  obtain sz where sz: "manifest_chunk_size m i = Inr sz" "length b = unat sz" using b by (auto simp: chunk_verified_def)
  have range: "\<not> (unat ofs > 2 ^ 63 - 1 \<or> length b > 2 ^ 63 - 1 - unat ofs)"
    using chunk_in_range [OF valid n sz(1) d(2)] ofs(2) sz(2) by auto
  obtain r ds where loop: "pwrite_loop (cw_writes env) (file_data f p) (unat ofs) b = (r, ds)" by fastforce
  have r: "r = Inr ()"
    using pwrite_loop_works [of "cw_writes env" "file_data f p" "unat ofs" b] loop env by (simp add: disk_works_def)
  define g where "g = sync_node (last (written f p ds)) p"
  have "\<exists>d'. last (written f p ds) = write_node f p d' \<or> last (written f p ds) = f" by (cases ds rule: rev_cases) auto
  then have "resume_site (last (written f p ds)) (rs_path s)" using site resume_site_write [OF site d(1)] by metis
  then have site': "resume_site g (rs_path s)" by (simp add: resume_site_def g_def)
  obtain s1 where mark: "resume_mark_complete i s = Inr s1" using rl.mark_Inr [OF _ i] store(1) by (auto simp: store_for_def)
  have path: "rs_path s1 = rs_path s" using mark_complete_frame [OF mark] by simp
  then have "path_filename (rs_path s1) \<noteq> []" using store(2) by (simp add: paths_apart_def)
  from resume_flush_works [OF this, of g "cw_flush env"] site' path env obtain s' fstates where
    flush: "resume_flush (cw_flush env) s1 g = (Inr (), s', fstates)" "resume_site (last fstates) (rs_path s)"
    by (auto simp: disk_works_def)
  have ne: "fstates \<noteq> []" using flush_trace_nonempty [OF flush(1)] .
  have regular: "is_regular_file f p" using d(1) by (simp add: is_regular_file_def)
  have "write_verified_chunk env p m i b s f = (Inr (), s', (written f p ds @ [g]) @ fstates)"
    using range env regular mark flush(1) unfolding write_verified_chunk_def ofs(1) sum.case loop prod.case Let_def g_def
    by (simp add: r disk_works_def call_def del: last.simps append_Cons append_assoc)
  with flush(2) ne show ?thesis by simp
qed

section \<open>In a swarm that helps the download completes\<close>

text \<open>
  The runs of the workers in which each fetch meets a network of \<open>N\<close>, which may differ from chunk to chunk and from
  attempt to attempt, and in which the disk works. All other steps are those of any run.
\<close>

fun transfers :: "dworker \<Rightarrow> bool" where
  "transfers (Fetching i) = True"
| "transfers (Holding i b) = True"
| "transfers _ = False"

inductive helped_step :: "(u32 \<Rightarrow> (nat \<Rightarrow> network) \<Rightarrow> bool) \<Rightarrow> 'c run_context \<Rightarrow> download_state \<Rightarrow> fs list \<Rightarrow> download_state \<Rightarrow> bool"
  for N x where
  Helped_fetch: "w < length (ds_workers s) \<Longrightarrow> ds_workers s ! w = Fetching i \<Longrightarrow> N i nets \<Longrightarrow>
    fetch_with_retry (rc_evp x) (rc_tracker x) (rc_config x) (rc_swarm_id x) i nets (ds_retries s) k t = (r, retries, k', t') \<Longrightarrow>
    helped_step N x s [] (worker_fetched w i r retries s)"
| Helped_write: "w < length (ds_workers s) \<Longrightarrow> ds_workers s ! w = Holding i b \<Longrightarrow> disk_works env \<Longrightarrow>
    write_verified_chunk env (partial_path (rc_config x)) (dc_manifest (rc_config x)) i b (ds_store s) (ds_fs s) = (r, resume, states) \<Longrightarrow>
    helped_step N x s states (worker_written w r resume (last states) s)"
| Other: "worker_step x s states s' \<Longrightarrow> \<forall>w<length (ds_workers s). transfers (ds_workers s ! w) \<longrightarrow> ds_workers s' ! w = ds_workers s ! w \<Longrightarrow>
    helped_step N x s states s'"

inductive helped_run ::
  "(u32 \<Rightarrow> (nat \<Rightarrow> network) \<Rightarrow> bool) \<Rightarrow> 'c run_context \<Rightarrow> download_state \<Rightarrow> nat \<Rightarrow> fs list \<Rightarrow> download_state \<Rightarrow> bool" for N x s where
  Helped_none: "helped_run N x s 0 [] s"
| Helped_more: "helped_run N x s n states s1 \<Longrightarrow> helped_step N x s1 states' s2 \<Longrightarrow> helped_run N x s (Suc n) (states @ states') s2"

text \<open>A network that helps with a chunk: the tracker lists a peer that has it and delivers it.\<close>

definition helpful :: "'c run_context \<Rightarrow> u32 \<Rightarrow> (nat \<Rightarrow> network) \<Rightarrow> bool" where
  "helpful x i nets \<longleftrightarrow>
     (\<exists>peer. (\<forall>k t. \<exists>peers c t'. client_peers (rc_tracker x) (rc_swarm_id x) (nets k) t = (Inr peers, c, t') \<and> peer \<in> set peers) \<and>
        dp_peer_id peer \<noteq> dc_peer_id (rc_config x) \<and> sorted_wrt (<) (dp_chunks peer) \<and> (dp_has_all_chunks peer \<or> i \<in> set (dp_chunks peer)) \<and>
        (\<forall>k t. \<exists>b t'. fetch_chunk (rc_evp x) peer (dc_manifest (rc_config x)) (dc_token (rc_config x)) i
           (dc_network_timeout (rc_config x)) (nets k) t = (Inr b, t')))"

lemma helped_worker_step: "helped_step N x s states s' \<Longrightarrow> worker_step x s states s'"
  by (induction rule: helped_step.induct) (auto intro: worker_step.Fetch worker_step.Write)

lemma helped_worker_run: "helped_run N x s n states s' \<Longrightarrow> worker_run x s n states s'"
  by (induction rule: helped_run.induct) (auto intro: worker_run.intros helped_worker_step)

lemma helpful_fetches:
  assumes "validate_config (rc_config x) = Inr ()" and "helpful x i nets"
    and "fetch_with_retry (rc_evp x) (rc_tracker x) (rc_config x) (rc_swarm_id x) i nets retries k t = (r, retries', k', t')"
  shows "\<exists>b. r = Inr b"
proof -
  obtain peer where P: "\<And>k t. \<exists>peers c t'. client_peers (rc_tracker x) (rc_swarm_id x) (nets k) t = (Inr peers, c, t') \<and> peer \<in> set peers"
      "dp_peer_id peer \<noteq> dc_peer_id (rc_config x)" "sorted_wrt (<) (dp_chunks peer)" "dp_has_all_chunks peer \<or> i \<in> set (dp_chunks peer)"
      "\<And>k t. \<exists>b t'. fetch_chunk (rc_evp x) peer (dc_manifest (rc_config x)) (dc_token (rc_config x)) i
           (dc_network_timeout (rc_config x)) (nets k) t = (Inr b, t')"
    using assms(2) unfolding helpful_def by blast
  from fetch_found [where nets = nets and retries = retries and k = k and t = t, OF assms(1) P] assms(3) show ?thesis by auto
qed

text \<open>Nothing has failed, and the resume file can be written.\<close>

definition calm :: "download_state \<Rightarrow> bool" where
  "calm s \<longleftrightarrow> ds_failure s = None \<and> \<not> ds_failed s \<and> (\<forall>pc\<in>set (ds_workers s). \<not> failing pc \<and> pc \<noteq> Setting_failed) \<and>
     resume_site (ds_fs s) (rs_path (ds_store s))"

lemma calm_move:
  assumes "calm s" and "ds_failure s' = ds_failure s" "ds_failed s' = ds_failed s" "ds_workers s' = (ds_workers s)[w := pc]"
    and "\<not> failing pc" "pc \<noteq> Setting_failed" "resume_site (ds_fs s') (rs_path (ds_store s'))"
  shows "calm s'"
  using assms in_update unfolding calm_def by metis

lemma announcing_caught:
  assumes "announce_current tracker config swarm_id p chunks complete net t = (r, c, t')"
  shows "(case r of Inl (Filesystem_error e) \<Rightarrow> Failing (Filesystem_error e) | _ \<Rightarrow> At_test) = At_test"
proof -
  have "only_error r" using caught_announce [of tracker _ net t] assms unfolding announce_current_def by (metis fst_conv)
  then show ?thesis by (auto simp: only_error_def split: sum.splits exc.splits)
qed

lemma calm_other:
  assumes "worker_step x s states s'" and calm: "calm s"
    and still: "\<forall>w<length (ds_workers s). transfers (ds_workers s ! w) \<longrightarrow> ds_workers s' ! w = ds_workers s ! w"
  shows "calm s'"
proof -
  have site: "resume_site (ds_fs s) (rs_path (ds_store s))" "\<not> ds_failed s" using calm by (simp_all add: calm_def)
  have quiet: "\<not> failing (ds_workers s ! w) \<and> ds_workers s ! w \<noteq> Setting_failed" if "w < length (ds_workers s)" for w
    using calm nth_mem [OF that] by (auto simp: calm_def)
  from assms(1) show ?thesis
  proof (cases rule: worker_step.cases)
    case (Test w)
    then show ?thesis by (intro calm_move [OF calm, of _ w At_take]) (use site in \<open>auto simp: worker_defs\<close>)
  next
    case (Take w)
    let ?pc = "if unat (ds_next s) \<ge> length (chunk_hashes (dc_manifest (rc_config x))) then Returned else Took (ds_next s)"
    from Take show ?thesis by (intro calm_move [OF calm, of _ w ?pc]) (use site in \<open>auto simp: worker_defs Let_def\<close>)
  next
    case (Check w i)
    then obtain complete where "s' = move_worker w (if complete then At_test else Fetching i) s"
      by (auto simp: worker_check_def result_simps)
    then show ?thesis
      by (intro calm_move [OF calm, of _ w "if complete then At_test else Fetching i"]) (use site in \<open>auto simp: move_worker_def\<close>)
  next
    case (Advertise w)
    then show ?thesis
      by (intro calm_move [OF calm, of _ w "Advertising (resume_completed_chunks (ds_store s))"]) (use site in \<open>auto simp: worker_defs\<close>)
  next
    case (Announce w chunks net t r c t')
    have "s' = move_worker w At_test s" using announcing_caught [OF Announce(5)] Announce(2) by (simp add: worker_announced_def)
    then show ?thesis by (intro calm_move [OF calm, of _ w At_test]) (use site in \<open>auto simp: move_worker_def\<close>)
  next
    case (Fetch w i nets k t r retries k' t')
    then show ?thesis using still by (auto simp: worker_defs split: sum.splits)
  next
    case (Write w i b env r resume)
    then show ?thesis using still by (auto simp: worker_defs split: sum.splits)
  next
    case (Record w e)
    then show ?thesis using quiet [of w] by simp
  next
    case (Fail w)
    then show ?thesis using quiet [of w] by simp
  qed
qed

lemma calm_step:
  assumes "helped_step N x s states s'" and calm: "calm s" and inv: "workers_inv x k s" and config: "validate_config (rc_config x) = Inr ()"
    and N: "\<And>i nets. unat i < length (chunk_hashes (dc_manifest (rc_config x))) \<Longrightarrow> N i nets \<Longrightarrow> helpful x i nets"
  shows "calm s'"
  using assms(1)
proof (cases rule: helped_step.cases)
  case (Helped_fetch w i nets k t r retries k' t')
  have valid: "manifest_validate (dc_manifest (rc_config x)) = Inr ()" using config by (auto simp: validate_config_def result_simps)
  have "unat i < length (chunk_hashes (dc_manifest (rc_config x)))" using held_bound [OF inv Helped_fetch(3) _ valid] Helped_fetch(4) by simp
  then obtain b where "r = Inr b" using helpful_fetches [OF config N Helped_fetch(6)] Helped_fetch(5) by blast
  with Helped_fetch show ?thesis
    by (intro calm_move [OF calm, of _ w "Holding i b"]) (use calm in \<open>auto simp: worker_defs calm_def\<close>)
next
  case (Helped_write w i b env r resume)
  have valid: "manifest_validate (dc_manifest (rc_config x)) = Inr ()" using config by (auto simp: validate_config_def result_simps)
  have i: "i < rs_chunk_count (ds_store s)" using held_bound [OF inv Helped_write(2) _ valid] Helped_write(3) by simp
  have hold: "chunk_verified (rc_evp x) (dc_manifest (rc_config x)) i b"
    and backed: "store_backed (rc_evp x) (dc_manifest (rc_config x)) (partial_path (rc_config x)) (ds_fs s) (ds_store s)"
    using inv Helped_write(2,3) nth_mem [OF Helped_write(2)] by (auto simp: workers_inv_def holding_inv_def Let_def)
  have "resume_site (ds_fs s) (rs_path (ds_store s))" using calm by (simp add: calm_def)
  from write_verified_chunk_works [OF valid backed i hold Helped_write(4) this] Helped_write(5)
  have "r = Inr ()" "resume_site (last states) (rs_path (ds_store s))" by auto
  moreover have "rs_path resume = rs_path (ds_store s)" using write_chunk_frame [OF Helped_write(5)] by simp
  ultimately show ?thesis using Helped_write(1)
    by (intro calm_move [OF calm, of _ w Announcing]) (auto simp: worker_defs)
next
  case Other
  then show ?thesis using calm_other [OF _ calm] by blast
qed

lemma calm_run:
  assumes "helped_run N x s n states s'" and calm: "calm s" and inv: "workers_inv x k s" and config: "validate_config (rc_config x) = Inr ()"
    and small: "length (chunk_hashes (dc_manifest (rc_config x))) + k < 2 ^ 32"
    and N: "\<And>i nets. unat i < length (chunk_hashes (dc_manifest (rc_config x))) \<Longrightarrow> N i nets \<Longrightarrow> helpful x i nets"
  shows "calm s'"
  using assms(1)
proof (induction rule: helped_run.induct)
  case (Helped_more n states s1 states' s2)
  have valid: "manifest_validate (dc_manifest (rc_config x)) = Inr ()" using config by (auto simp: validate_config_def result_simps)
  have "workers_inv x k s1" using worker_run_inv [OF helped_worker_run [OF Helped_more.hyps(1)] inv valid small] by simp
  from calm_step [OF Helped_more.hyps(2) Helped_more.IH this config N] show ?case .
qed (rule calm)

text \<open>A worker that does not transfer a chunk can move on, and leaves the others where they are.\<close>

lemma worker_other_step:
  assumes inv: "workers_inv x k s" and valid: "manifest_validate (dc_manifest (rc_config x)) = Inr ()"
    and w: "w < length (ds_workers s)" "ds_workers s ! w \<noteq> Returned" "\<not> transfers (ds_workers s ! w)"
  shows "\<exists>s' pc. worker_step x s [] s' \<and> ds_workers s' = (ds_workers s)[w := pc]"
proof (cases "ds_workers s ! w")
  case (Took i)
  have "i < rs_chunk_count (ds_store s)" using held_bound [OF inv w(1) _ valid] Took by simp
  then have "resume_complete i (ds_store s) = Inr (rs_completed (ds_store s) ! unat i)"
    by (simp add: resume_complete_def resume_check_index_def)
  then have "worker_check w i s = Inr (move_worker w (if rs_completed (ds_store s) ! unat i then At_test else Fetching i) s)"
    by (simp add: worker_check_def)
  from worker_step.Check [OF w(1) Took this] show ?thesis unfolding move_worker_def by fastforce
next
  case (Advertising chunks)
  obtain r c t' where "announce_current (rc_tracker x) (rc_config x) (rc_swarm_id x) (rc_port x) chunks (resume_all_complete (ds_store s))
      (\<lambda>_. Inr []) undefined = (r, c, t')" by (metis prod_cases3)
  from worker_step.Announce [OF w(1) Advertising this] show ?thesis unfolding worker_announced_def move_worker_def by fastforce
next
  case At_test
  from worker_step.Test [OF w(1) this] show ?thesis unfolding worker_test_def move_worker_def by fastforce
next
  case At_take
  from worker_step.Take [OF w(1) this] show ?thesis unfolding worker_take_def move_worker_def Let_def by fastforce
next
  case Announcing
  from worker_step.Advertise [OF w(1) this] show ?thesis unfolding worker_advertise_def move_worker_def by fastforce
next
  case (Failing e)
  from worker_step.Record [OF w(1) this] show ?thesis unfolding worker_record_def move_worker_def by fastforce
next
  case Setting_failed
  from worker_step.Fail [OF w(1) this] show ?thesis unfolding worker_fail_def move_worker_def by fastforce
qed (use w in auto)

lemma helped_other:
  assumes "workers_inv x k s" and "manifest_validate (dc_manifest (rc_config x)) = Inr ()"
    and w: "w < length (ds_workers s)" "ds_workers s ! w \<noteq> Returned" "\<not> transfers (ds_workers s ! w)"
  shows "\<exists>states s'. helped_step N x s states s'"
proof -
  obtain s' pc where s': "worker_step x s [] s'" "ds_workers s' = (ds_workers s)[w := pc]" using worker_other_step [OF assms] by blast
  then have "\<forall>v<length (ds_workers s). transfers (ds_workers s ! v) \<longrightarrow> ds_workers s' ! v = ds_workers s ! v"
    using w(3) by (metis nth_list_update_neq)
  with Other [OF s'(1)] show ?thesis by blast
qed

lemma helped_can_step:
  assumes inv: "workers_inv x k s" and valid: "manifest_validate (dc_manifest (rc_config x)) = Inr ()"
    and w: "w < length (ds_workers s)" "ds_workers s ! w \<noteq> Returned"
    and some: "\<And>i. unat i < length (chunk_hashes (dc_manifest (rc_config x))) \<Longrightarrow> \<exists>nets. N i nets"
  shows "\<exists>states s'. helped_step N x s states s'"
proof (cases "ds_workers s ! w")
  case (Fetching i)
  have "unat i < length (chunk_hashes (dc_manifest (rc_config x)))" using held_bound [OF inv w(1) _ valid] Fetching by simp
  then obtain nets where N: "N i nets" using some by blast
  obtain r retries k' t' where "fetch_with_retry (rc_evp x) (rc_tracker x) (rc_config x) (rc_swarm_id x) i nets (ds_retries s) 0 undefined =
      (r, retries, k', t')" by (metis prod_cases4)
  from Helped_fetch [of w s i N, OF w(1) Fetching N this] show ?thesis by blast
next
  case (Holding i b)
  define env where "env = \<lparr>cw_open = None, cw_writes = [], cw_fsync = None, cw_close = None, cw_flush =
    \<lparr>wa_mkdir = None, wa_open = None, wa_writes = [], wa_fsync = None, wa_close = None, wa_rename = None\<rparr>\<rparr>"
  have env: "disk_works env" by (simp add: env_def disk_works_def atomic_works_def)
  obtain r resume states where "write_verified_chunk env (partial_path (rc_config x)) (dc_manifest (rc_config x)) i b (ds_store s) (ds_fs s) =
      (r, resume, states)" by (metis prod_cases3)
  from Helped_write [OF w(1) Holding env this] show ?thesis by blast
qed (use helped_other [OF inv valid w] in simp_all)

text \<open>
  C10. In a swarm that helps, a download completes (\<^verbatim>\<open>DownloadCoordinator::run\<close>): suppose that, for every chunk it is asked about, the
  tracker lists some peer that has the chunk and delivers it, among any others that lie or do not answer, and that no
  system call on the disk fails, though writes may be short and interrupted. Then in every interleaving no
  worker fails; each run of the threads is finite, as long as a worker has not returned some step of this kind is possible, and when all have
  returned the store is complete. So every run that goes on as far as it can ends with all chunks.
\<close>

theorem helped_download_completes:
  assumes config: "validate_config (rc_config x) = Inr ()"
    and backed: "store_backed (rc_evp x) (dc_manifest (rc_config x)) (partial_path (rc_config x)) f resume"
    and small: "length (chunk_hashes (dc_manifest (rc_config x))) + unat (dc_worker_count (rc_config x)) < 2 ^ 32"
    and site: "resume_site f (rs_path resume)"
    and helps: "\<forall>i nets. unat i < length (chunk_hashes (dc_manifest (rc_config x))) \<longrightarrow> N i nets \<longrightarrow> helpful x i nets"
    and some: "\<forall>i. unat i < length (chunk_hashes (dc_manifest (rc_config x))) \<longrightarrow> (\<exists>nets. N i nets)"
    and run: "helped_run N x (workers_start (rc_config x) resume f) n states s"
  shows "ds_failure s = None \<and>
    n \<le> 7 * length (chunk_hashes (dc_manifest (rc_config x))) + 10 * unat (dc_worker_count (rc_config x)) \<and>
    (set (ds_workers s) \<subseteq> {Returned} \<and> resume_all_complete (ds_store s) \<or> (\<exists>states' s'. helped_step N x s states' s'))"
proof -
  let ?k = "unat (dc_worker_count (rc_config x))"
  have valid: "manifest_validate (dc_manifest (rc_config x)) = Inr ()" and "0 < dc_worker_count (rc_config x)"
    using config by (auto simp: validate_config_def result_simps word_gt_0 split: if_splits)
  then have pos: "0 < ?k" by (simp add: unat_gt_0 word_gt_0)
  note start = workers_inv_start [OF backed]
  note run' = helped_worker_run [OF run]
  have inv: "workers_inv x ?k s" using worker_run_inv [OF run' start valid small] by simp
  have "calm (workers_start (rc_config x) resume f)" using site by (auto simp: calm_def workers_start_def)
  from calm_run [OF run this start config small] helps have ok: "ds_failure s = None" by (simp add: calm_def)
  moreover have "n \<le> 7 * length (chunk_hashes (dc_manifest (rc_config x))) + 10 * ?k"
    using worker_run_bound [OF run' start valid small] by (simp add: work_left_start)
  moreover have "\<exists>states' s'. helped_step N x s states' s'" if "\<not> set (ds_workers s) \<subseteq> {Returned}"
  proof -
    from that obtain w where "w < length (ds_workers s)" "ds_workers s ! w \<noteq> Returned" by (metis in_set_conv_nth singletonI subsetI)
    then show ?thesis using helped_can_step [OF inv valid] some by blast
  qed
  ultimately show ?thesis using all_returned_complete [OF inv valid pos _ ok] by blast
qed

section \<open>A concrete swarm\<close>

text \<open>A peer that has everything, and the answers to a request for one chunk.\<close>

definition sample_seeder :: discovered_peer where
  "sample_seeder = \<lparr>dp_peer_id = ''h'', dp_endpoint = \<lparr>host = ''10.0.0.7'', port = 7001\<rparr>, dp_chunks = [], dp_has_all_chunks = True\<rparr>"

definition seeder_net :: "u32 \<Rightarrow> network" where
  "seeder_net i e =
     (if e = sample_endpoint then Inr [sample_link (reply_text [sample_dead, sample_seeder])]
      else if e = dp_endpoint sample_seeder
      then Inr [sample_link (data_reply (chunk_bytes sample_seed ''abcdefgh'' (unat i)) (chunk_hashes sample_seed ! unat i))]
      else Inl ''unreachable'')"

definition seeder_nets :: "u32 \<Rightarrow> (nat \<Rightarrow> network) \<Rightarrow> bool" where
  "seeder_nets i nets \<longleftrightarrow> nets = (\<lambda>_. seeder_net i)"

lemma sample_seeder_deliverable: "\<forall>peer\<in>set [sample_dead, sample_seeder]. good_peer peer \<and> deliverable peer"
proof -
  have "t = ''all''" if "encode_chunk_list [] True = Inr t" for t using that by (simp add: encode_chunk_list_def)
  then have "deliverable sample_seeder" by (auto simp: deliverable_def sample_seeder_def peer_line_def kMaxHeaderBytes_def dec.simps)
  moreover have "good_peer sample_seeder" by (simp add: good_peer_def sample_seeder_def safe_atom_def atom_char_def)
  ultimately show ?thesis using sample_peers_deliverable by simp
qed

lemma seeder_fetch:
  assumes "unat i < 3"
  shows "\<exists>t'. fetch_chunk sample_evp sample_seeder sample_seed ''tok'' i 3000 (seeder_net i) t =
    (Inr (chunk_bytes sample_seed ''abcdefgh'' (unat i)), t')"
proof -
  let ?b = "chunk_bytes sample_seed ''abcdefgh'' (unat i)"
  have n: "unat i < length (chunk_hashes sample_seed)" "length ''abcdefgh'' = unat (file_size_bytes sample_seed)"
    using assms by (simp_all add: seed_chunks)
  obtain sz where sz: "manifest_chunk_size sample_seed i = Inr sz" "length ?b = unat sz" "unat sz \<le> 4194304"
    using read_chunk [OF sample_seed_valid n] by metis
  have hash: "sha256_hex sample_evp ?b = Inr (chunk_hashes sample_seed ! unat i)"
    using sample_describes n(1) by (simp add: describes_def sample_sha)
  have e: "dp_endpoint sample_seeder \<noteq> sample_endpoint" "host (dp_endpoint sample_seeder) \<noteq> []" "port (dp_endpoint sample_seeder) \<noteq> 0"
    by (simp_all add: sample_seeder_def sample_endpoint_def)
  show ?thesis by (rule link_fetch [OF e(2,3) _ sz hash]) (simp add: seeder_net_def e(1))
qed

lemma seeder_helpful:
  assumes "unat i < 3" and "seeder_nets i nets"
  shows "helpful sample_context i nets"
proof -
  have nets: "nets = (\<lambda>_. seeder_net i)" using assms(2) by (simp add: seeder_nets_def)
  have "\<exists>c t'. client_peers sample_client ''s'' (seeder_net i) t = (Inr [sample_dead, sample_seeder], c, t')" for t
    by (rule link_peers [OF _ sample_seeder_deliverable]) (simp_all add: seeder_net_def sample_atoms)
  then have "\<exists>peers c t'. client_peers sample_client ''s'' (seeder_net i) t = (Inr peers, c, t') \<and> sample_seeder \<in> set peers" for t
    by (metis list.set_intros)
  moreover have "\<exists>b t'. fetch_chunk sample_evp sample_seeder sample_seed ''tok'' i 3000 (seeder_net i) t = (Inr b, t')" for t
    using seeder_fetch [OF assms(1)] by blast
  moreover have "dp_peer_id sample_seeder \<noteq> ''me''" "sorted_wrt (<) (dp_chunks sample_seeder)" "dp_has_all_chunks sample_seeder"
    by (simp_all add: sample_seeder_def)
  ultimately show ?thesis unfolding helpful_def nets
    by (intro exI [of _ sample_seeder]) (simp add: sample_context_facts sample_download_facts)
qed

lemma sample_site:
  assumes "manifest_swarm_id sample_evp sample_seed = Inr swarm"
  shows "resume_site sample_sized (resume_path sample_download swarm)"
proof -
  define name where "name = swarm @ ''.resume''"
  have "safe_atom swarm" using swarm_id_atom [OF assms] by simp
  then have "list_all (\<lambda>c. c \<noteq> CHR ''/'') name"
    unfolding name_def safe_atom_def by (auto simp: list_all_iff atom_char_def)
  then have t: "takeWhile (\<lambda>c. c \<noteq> CHR ''/'') (rev name @ ''/d'') = rev name"
    by (subst takeWhile_append2) (auto simp: list_all_iff)
  have p: "resume_path sample_download swarm = ''d/'' @ name"
    by (simp add: resume_path_def path_append_def sample_download_facts path_filename_def name_def)
  have "path_filename (''d/'' @ name) = name" using t by (simp add: path_filename_def)
  then have "path_parent (''d/'' @ name) = ''d''" by (simp add: path_parent_def)
  moreover have "dir_prefixes ''d'' = [''d'']" by (simp add: dir_prefixes_def)
  moreover have "nodes sample_sized ''d'' = Some Directory"
    using sample_made_dir(2) [OF sample_paths_long(2)] by (simp add: sample_sized_def)
  moreover have "nodes sample_sized q \<noteq> Some Directory" if "1 < length q" for q
    using sample_made_empty [OF that] by (auto simp: sample_sized_def node_simps)
  ultimately show ?thesis by (simp add: resume_site_def p)
qed

lemma sample_ready:
  "\<exists>swarm resume. manifest_swarm_id sample_evp sample_seed = Inr swarm \<and> rs_path resume = resume_path sample_download swarm \<and>
     store_backed sample_evp sample_seed (partial_path sample_download) sample_sized resume \<and> done_chunks resume = {}"
proof -
  obtain swarm resume states where P: "manifest_swarm_id sample_evp sample_seed = Inr swarm"
    "run_prepare sample_evp sample_run_env sample_download empty_fs = (Prepared resume, states)" "last states = sample_sized"
    "store_backed sample_evp sample_seed (partial_path sample_download) sample_sized resume" "done_chunks resume = {}"
    using sample_prepared by blast
  have "\<exists>h. sha256_hex sample_evp b = Inr h" for b by (simp add: sample_sha)
  from prepared_backed [OF sample_config this _ sample_plain sample_plain P(2), of swarm] P(1)
  have "rs_path resume = resume_path sample_download swarm" by (simp add: sample_download_facts)
  with P show ?thesis by blast
qed

lemma greatest_run:
  assumes "\<And>n states s. helped_run N x s0 n states s \<Longrightarrow> n \<le> (b :: nat)"
  shows "\<exists>n states s. helped_run N x s0 n states s \<and> (\<forall>states' s'. \<not> helped_step N x s states' s')"
proof -
  have "\<exists>n. (\<exists>states s. helped_run N x s0 n states s) \<and> (\<forall>k. (\<exists>states s. helped_run N x s0 k states s) \<longrightarrow> k \<le> n)"
    using Helped_none [of N x s0]
    by (intro ex_has_greatest_nat [where f = id and k = 0 and b = "Suc b", simplified]) (auto simp: less_Suc_eq_le dest: assms)
  then obtain n states s where run: "helped_run N x s0 n states s" "\<And>k states s. helped_run N x s0 k states s \<Longrightarrow> k \<le> n" by blast
  have "\<not> helped_step N x s states' s'" for states' s'
    using run(2) [OF Helped_more [OF run(1)]] by fastforce
  with run(1) show ?thesis by blast
qed

theorem helped_download_completes_witness:
  "\<exists>resume n states s. helped_run seeder_nets sample_context (workers_start sample_download resume sample_sized) n states s \<and>
     done_chunks resume = {} \<and> ds_failure s = None \<and> resume_all_complete (ds_store s)"
proof -
  obtain swarm resume where R: "manifest_swarm_id sample_evp sample_seed = Inr swarm" "rs_path resume = resume_path sample_download swarm"
    "store_backed sample_evp sample_seed (partial_path sample_download) sample_sized resume" "done_chunks resume = {}"
    using sample_ready by blast
  let ?x = sample_context
  have three: "length (chunk_hashes (dc_manifest (rc_config ?x))) = 3" by (simp add: sample_context_facts sample_download_facts seed_chunks)
  have helps: "\<forall>i nets. unat i < length (chunk_hashes (dc_manifest (rc_config ?x))) \<longrightarrow> seeder_nets i nets \<longrightarrow> helpful ?x i nets"
    using seeder_helpful by (simp add: three)
  have some: "\<forall>i. unat i < length (chunk_hashes (dc_manifest (rc_config ?x))) \<longrightarrow> (\<exists>nets. seeder_nets i nets)"
    by (simp add: seeder_nets_def)
  have config: "validate_config (rc_config ?x) = Inr ()" using sample_config by (simp add: sample_context_facts)
  have backed: "store_backed (rc_evp ?x) (dc_manifest (rc_config ?x)) (partial_path (rc_config ?x)) sample_sized resume"
    using R(3) by (simp add: sample_context_facts sample_download_facts)
  have small: "length (chunk_hashes (dc_manifest (rc_config ?x))) + unat (dc_worker_count (rc_config ?x)) < 2 ^ 32"
    using sample_small by (simp add: sample_context_facts)
  have site: "resume_site sample_sized (rs_path resume)" using sample_site [OF R(1)] R(2) by simp
  note T = helped_download_completes [OF config backed small site helps some]
  have "\<exists>n states s. helped_run seeder_nets ?x (workers_start (rc_config ?x) resume sample_sized) n states s \<and>
      (\<forall>states' s'. \<not> helped_step seeder_nets ?x s states' s')"
    by (rule greatest_run) (use T in blast)
  then obtain n states s where run: "helped_run seeder_nets ?x (workers_start (rc_config ?x) resume sample_sized) n states s"
    "\<And>states' s'. \<not> helped_step seeder_nets ?x s states' s'" by blast
  from T [OF run(1)] run R(4) show ?thesis
    by (intro exI [of _ resume] exI [of _ n] exI [of _ states] exI [of _ s]) (simp add: sample_context_facts)
qed

lemma sample_advertising:
  "\<exists>swarm resume n states s. manifest_swarm_id sample_evp sample_seed = Inr swarm \<and>
     store_backed sample_evp sample_seed (partial_path sample_download) sample_sized resume \<and>
     worker_run sample_context (workers_start sample_download resume sample_sized) n states s \<and>
     ds_workers s = [Advertising (resume_completed_chunks (ds_store s))] \<and> 0 \<in> set (resume_completed_chunks (ds_store s))"
proof -
  obtain swarm resume where R: "manifest_swarm_id sample_evp sample_seed = Inr swarm" "rs_path resume = resume_path sample_download swarm"
    "store_backed sample_evp sample_seed (partial_path sample_download) sample_sized resume" "done_chunks resume = {}"
    using sample_ready by blast
  have store: "store_for sample_seed resume" using R(3) by (simp add: store_backed_def)
  obtain states s b r resume' where S: "worker_run sample_context (workers_start sample_download resume sample_sized) 5 states s"
    "write_verified_chunk sample_chunk_env (partial_path sample_download) sample_seed 0 b resume sample_sized = (r, resume', states)"
    "chunk_verified sample_evp sample_seed 0 b" "ds_workers s = [case r of Inl e \<Rightarrow> Failing e | Inr _ \<Rightarrow> Announcing]" "ds_store s = resume'"
    using sample_threads [OF store R(4), of sample_sized] by blast
  have zero: "0 < rs_chunk_count resume" using store by (simp add: store_for_def seed_chunks)
  have disk: "disk_works sample_chunk_env" by (simp add: disk_works_def atomic_works_def sample_chunk_env_def sample_atomic_env_def)
  have ok: "r = Inr ()"
    using write_verified_chunk_works [OF sample_seed_valid R(3) zero S(3) disk] sample_site [OF R(1)] R(2) S(2) by auto
  have "0 \<notin> done_chunks resume" by (simp add: R(4))
  from write_verified_chunk_outcome [OF sample_seed_valid R(3) zero this S(3,2)] ok
  have "0 \<in> done_chunks resume'" "wf_store resume'" by (simp_all add: chunk_write_outcome_def store_backed_def store_for_def)
  then have zero': "0 \<in> set (resume_completed_chunks resume')" using rl.listing_set by blast
  have "worker_step sample_context s [] (worker_advertise 0 s)" by (rule worker_step.Advertise) (simp_all add: S(4) ok)
  from Run_step [OF S(1) this] have "worker_run sample_context (workers_start sample_download resume sample_sized) 6 states (worker_advertise 0 s)"
    by simp
  moreover have "ds_workers (worker_advertise 0 s) = [Advertising (resume_completed_chunks resume')]" "ds_store (worker_advertise 0 s) = resume'"
    using S(4,5) ok by (simp_all add: worker_defs)
  ultimately show ?thesis using R zero' by (intro exI conjI) (assumption+, simp_all)
qed

theorem advertised_chunks_are_served_witness:
  "\<exists>swarm (s :: download_state) b. 0 \<in> set (resume_completed_chunks (ds_store s)) \<and> sha256_hex sample_evp b = Inr (chunk_hashes sample_seed ! 0) \<and>
     sent (serve_connection sample_evp (download_peer sample_download (ds_store s)) (ds_fs s) (sample_request_conn (get_line ''tok'' swarm 0))) =
       data_reply b (chunk_hashes sample_seed ! 0)"
proof -
  obtain swarm resume n states s where A: "manifest_swarm_id sample_evp sample_seed = Inr swarm"
     "store_backed sample_evp sample_seed (partial_path sample_download) sample_sized resume"
     "worker_run sample_context (workers_start sample_download resume sample_sized) n states s"
     "ds_workers s = [Advertising (resume_completed_chunks (ds_store s))]" "0 \<in> set (resume_completed_chunks (ds_store s))"
    using sample_advertising by blast
  let ?c = "sample_request_conn (get_line ''tok'' swarm 0)"
  let ?b = "chunk_bytes sample_seed (file_data (ds_fs s) (partial_path sample_download)) (unat (0 :: u32))"
  have x: "rc_config sample_context = sample_download" "rc_evp sample_context = sample_evp" by (simp_all add: sample_context_facts)
  have c: "pending (incoming ?c) = ''GET '' @ ''tok'' @ '' '' @ swarm @ '' '' @ dec (unat (0 :: u32)) @ [nl]" "0 \<le> native_handle ?c"
    "Send_failed e \<notin> set (sending ?c)" "sent ?c = []" for e
    by (simp_all add: sample_request_conn_facts get_line_def)
  have "sent (serve_connection sample_evp (download_peer sample_download (ds_store s)) (ds_fs s) ?c) =
      sent ?c @ data_reply ?b (chunk_hashes sample_seed ! unat (0 :: u32)) \<and>
    sha256_hex sample_evp ?b = Inr (chunk_hashes sample_seed ! unat (0 :: u32))"
  proof (rule advertised_chunks_are_served [where x = sample_context, unfolded x sample_download_facts, OF sample_config refl refl A(2) _ A(3)])
    show "worker_run sample_context s 0 [] s" by (rule Run_none)
    show "Advertising (resume_completed_chunks (ds_store s)) \<in> set (ds_workers s)" by (subst A(4)) simp
  qed (use A(1,5) c sample_small in \<open>simp_all add: sample_download_facts sample_atoms\<close>)
  then have "sent (serve_connection sample_evp (download_peer sample_download (ds_store s)) (ds_fs s) ?c) = data_reply ?b (chunk_hashes sample_seed ! 0)"
    "sha256_hex sample_evp ?b = Inr (chunk_hashes sample_seed ! 0)" using c(4) by simp_all
  with A(5) show ?thesis by blast
qed

end
