(* ===== verification/Tracker_Service.thy ===== *)
theory Tracker_Service
  imports Tracker "HOL-Library.Sublist"
begin

text \<open>
  The tracker as a concurrent service (\<^verbatim>\<open>src/tracker.cpp\<close>). The workers run \<^verbatim>\<open>handle_connection\<close> side by
  side; here its stages are steps, so that every interleaving of any number of workers is a run: reading the
  request, looking at the clock, the critical section under \<^verbatim>\<open>peers_mutex_\<close>, and the reply. The clock is read
  before the lock is taken, so the critical sections need not run in the order of their times.
\<close>

section \<open>The stages of \<^verbatim>\<open>handle_connection\<close>\<close>

datatype tracker_reply = Unauthorized | Announced bool | Listed "discovered_peer list"

datatype handler =
    Reading endpoint conn
  | Timing tracker_request endpoint conn
  | Locking tracker_request int endpoint conn
  | Replying tracker_reply conn
  | Handled conn

text \<open>From the start to the check of the token.\<close>

definition handler_read :: "tracker_server \<Rightarrow> endpoint \<Rightarrow> conn \<Rightarrow> handler" where
  "handler_read srv remote c =
     (case io_bind (read_line kMaxHeaderBytes) (\<lambda>header. io_lift (parse_tracker_request header)) c of
        (Inl _, c) \<Rightarrow> Handled (snd (write_all (''ERROR bad_request'' @ [nl]) c))
      | (Inr request, c) \<Rightarrow>
          if \<not> secure_token_equal (ts_token srv) (tr_token request) then Replying Unauthorized c
          else Timing request remote c)"

text \<open>One of the two critical sections.\<close>

definition handler_lock ::
  "tracker_server \<Rightarrow> (peer_map \<Rightarrow> peer_map) \<Rightarrow> int \<Rightarrow> endpoint \<Rightarrow> tracker_request \<Rightarrow> swarm_map \<Rightarrow> tracker_reply \<times> swarm_map" where
  "handler_lock srv order now remote request swarms =
     (if tr_kind request = Announce
      then let (accepted, swarms) = announce_locked srv now remote request swarms in (Announced accepted, swarms)
      else let (peers, swarms) = peers_locked srv order now request swarms in (Listed peers, swarms))"

fun reply_io :: "tracker_reply \<Rightarrow> unit io" where
  "reply_io Unauthorized = write_all (''ERROR unauthorized'' @ [nl])"
| "reply_io (Announced accepted) = write_all ((if \<not> accepted then ''ERROR capacity'' else ''OK'') @ [nl])"
| "reply_io (Listed peers) = write_peers peers"

definition handler_reply :: "tracker_reply \<Rightarrow> conn \<Rightarrow> conn" where
  "handler_reply reply c = or_bad_request (reply_io reply) c"

section \<open>Runs\<close>

text \<open>
  The last two members only record what happened: the connections as they came, and the connections that have
  passed the point at which they take effect, in that order, each with the time and the order of iteration it used.
\<close>

type_synonym effect = "nat \<times> (peer_map \<Rightarrow> peer_map) \<times> int"

record service =
  sv_swarms :: swarm_map
  sv_clock :: int
  sv_handlers :: "handler list"
  sv_jobs :: "(endpoint \<times> conn) list"
  sv_log :: "effect list"

definition service_init :: service where
  "service_init = \<lparr>sv_swarms = [], sv_clock = 0, sv_handlers = [], sv_jobs = [], sv_log = []\<rparr>"

text \<open>A handler that gets past its reading without needing the registry takes effect there.\<close>

definition service_read :: "tracker_server \<Rightarrow> nat \<Rightarrow> endpoint \<Rightarrow> conn \<Rightarrow> service \<Rightarrow> service" where
  "service_read srv i remote c s =
     (let h = handler_read srv remote c
      in s\<lparr>sv_handlers := (sv_handlers s)[i := h],
           sv_log := sv_log s @ (case h of Timing _ _ _ \<Rightarrow> [] | _ \<Rightarrow> [(i, id, sv_clock s)])\<rparr>)"

definition service_lock ::
  "tracker_server \<Rightarrow> (peer_map \<Rightarrow> peer_map) \<Rightarrow> nat \<Rightarrow> tracker_request \<Rightarrow> int \<Rightarrow> endpoint \<Rightarrow> conn \<Rightarrow> service \<Rightarrow> service" where
  "service_lock srv order i request now remote c s =
     (let (reply, swarms) = handler_lock srv order now remote request (sv_swarms s)
      in s\<lparr>sv_swarms := swarms, sv_handlers := (sv_handlers s)[i := Replying reply c], sv_log := sv_log s @ [(i, order, now)]\<rparr>)"

inductive service_step :: "tracker_server \<Rightarrow> service \<Rightarrow> service \<Rightarrow> bool" for srv where
  Arrive: "service_step srv s (s\<lparr>sv_handlers := sv_handlers s @ [Reading remote c], sv_jobs := sv_jobs s @ [(remote, c)]\<rparr>)"
| Pass: "0 \<le> d \<Longrightarrow> service_step srv s (s\<lparr>sv_clock := sv_clock s + d\<rparr>)"
| Read: "i < length (sv_handlers s) \<Longrightarrow> sv_handlers s ! i = Reading remote c \<Longrightarrow> service_step srv s (service_read srv i remote c s)"
| Clock: "i < length (sv_handlers s) \<Longrightarrow> sv_handlers s ! i = Timing request remote c \<Longrightarrow>
    service_step srv s (s\<lparr>sv_handlers := (sv_handlers s)[i := Locking request (sv_clock s) remote c]\<rparr>)"
| Lock: "i < length (sv_handlers s) \<Longrightarrow> sv_handlers s ! i = Locking request now remote c \<Longrightarrow> (\<And>ps. mset (order ps) = mset ps) \<Longrightarrow>
    service_step srv s (service_lock srv order i request now remote c s)"
| Reply: "i < length (sv_handlers s) \<Longrightarrow> sv_handlers s ! i = Replying reply c \<Longrightarrow>
    service_step srv s (s\<lparr>sv_handlers := (sv_handlers s)[i := Handled (handler_reply reply c)]\<rparr>)"

inductive_cases service_step_cases: "service_step srv s s'"

abbreviation service_run :: "tracker_server \<Rightarrow> service \<Rightarrow> service \<Rightarrow> bool" where
  "service_run srv \<equiv> (service_step srv)\<^sup>*\<^sup>*"

section \<open>The stages put together are the handler\<close>

lemma handler_read_stages:
  assumes "handler_read srv remote c = h"
  shows "(case h of
      Timing request r c1 \<Rightarrow> r = remote \<and> (\<exists>header. parse_tracker_request header = Inr request) \<and>
        (\<forall>order now swarms. handle_connection srv order now remote c swarms =
          (let (reply, swarms) = handler_lock srv order now remote request swarms in (handler_reply reply c1, swarms)))
    | Replying reply c1 \<Rightarrow> \<forall>order now swarms. handle_connection srv order now remote c swarms = (handler_reply reply c1, swarms)
    | Handled c1 \<Rightarrow> \<forall>order now swarms. handle_connection srv order now remote c swarms = (c1, swarms)
    | _ \<Rightarrow> False)"
proof -
  obtain x c1 where x: "io_bind (read_line kMaxHeaderBytes) (\<lambda>header. io_lift (parse_tracker_request header)) c = (x, c1)"
    by fastforce
  show ?thesis
  proof (cases x)
    case (Inl e)
    with assms x show ?thesis by (auto simp: handler_read_def handle_connection_def)
  next
    case (Inr request)
    with x obtain header where "parse_tracker_request header = Inr request"
      by (auto simp: io_bind_def io_lift_def split: prod.splits sum.splits)
    with assms x Inr show ?thesis
      by (auto simp: handler_read_def handle_connection_def handler_lock_def handler_reply_def split: prod.splits)
  qed
qed

section \<open>The sequential tracker\<close>

text \<open>One connection after the other, each handled as a whole: the registry and the connections afterwards.\<close>

definition serial_step ::
  "tracker_server \<Rightarrow> (endpoint \<times> conn) list \<Rightarrow> effect \<Rightarrow> swarm_map \<times> (nat \<rightharpoonup> conn) \<Rightarrow> swarm_map \<times> (nat \<rightharpoonup> conn)" where
  "serial_step srv jobs e st =
     (case (e, st) of ((i, order, now), (swarms, outs)) \<Rightarrow>
        case handle_connection srv order now (fst (jobs ! i)) (snd (jobs ! i)) swarms of
          (c, swarms) \<Rightarrow> (swarms, outs(i \<mapsto> c)))"

definition serial :: "tracker_server \<Rightarrow> (endpoint \<times> conn) list \<Rightarrow> effect list \<Rightarrow> swarm_map \<times> (nat \<rightharpoonup> conn)" where
  "serial srv jobs log = fold (serial_step srv jobs) log ([], Map.empty)"

lemma serial_snoc: "serial srv jobs (log @ [e]) = serial_step srv jobs e (serial srv jobs log)"
  by (simp add: serial_def)

lemma serial_more_jobs:
  "fst ` set log \<subseteq> {..<length jobs} \<Longrightarrow> serial srv (jobs @ new) log = serial srv jobs log"
proof (induction log rule: rev_induct)
  case (snoc e log)
  then show ?case by (cases e) (auto simp: serial_snoc serial_step_def nth_append split: prod.splits)
qed (simp add: serial_def)

lemma serial_reach: "tracker_reach srv (fst (serial srv jobs log))"
proof (induction log rule: rev_induct)
  case Nil
  show ?case by (simp add: serial_def Tracker_init)
next
  case (snoc e log)
  obtain i order now where e: "e = (i, order, now)" using prod_cases3 by blast
  obtain swarms outs where st: "serial srv jobs log = (swarms, outs)" by fastforce
  obtain c' swarms' where h: "handle_connection srv order now (fst (jobs ! i)) (snd (jobs ! i)) swarms = (c', swarms')" by fastforce
  from snoc st have "tracker_reach srv swarms" by simp
  then have "tracker_reach srv swarms'" using h by (rule Tracker_connection)
  with e st h show ?case by (simp add: serial_snoc serial_step_def)
qed

text \<open>What holds of each handler when the sequential tracker has run the log.\<close>

fun handler_inv :: "tracker_server \<Rightarrow> int \<Rightarrow> nat set \<Rightarrow> (nat \<rightharpoonup> conn) \<Rightarrow> endpoint \<times> conn \<Rightarrow> nat \<Rightarrow> handler \<Rightarrow> bool" where
  "handler_inv srv clock done' outs job i (Reading remote c) \<longleftrightarrow> i \<notin> done' \<and> job = (remote, c)"
| "handler_inv srv clock done' outs job i (Timing request remote c) \<longleftrightarrow>
     i \<notin> done' \<and> handler_read srv (fst job) (snd job) = Timing request remote c"
| "handler_inv srv clock done' outs job i (Locking request now remote c) \<longleftrightarrow>
     i \<notin> done' \<and> now \<le> clock \<and> handler_read srv (fst job) (snd job) = Timing request remote c"
| "handler_inv srv clock done' outs job i (Replying reply c) \<longleftrightarrow> i \<in> done' \<and> outs i = Some (handler_reply reply c)"
| "handler_inv srv clock done' outs job i (Handled c) \<longleftrightarrow> i \<in> done' \<and> outs i = Some c"

definition service_inv :: "tracker_server \<Rightarrow> service \<Rightarrow> bool" where
  "service_inv srv s \<longleftrightarrow>
     length (sv_jobs s) = length (sv_handlers s) \<and> distinct (map fst (sv_log s)) \<and>
     fst ` set (sv_log s) \<subseteq> {..<length (sv_jobs s)} \<and> (\<forall>(i, order, now)\<in>set (sv_log s). now \<le> sv_clock s) \<and>
     sv_swarms s = fst (serial srv (sv_jobs s) (sv_log s)) \<and>
     (\<forall>i<length (sv_handlers s). handler_inv srv (sv_clock s) (fst ` set (sv_log s)) (snd (serial srv (sv_jobs s) (sv_log s)))
        (sv_jobs s ! i) i (sv_handlers s ! i))"


lemma service_inv_handler:
  assumes "service_inv srv s" and "i < length (sv_handlers s)" and "sv_handlers s ! i = h"
  shows "handler_inv srv (sv_clock s) (fst ` set (sv_log s)) (snd (serial srv (sv_jobs s) (sv_log s))) (sv_jobs s ! i) i h"
  using assms unfolding service_inv_def by blast

lemma handler_inv_other:
  "handler_inv srv clock D outs job i h \<Longrightarrow> i \<noteq> j \<Longrightarrow> handler_inv srv clock (insert j D) (outs(j \<mapsto> c)) job i h"
  by (cases h) auto

lemma handler_inv_later: "handler_inv srv clock D outs job i h \<Longrightarrow> clock \<le> clock' \<Longrightarrow> handler_inv srv clock' D outs job i h"
  by (cases h) auto

text \<open>A handler changes and takes no effect.\<close>

lemma service_inv_private:
  assumes "service_inv srv s" and i: "i < length (sv_handlers s)"
    and "handler_inv srv (sv_clock s) (fst ` set (sv_log s)) (snd (serial srv (sv_jobs s) (sv_log s))) (sv_jobs s ! i) i h"
  shows "service_inv srv (s\<lparr>sv_handlers := (sv_handlers s)[i := h]\<rparr>)"
  using assms by (auto simp: service_inv_def nth_list_update)

text \<open>A handler changes and takes its effect, the one that the sequential tracker gives it.\<close>

lemma service_inv_effect:
  assumes inv: "service_inv srv s" and i: "i < length (sv_handlers s)" and fresh: "i \<notin> fst ` set (sv_log s)" and now: "now \<le> sv_clock s"
    and run: "handle_connection srv order now (fst (sv_jobs s ! i)) (snd (sv_jobs s ! i)) (sv_swarms s) = (c', swarms')"
    and h: "h = Handled c' \<or> (\<exists>reply c. h = Replying reply c \<and> handler_reply reply c = c')"
  shows "service_inv srv (s\<lparr>sv_swarms := swarms', sv_handlers := (sv_handlers s)[i := h], sv_log := sv_log s @ [(i, order, now)]\<rparr>)"
proof -
  define outs where "outs = snd (serial srv (sv_jobs s) (sv_log s))"
  have st: "serial srv (sv_jobs s) (sv_log s) = (sv_swarms s, outs)"
    using inv by (simp add: service_inv_def outs_def)
  then have st': "serial srv (sv_jobs s) (sv_log s @ [(i, order, now)]) = (swarms', outs(i \<mapsto> c'))"
    using run by (simp add: serial_snoc serial_step_def)
  have "handler_inv srv (sv_clock s) (insert i (fst ` set (sv_log s))) (outs(i \<mapsto> c')) (sv_jobs s ! k) k ((sv_handlers s)[i := h] ! k)"
    if k: "k < length (sv_handlers s)" for k
  proof (cases "k = i")
    case True
    with h i show ?thesis by auto
  next
    case False
    have "handler_inv srv (sv_clock s) (fst ` set (sv_log s)) outs (sv_jobs s ! k) k (sv_handlers s ! k)"
      using inv k by (simp add: service_inv_def outs_def)
    with False show ?thesis by (simp add: handler_inv_other)
  qed
  with inv i fresh now st st' show ?thesis by (auto simp: service_inv_def)
qed

lemma service_inv_read:
  assumes inv: "service_inv srv s" and i: "i < length (sv_handlers s)" and h: "sv_handlers s ! i = Reading remote c"
  shows "service_inv srv (service_read srv i remote c s)"
proof -
  have job: "i \<notin> fst ` set (sv_log s)" "sv_jobs s ! i = (remote, c)"
    using service_inv_handler [OF inv i h] by simp_all
  note S = handler_read_stages [where srv = srv and remote = remote and c = c, OF refl]
  show ?thesis
  proof (cases "handler_read srv remote c")
    case (Timing request r c1)
    with job S show ?thesis using service_inv_private [OF inv i, of "Timing request r c1"] by (simp add: service_read_def)
  next
    case (Replying reply c1)
    with job S service_inv_effect [OF inv i job(1), of "sv_clock s" id _ "sv_swarms s" "Replying reply c1"] show ?thesis
      by (simp add: service_read_def)
  next
    case (Handled c1)
    with job S service_inv_effect [OF inv i job(1), of "sv_clock s" id _ "sv_swarms s" "Handled c1"] show ?thesis
      by (simp add: service_read_def)
  qed (use S in simp_all)
qed

lemma service_inv_lock:
  assumes inv: "service_inv srv s" and i: "i < length (sv_handlers s)" and h: "sv_handlers s ! i = Locking request now remote c"
  shows "service_inv srv (service_lock srv order i request now remote c s)"
proof -
  have job: "i \<notin> fst ` set (sv_log s)" "now \<le> sv_clock s"
    "handler_read srv (fst (sv_jobs s ! i)) (snd (sv_jobs s ! i)) = Timing request remote c"
    using service_inv_handler [OF inv i h] by simp_all
  obtain reply swarms' where l: "handler_lock srv order now remote request (sv_swarms s) = (reply, swarms')" by fastforce
  from handler_read_stages [OF job(3)] l have
    "handle_connection srv order now (fst (sv_jobs s ! i)) (snd (sv_jobs s ! i)) (sv_swarms s) = (handler_reply reply c, swarms')"
    by simp
  from service_inv_effect [OF inv i job(1,2) this, of "Replying reply c"] l show ?thesis by (simp add: service_lock_def)
qed

lemma service_inv_arrive:
  assumes inv: "service_inv srv s"
  shows "service_inv srv (s\<lparr>sv_handlers := sv_handlers s @ [Reading remote c], sv_jobs := sv_jobs s @ [(remote, c)]\<rparr>)"
proof -
  have log: "fst ` set (sv_log s) \<subseteq> {..<length (sv_jobs s)}" and len: "length (sv_jobs s) = length (sv_handlers s)"
    using inv unfolding service_inv_def by blast+
  then have "length (sv_handlers s) \<notin> fst ` set (sv_log s)" by auto
  with inv len show ?thesis
    unfolding service_inv_def by (auto simp: serial_more_jobs [OF log] nth_append less_Suc_eq)
qed

lemma service_inv_step: "service_step srv s s' \<Longrightarrow> service_inv srv s \<Longrightarrow> service_inv srv s'"
proof (induction rule: service_step.induct)
  case (Pass d s)
  then show ?case by (fastforce simp: service_inv_def intro: handler_inv_later)
next
  case (Clock i s request remote c)
  then have "handler_inv srv (sv_clock s) (fst ` set (sv_log s)) (snd (serial srv (sv_jobs s) (sv_log s))) (sv_jobs s ! i) i
      (Locking request (sv_clock s) remote c)"
    using service_inv_handler by fastforce
  with Clock show ?case by (intro service_inv_private) auto
next
  case (Reply i s reply c)
  then have "handler_inv srv (sv_clock s) (fst ` set (sv_log s)) (snd (serial srv (sv_jobs s) (sv_log s))) (sv_jobs s ! i) i
      (Handled (handler_reply reply c))"
    using service_inv_handler by fastforce
  with Reply show ?case by (intro service_inv_private) auto
qed (auto intro: service_inv_arrive service_inv_read service_inv_lock)

lemma service_inv_init: "service_inv srv service_init"
  by (simp add: service_inv_def service_init_def serial_def)

lemma service_run_inv: "service_run srv s s' \<Longrightarrow> service_inv srv s \<Longrightarrow> service_inv srv s'"
  by (induction rule: rtranclp_induct) (auto intro: service_inv_step)

lemma service_step_grows:
  "service_step srv s s' \<Longrightarrow> prefix (sv_log s) (sv_log s') \<and> prefix (sv_jobs s) (sv_jobs s')"
  by (induction rule: service_step.induct)
     (auto simp: service_read_def service_lock_def Let_def split: prod.splits)

lemma service_run_grows:
  "service_run srv s s' \<Longrightarrow> prefix (sv_log s) (sv_log s') \<and> prefix (sv_jobs s) (sv_jobs s')"
  by (induction rule: rtranclp_induct) (auto dest!: service_step_grows intro: prefix_order.trans)

text \<open>
  C11. The tracker is linearizable (\<^verbatim>\<open>handle_connection\<close>, \<^verbatim>\<open>peers_mutex_\<close>): however the workers interleave, the registry
  and everything sent to the clients are those of a tracker that handles the connections one after
  the other, each as a whole, in the order \<open>sv_log\<close>. Every connection is in that order at most once, and every one that was
  answered is in it. The order agrees with time: what was answered before another connection
  arrived comes first, as the order of an earlier state is a prefix of that of a later one and
  mentions only connections that had arrived.
\<close>

theorem tracker_linearizable:
  assumes "service_run srv service_init s" and "service_run srv s s'"
  shows "sv_swarms s' = fst (serial srv (sv_jobs s') (sv_log s')) \<and>
    (\<forall>i<length (sv_handlers s'). \<forall>c. sv_handlers s' ! i = Handled c \<longrightarrow>
       i \<in> fst ` set (sv_log s') \<and> snd (serial srv (sv_jobs s') (sv_log s')) i = Some c) \<and>
    distinct (map fst (sv_log s')) \<and> (\<forall>(i, order, now)\<in>set (sv_log s'). now \<le> sv_clock s') \<and>
    prefix (sv_log s) (sv_log s') \<and> prefix (sv_jobs s) (sv_jobs s') \<and>
    fst ` set (sv_log s) \<subseteq> {..<length (sv_jobs s)}"
proof -
  have inv: "service_inv srv s" using service_run_inv [OF assms(1) service_inv_init] .
  have inv': "service_inv srv s'" using service_run_inv [OF assms(2) inv] .
  have "i \<in> fst ` set (sv_log s') \<and> snd (serial srv (sv_jobs s') (sv_log s')) i = Some c"
    if "i < length (sv_handlers s')" "sv_handlers s' ! i = Handled c" for i c
    using service_inv_handler [OF inv' that] by simp
  with inv inv' service_run_grows [OF assms(2)] show ?thesis by (auto simp: service_inv_def)
qed

section \<open>What the registry promises\<close>

text \<open>
  The abstract tracker is a directory: a map from a swarm and a peer to the record of the last accepted
  announcement. Records expire, and an operation sees only those that have not.
\<close>

type_synonym directory = "string \<times> string \<rightharpoonup> peer_record"

definition directory :: "swarm_map \<Rightarrow> directory" where
  "directory swarms = (\<lambda>(s, p). registered swarms s p)"

definition dir_expire :: "int \<Rightarrow> int \<Rightarrow> directory \<Rightarrow> directory" where
  "dir_expire ttl now D = (\<lambda>k. case D k of None \<Rightarrow> None | Some r \<Rightarrow> if expired ttl now r then None else Some r)"

definition dir_peers :: "directory \<Rightarrow> string \<Rightarrow> string set" where
  "dir_peers D s = {p. D (s, p) \<noteq> None}"

definition dir_swarms :: "directory \<Rightarrow> string set" where
  "dir_swarms D = {s. dir_peers D s \<noteq> {}}"

text \<open>There is room for a peer that is known, or whose swarm has room and is known or can be added.\<close>

definition dir_admits :: "tracker_limits \<Rightarrow> directory \<Rightarrow> string \<Rightarrow> string \<Rightarrow> bool" where
  "dir_admits limits D s p \<longleftrightarrow>
     p \<in> dir_peers D s \<or>
     card (dir_peers D s) < unat (max_peers_per_swarm limits) \<and>
     (s \<in> dir_swarms D \<or> card (dir_swarms D) < unat (max_swarms limits))"

text \<open>An answer lists different peers of the swarm, as many as there are and the limit allows.\<close>

definition dir_answers :: "tracker_limits \<Rightarrow> directory \<Rightarrow> string \<Rightarrow> discovered_peer list \<Rightarrow> bool" where
  "dir_answers limits D s peers \<longleftrightarrow>
     distinct (map dp_peer_id peers) \<and> (\<forall>peer\<in>set peers. map_option pr_peer (D (s, dp_peer_id peer)) = Some peer) \<and>
     length peers = min (unat (max_response_peers limits)) (card (dir_peers D s))"

inductive dir_op :: "tracker_server \<Rightarrow> int \<Rightarrow> endpoint \<Rightarrow> tracker_request \<Rightarrow> directory \<Rightarrow> tracker_reply \<Rightarrow> directory \<Rightarrow> bool"
  for srv now remote request D where
  Admit: "tr_kind request = Announce \<Longrightarrow> L = dir_expire (ts_ttl srv) now D \<Longrightarrow>
    dir_admits (ts_limits srv) L (tr_swarm_id request) (tr_peer_id request) \<Longrightarrow>
    dir_op srv now remote request D (Announced True)
      (L((tr_swarm_id request, tr_peer_id request) \<mapsto> request_record request remote now))"
| Reject: "tr_kind request = Announce \<Longrightarrow> L = dir_expire (ts_ttl srv) now D \<Longrightarrow>
    \<not> dir_admits (ts_limits srv) L (tr_swarm_id request) (tr_peer_id request) \<Longrightarrow> dir_op srv now remote request D (Announced False) L"
| Answer: "tr_kind request = Peers \<Longrightarrow> L = dir_expire (ts_ttl srv) now D \<Longrightarrow>
    dir_answers (ts_limits srv) L (tr_swarm_id request) peers \<Longrightarrow> dir_op srv now remote request D (Listed peers) L"

lemma directory_prune:
  "registry_ok srv swarms \<Longrightarrow> dir_expire ttl now (directory swarms) = directory (prune_expired ttl now swarms)"
  by (auto simp: dir_expire_def directory_def registered_prune)

lemma dir_peers_registry:
  assumes "registry_ok srv swarms"
  shows "dir_peers (directory swarms) s = (case map_of swarms s of None \<Rightarrow> {} | Some peers \<Rightarrow> fst ` set peers)"
    and "card (dir_peers (directory swarms) s) = (case map_of swarms s of None \<Rightarrow> 0 | Some peers \<Rightarrow> length peers)"
proof -
  show peers: "dir_peers (directory swarms) s = (case map_of swarms s of None \<Rightarrow> {} | Some peers \<Rightarrow> fst ` set peers)"
    by (cases "map_of swarms s") (simp_all add: dir_peers_def directory_def registered_def dom_map_of_conv_image_fst [symmetric] dom_def)
  have "card (fst ` set ps) = length ps" if "map_of swarms s = Some ps" for ps
  proof -
    have "distinct (map fst ps)" using assms map_of_SomeD [OF that] by (auto simp: registry_ok_def swarm_ok_def)
    then show ?thesis by (metis distinct_card length_map list.set_map)
  qed
  with peers show "card (dir_peers (directory swarms) s) = (case map_of swarms s of None \<Rightarrow> 0 | Some peers \<Rightarrow> length peers)"
    by (simp split: option.splits)
qed

lemma dir_swarms_registry:
  assumes "registry_ok srv swarms"
  shows "dir_swarms (directory swarms) = fst ` set swarms" and "card (dir_swarms (directory swarms)) = length swarms"
proof -
  have "dir_peers (directory swarms) s \<noteq> {} \<longleftrightarrow> map_of swarms s \<noteq> None" for s
    using assms by (auto simp: dir_peers_registry [OF assms] registry_ok_def split: option.splits dest!: map_of_SomeD)
  then show swarms: "dir_swarms (directory swarms) = fst ` set swarms"
    by (auto simp: dir_swarms_def map_of_eq_None_iff)
  have "distinct (map fst swarms)" using assms by (simp add: registry_ok_def)
  then show "card (dir_swarms (directory swarms)) = length swarms"
    unfolding swarms by (metis distinct_card length_map list.set_map)
qed

lemma announce_admits:
  assumes "wf_server srv" and "registry_ok srv swarms" and "announce_locked srv now remote request swarms = (accepted, swarms')"
  shows "accepted \<longleftrightarrow> dir_admits (ts_limits srv) (dir_expire (ts_ttl srv) now (directory swarms)) (tr_swarm_id request) (tr_peer_id request)"
proof -
  define old where "old = prune_expired (ts_ttl srv) now swarms"
  have old: "registry_ok srv old" unfolding old_def using assms(2) by (rule prune_ok)
  have pos: "0 < unat (max_peers_per_swarm (ts_limits srv))" using assms(1) by (simp add: wf_server_def word_less_nat_alt)
  note run = assms(3) [unfolded announce_locked_alt Let_def old_def [symmetric]]
  note D = directory_prune [OF assms(2)] old_def [symmetric] dir_admits_def dir_peers_registry [OF old] dir_swarms_registry [OF old]
  have card: "card (fst ` set old) = length old" using dir_swarms_registry [OF old] by simp
  show ?thesis
  proof (cases "map_of old (tr_swarm_id request)")
    case None
    then have "tr_swarm_id request \<notin> fst ` set old" by (simp add: map_of_eq_None_iff)
    with run None pos card show ?thesis by (auto simp: D map_of_with_swarm split: if_splits)
  next
    case (Some peers)
    then have "tr_swarm_id request \<in> fst ` set old" by (metis map_of_eq_None_iff option.distinct(1))
    moreover have "card (fst ` set peers) = length peers"
      using dir_peers_registry [OF old, of "tr_swarm_id request"] Some by simp
    ultimately show ?thesis using run Some card by (auto simp: D map_of_with_swarm map_of_eq_None_iff split: if_splits)
  qed
qed

lemma announce_directory:
  assumes "wf_server srv" and "registry_ok srv swarms" and "announce_locked srv now remote request swarms = (accepted, swarms')"
  shows "directory swarms' = (let L = dir_expire (ts_ttl srv) now (directory swarms) in
    if accepted then L((tr_swarm_id request, tr_peer_id request) \<mapsto> request_record request remote now) else L)"
  using announce_registered [OF assms] by (auto simp: directory_def dir_expire_def live_def Let_def)

lemma registered_key: "registry_ok srv swarms \<Longrightarrow> registered swarms s p = Some r \<Longrightarrow> dp_peer_id (pr_peer r) = p"
  by (fastforce simp: registered_def registry_ok_def swarm_ok_def split: option.splits dest!: map_of_SomeD)

lemma live_directory: "live ttl now swarms s p = dir_expire ttl now (directory swarms) (s, p)"
  by (simp add: live_def dir_expire_def directory_def)

lemma peers_answers:
  assumes "wf_server srv" and "registry_ok srv swarms" and order: "\<And>ps. mset (order ps) = mset ps"
    and run: "peers_locked srv order now request swarms = (peers, swarms')"
  shows "dir_answers (ts_limits srv) (dir_expire (ts_ttl srv) now (directory swarms)) (tr_swarm_id request) peers"
proof -
  let ?n = "unat (max_response_peers (ts_limits srv))" and ?s = "tr_swarm_id request"
  define L where "L = dir_expire (ts_ttl srv) now (directory swarms)"
  have ok: "registry_ok srv (prune_expired (ts_ttl srv) now swarms)" using assms(2) by (rule prune_ok)
  have L: "L = directory (prune_expired (ts_ttl srv) now swarms)" unfolding L_def by (rule directory_prune [OF assms(2)])
  note R = peers_locked_result [OF assms(1,2) order run, unfolded live_directory, folded L_def]
  have card: "card (dp_peer_id ` set peers) = length peers"
    using R by (metis distinct_card length_map list.set_map)
  have sub: "dp_peer_id ` set peers \<subseteq> dir_peers L ?s" using R by (auto simp: dir_peers_def)
  have fin: "finite (dir_peers L ?s)" unfolding L dir_peers_registry [OF ok] by (simp split: option.splits)
  have "dir_peers L ?s \<subseteq> dp_peer_id ` set peers" if less: "length peers < ?n"
  proof
    fix p assume "p \<in> dir_peers L ?s"
    then obtain r where r: "L (?s, p) = Some r" by (auto simp: dir_peers_def)
    then have "dp_peer_id (pr_peer r) = p" using registered_key [OF ok] by (simp add: L directory_def)
    with R r less show "p \<in> dp_peer_id ` set peers" by blast
  qed
  with sub have all: "length peers < ?n \<Longrightarrow> dp_peer_id ` set peers = dir_peers L ?s" by blast
  have "length peers = min ?n (card (dir_peers L ?s))"
  proof (cases "length peers < ?n")
    case True
    with all card show ?thesis by simp
  next
    case False
    moreover have "length peers \<le> ?n" using R by blast
    moreover have "length peers \<le> card (dir_peers L ?s)" using card_mono [OF fin sub] by (simp add: card)
    ultimately show ?thesis by simp
  qed
  with R show ?thesis unfolding dir_answers_def L_def [symmetric] by auto
qed

lemma handler_lock_directory:
  assumes "wf_server srv" and "registry_ok srv swarms" and "\<And>ps. mset (order ps) = mset ps"
    and "handler_lock srv order now remote request swarms = (reply, swarms')"
  shows "dir_op srv now remote request (directory swarms) reply (directory swarms')"
proof (cases "tr_kind request")
  case Announce
  with assms(4) obtain accepted where a: "announce_locked srv now remote request swarms = (accepted, swarms')" "reply = Announced accepted"
    by (auto simp: handler_lock_def split: prod.splits)
  show ?thesis
    using announce_admits [OF assms(1,2) a(1)] Announce Admit [OF Announce refl] Reject [OF Announce refl]
    by (cases accepted) (simp_all add: announce_directory [OF assms(1,2) a(1)] a(2) Let_def)
next
  case Peers
  with assms(4) obtain peers where q: "peers_locked srv order now request swarms = (peers, swarms')" "reply = Listed peers"
    by (auto simp: handler_lock_def split: prod.splits)
  have "directory swarms' = dir_expire (ts_ttl srv) now (directory swarms)"
    using directory_prune [OF assms(2)] peers_locked_swarms [OF q(1)] by simp
  with Answer [OF Peers refl peers_answers [OF assms(1-3) q(1)]] q(2) show ?thesis by simp
qed

lemma service_run_reach:
  assumes "service_run srv service_init s"
  shows "tracker_reach srv (sv_swarms s)"
  using service_run_inv [OF assms service_inv_init] serial_reach unfolding service_inv_def by metis

text \<open>
  C12. The running tracker implements the directory (\<^verbatim>\<open>handle_connection\<close>, \<^verbatim>\<open>prune_expired_locked\<close>): in every
  interleaving of its workers, whenever a connection goes through its critical section, that is an operation of the directory,
  with the reply that this connection is going to be sent: an announcement is admitted exactly if there is room among the records that have not expired, a
  query lists only such records, as many as there are and the limit allows, and expired records are gone afterwards. A handler that has its reply goes
  on only by sending exactly this reply. No other step changes the directory.
\<close>

theorem tracker_refines_directory:
  assumes "tracker_server_new p token ttl addr limits = Inr srv" and "service_run srv service_init s" and "service_step srv s s'"
  shows "(\<forall>i<length (sv_handlers s). \<forall>request now remote c.
       sv_handlers s ! i = Locking request now remote c \<and> sv_handlers s' ! i \<noteq> sv_handlers s ! i \<longrightarrow>
       (\<exists>reply. sv_handlers s' ! i = Replying reply c \<and>
          dir_op srv now remote request (directory (sv_swarms s)) reply (directory (sv_swarms s')))) \<and>
    (\<forall>i<length (sv_handlers s). \<forall>reply c.
       sv_handlers s ! i = Replying reply c \<and> sv_handlers s' ! i \<noteq> sv_handlers s ! i \<longrightarrow>
       sv_handlers s' ! i = Handled (handler_reply reply c)) \<and>
    ((\<forall>i<length (sv_handlers s). \<forall>request now remote c. sv_handlers s ! i = Locking request now remote c \<longrightarrow>
        sv_handlers s' ! i = sv_handlers s ! i) \<longrightarrow>
     directory (sv_swarms s') = directory (sv_swarms s))"
proof -
  have wf: "wf_server srv" by (rule tracker_server_new_wf [OF assms(1)])
  have ok: "registry_ok srv (sv_swarms s)" using tracker_reach_ok [OF service_run_reach [OF assms(2)] wf] .
  from assms(3) show ?thesis
  proof cases
    case (Lock i request now remote c order)
    obtain reply swarms' where l: "handler_lock srv order now remote request (sv_swarms s) = (reply, swarms')" by fastforce
    then have s': "sv_handlers s' = (sv_handlers s)[i := Replying reply c]" "sv_swarms s' = swarms'"
      using Lock(1) by (simp_all add: service_lock_def)
    have op: "dir_op srv now remote request (directory (sv_swarms s)) reply (directory swarms')"
      using handler_lock_directory [OF wf ok Lock(4) l] .
    have only: "j = i" if "sv_handlers s' ! j \<noteq> sv_handlers s ! j" for j
      using that s'(1) by (metis nth_list_update_neq)
    have here: "sv_handlers s' ! i = Replying reply c" using s'(1) Lock(2) by simp
    show ?thesis
      using only here op Lock(2,3) by (intro conjI) (metis (no_types, lifting) handler.inject(3) s'(2), metis handler.distinct(15), metis handler.distinct(15))
  qed (auto simp: service_read_def Let_def nth_append nth_list_update split: if_splits)
qed

section \<open>An announcement from end to end\<close>

text \<open>
  C18. Announcing works end to end (\<^verbatim>\<open>TrackerClient::announce\<close> against \<^verbatim>\<open>handle_connection\<close>): the client connects and announces with the
  server's token; what it sends is what the server receives and what the server sends is what the client receives, in
  any segmentation. If there is room for the peer among the records that have not expired, the client returns and the registry holds
  exactly what was announced, under the address the connection came from, with the current time; if there is none the
  client throws, saying so, and the registry holds only what it held before.
\<close>

theorem tracker_announce_end_to_end:
  assumes "tracker_server_new p token ttl addr limits = Inr srv" and "tracker_reach srv swarms"
    and atoms: "safe_atom token" "safe_atom (ad_swarm_id ad)" "safe_atom (ad_peer_id ad)" and "ad_listen_port ad \<noteq> 0"
    and chunks: "encode_chunk_list (ad_chunks ad) (ad_has_all_chunks ad) = Inr chunks"
    and len: "length (announce_header token ad chunks) \<le> kMaxHeaderBytes"
    and client: "tc_token client = token" "connect_tcp net (tc_endpoint client) (tc_timeout client) t = (Inr cc, t')"
      "0 \<le> native_handle cc" "\<And>m. Send_failed m \<notin> set (sending cc)"
    and run: "client_announce client ad net t = (r, Some cc', t'')"
    and sc: "0 \<le> native_handle sc" "\<And>m. Send_failed m \<notin> set (sending sc)"
    and served: "handle_connection srv order now remote sc swarms = (sc', swarms')"
    and linked: "exchange cc cc' sc sc'"
  shows "if dir_admits limits (dir_expire ttl now (directory swarms)) (ad_swarm_id ad) (ad_peer_id ad)
    then r = Inr () \<and> registered swarms' (ad_swarm_id ad) (ad_peer_id ad) =
      Some \<lparr>pr_peer = \<lparr>dp_peer_id = ad_peer_id ad, dp_endpoint = \<lparr>host = host remote, port = ad_listen_port ad\<rparr>,
              dp_chunks = (if ad_has_all_chunks ad then [] else ad_chunks ad), dp_has_all_chunks = ad_has_all_chunks ad\<rparr>,
            last_seen = now\<rparr>
    else r = throw ''Tracker rejected request: ERROR capacity'' \<and> (\<forall>s q. registered swarms' s q = live ttl now swarms s q)"
proof -
  have srv: "ts_token srv = token" "ts_ttl srv = ttl" "ts_limits srv = limits" "wf_server srv"
    using assms(1) tracker_server_new_wf [OF assms(1)] by (auto simp: tracker_server_new_def split: if_splits)
  have ok: "registry_ok srv swarms" using tracker_reach_ok [OF assms(2) srv(4)] .
  obtain request0 where "parse_tracker_request (announce_header (tc_token client) ad chunks) = Inr request0"
    using announce_parses [OF atoms assms(6) chunks len] client(1) by blast
  from client_announce_sends [OF chunks this client(2,4)] run client(1) obtain es where
    es: "sent cc' = announce_header token ad chunks @ [nl]" "expect_ok (cc\<lparr>sending := es, sent := sent cc'\<rparr>) = (r, cc')" by auto
  let ?c = "cc\<lparr>sending := es, sent := sent cc'\<rparr>"
  have link: "pending (incoming sc) = announce_header token ad chunks @ [nl]" "sent sc = []" "pending (incoming ?c) = sent sc'"
    using linked es(1) by (simp_all add: exchange_def)
  obtain request accepted where req: "tr_swarm_id request = ad_swarm_id ad" "tr_peer_id request = ad_peer_id ad"
    "request_record request remote now =
      \<lparr>pr_peer = \<lparr>dp_peer_id = ad_peer_id ad, dp_endpoint = \<lparr>host = host remote, port = ad_listen_port ad\<rparr>,
         dp_chunks = (if ad_has_all_chunks ad then [] else ad_chunks ad), dp_has_all_chunks = ad_has_all_chunks ad\<rparr>,
       last_seen = now\<rparr>"
    "announce_locked srv now remote request swarms = (accepted, swarms')"
    "r = (if accepted then Inr () else throw ''Tracker rejected request: ERROR capacity'')"
    using announce_answered [of srv ad chunks sc order now remote swarms sc' swarms' ?c] atoms assms(6) chunks len link sc served client(3) es(2)
    unfolding srv(1) by auto
  have "accepted \<longleftrightarrow> dir_admits limits (dir_expire ttl now (directory swarms)) (ad_swarm_id ad) (ad_peer_id ad)"
    using announce_admits [OF srv(4) ok req(4)] by (simp add: srv req(1,2))
  moreover note announce_registered [OF srv(4) ok req(4)]
  ultimately show ?thesis using req(1,2,3,5) srv(2) by auto
qed

section \<open>No handler waits for another\<close>

lemma reply_finishes:
  assumes "i < length (sv_handlers s)" and "sv_handlers s ! i = Replying reply c"
  shows "service_run srv s (s\<lparr>sv_handlers := (sv_handlers s)[i := Handled (handler_reply reply c)]\<rparr>)"
  using service_step.Reply [OF assms] by blast

lemma lock_finishes:
  assumes "i < length (sv_handlers s)" and "sv_handlers s ! i = Locking request now remote c"
  shows "\<exists>s' c'. service_run srv s s' \<and> sv_handlers s' = (sv_handlers s)[i := Handled c'] \<and> sv_jobs s' = sv_jobs s"
proof -
  let ?s = "service_lock srv id i request now remote c s"
  obtain reply swarms where l: "handler_lock srv id now remote request (sv_swarms s) = (reply, swarms)" by fastforce
  then have s: "sv_handlers ?s = (sv_handlers s)[i := Replying reply c]" "sv_jobs ?s = sv_jobs s"
    by (simp_all add: service_lock_def)
  have "service_step srv s ?s" using assms by (intro service_step.Lock) simp_all
  moreover have "service_run srv ?s (?s\<lparr>sv_handlers := (sv_handlers ?s)[i := Handled (handler_reply reply c)]\<rparr>)"
    using assms s by (intro reply_finishes) simp_all
  ultimately show ?thesis using s by (intro exI conjI) (erule (1) converse_rtranclp_into_rtranclp, simp_all)
qed

lemma timing_finishes:
  assumes "i < length (sv_handlers s)" and "sv_handlers s ! i = Timing request remote c"
  shows "\<exists>s' c'. service_run srv s s' \<and> sv_handlers s' = (sv_handlers s)[i := Handled c'] \<and> sv_jobs s' = sv_jobs s"
proof -
  let ?s = "s\<lparr>sv_handlers := (sv_handlers s)[i := Locking request (sv_clock s) remote c]\<rparr>"
  have "service_step srv s ?s" using assms by (rule service_step.Clock)
  moreover obtain s' c' where "service_run srv ?s s'" "sv_handlers s' = (sv_handlers ?s)[i := Handled c']" "sv_jobs s' = sv_jobs s"
    using lock_finishes [of i ?s request "sv_clock s" remote c srv] assms by auto
  ultimately show ?thesis by (intro exI conjI) (erule (1) converse_rtranclp_into_rtranclp, simp_all)
qed

lemma reading_finishes:
  assumes "i < length (sv_handlers s)" and "sv_handlers s ! i = Reading remote c"
  shows "\<exists>s' c'. service_run srv s s' \<and> sv_handlers s' = (sv_handlers s)[i := Handled c'] \<and> sv_jobs s' = sv_jobs s"
proof -
  let ?s = "service_read srv i remote c s"
  have s: "sv_handlers ?s = (sv_handlers s)[i := handler_read srv remote c]" "sv_jobs ?s = sv_jobs s"
    by (simp_all add: service_read_def Let_def)
  have step: "service_step srv s ?s" using assms by (rule service_step.Read)
  have "\<exists>s' c'. service_run srv ?s s' \<and> sv_handlers s' = (sv_handlers ?s)[i := Handled c'] \<and> sv_jobs s' = sv_jobs ?s"
  proof (cases "handler_read srv remote c")
    case (Timing request r c1)
    with assms s show ?thesis by (intro timing_finishes) simp_all
  next
    case (Replying reply c1)
    then have "service_run srv ?s (?s\<lparr>sv_handlers := (sv_handlers ?s)[i := Handled (handler_reply reply c1)]\<rparr>)"
      using assms s by (intro reply_finishes) simp_all
    then show ?thesis by (intro exI conjI) (assumption, simp_all)
  next
    case (Handled c1)
    with s assms show ?thesis by (intro exI [of _ ?s] exI [of _ c1]) simp
  qed (use handler_read_stages [where srv = srv and remote = remote and c = c, OF refl] in simp_all)
  then obtain s' c' where "service_run srv ?s s'" "sv_handlers s' = (sv_handlers s)[i := Handled c']" "sv_jobs s' = sv_jobs s"
    using s by auto
  with converse_rtranclp_into_rtranclp [OF step this(1)] show ?thesis by blast
qed

text \<open>
  No connection is left without an answer because of another (\<^verbatim>\<open>handle_connection\<close>): from every state its own steps
  alone take a handler to its end, with all other handlers where they were, so no worker can block another for good.
\<close>

theorem tracker_handler_finishes:
  assumes "i < length (sv_handlers s)"
  shows "\<exists>s' c. service_run srv s s' \<and> sv_handlers s' = (sv_handlers s)[i := Handled c] \<and> sv_jobs s' = sv_jobs s"
proof (cases "sv_handlers s ! i")
  case (Replying reply c)
  with reply_finishes [OF assms this] show ?thesis by (intro exI conjI) (assumption, simp_all)
next
  case (Handled c)
  with assms show ?thesis by (metis list_update_id rtranclp.rtrancl_refl)
qed (use assms reading_finishes timing_finishes lock_finishes in blast)+

section \<open>A concrete service\<close>

definition sample_arrived :: service where
  "sample_arrived = service_init\<lparr>sv_handlers := [Reading sample_remote (sample_request_conn ''PEERS tok s'')],
     sv_jobs := [(sample_remote, sample_request_conn ''PEERS tok s'')]\<rparr>"

lemma sample_arrives: "service_step sample_server service_init sample_arrived"
  using service_step.Arrive [of sample_server service_init sample_remote "sample_request_conn ''PEERS tok s''"]
  by (simp add: service_init_def sample_arrived_def)

theorem tracker_handler_finishes_witness:
  "\<exists>s' c. service_run sample_server sample_arrived s' \<and> sv_handlers s' = [Handled c]"
  using tracker_handler_finishes [of 0 sample_arrived sample_server] by (auto simp: sample_arrived_def)

theorem tracker_linearizable_witness:
  "\<exists>s c. service_run sample_server service_init s \<and> sv_handlers s = [Handled c] \<and>
     snd (serial sample_server (sv_jobs s) (sv_log s)) 0 = Some c"
proof -
  obtain s c where s: "service_run sample_server sample_arrived s" "sv_handlers s = [Handled c]"
    using reading_finishes [of 0 sample_arrived sample_remote _ sample_server] by (auto simp: sample_arrived_def)
  have "service_run sample_server service_init sample_arrived" using sample_arrives by blast
  with tracker_linearizable [OF this s(1)] s show ?thesis by (intro exI [of _ s] exI [of _ c]) auto
qed

lemma sample_query_read:
  "\<exists>request c. handler_read sample_server sample_remote (sample_request_conn ''PEERS tok s'') = Timing request sample_remote c \<and>
     tr_kind request = Peers"
proof -
  have "\<exists>es. read_line kMaxHeaderBytes (sample_request_conn ''PEERS tok s'') =
      (Inr ''PEERS tok s'', (sample_request_conn ''PEERS tok s'')\<lparr>incoming := es\<rparr>) \<and> pending es = []"
    by (rule read_line_delivered) (simp_all add: sample_request_conn_facts printable_def kMaxHeaderBytes_def)
  moreover have "\<exists>r. parse_tracker_request ''PEERS tok s'' = Inr r \<and> tr_token r = ''tok'' \<and> tr_kind r = Peers"
    using parse_peers [of "''tok''" "''s''"] by simp
  moreover have "secure_token_equal ''tok'' ''tok''" by (simp add: secure_token_equal_iff)
  ultimately show ?thesis by (auto simp: handler_read_def io_bind_def io_lift_def sample_server_def)
qed

lemma sample_announce_read:
  "\<exists>request c. handler_read sample_server sample_remote (sample_request_conn ''ANNOUNCE tok s p 7001 0,2'') = Timing request sample_remote c \<and>
     snd (handler_lock sample_server id 5 sample_remote request []) = sample_swarms"
proof -
  let ?c = "sample_request_conn ''ANNOUNCE tok s p 7001 0,2''"
  obtain c' where run: "handle_connection sample_server id 5 sample_remote ?c [] = (c', sample_swarms)" using sample_announced [of id] by blast
  note stages = handler_read_stages [where srv = sample_server and remote = sample_remote and c = ?c, OF refl]
  show ?thesis
  proof (cases "handler_read sample_server sample_remote ?c")
    case (Timing request r c1)
    with stages run show ?thesis by (auto split: prod.splits)
  qed (use stages run in \<open>auto simp: sample_swarms_def\<close>)
qed

text \<open>A connection arrives and comes to its critical section.\<close>

lemma service_arrives:
  assumes "handler_read srv remote c = Timing request remote c1"
  shows "\<exists>s'. service_run srv s s' \<and> sv_handlers s' = sv_handlers s @ [Locking request (sv_clock s) remote c1] \<and>
    sv_swarms s' = sv_swarms s \<and> sv_clock s' = sv_clock s"
proof -
  define s1 where "s1 = s\<lparr>sv_handlers := sv_handlers s @ [Reading remote c], sv_jobs := sv_jobs s @ [(remote, c)]\<rparr>"
  define s2 where "s2 = service_read srv (length (sv_handlers s)) remote c s1"
  define s3 where "s3 = s2\<lparr>sv_handlers := sv_handlers s @ [Locking request (sv_clock s) remote c1]\<rparr>"
  have 1: "service_step srv s s1" unfolding s1_def by (rule service_step.Arrive)
  have 2: "service_step srv s1 s2" unfolding s2_def by (rule service_step.Read) (simp_all add: s1_def)
  have h2: "sv_handlers s2 = sv_handlers s @ [Timing request remote c1]" "sv_clock s2 = sv_clock s" "sv_swarms s2 = sv_swarms s"
    using assms by (simp_all add: s2_def s1_def service_read_def)
  have "service_step srv s2 s3"
    using service_step.Clock [of "length (sv_handlers s)" s2 request remote c1 srv] h2 by (simp add: s3_def)
  with 1 2 have "service_run srv s s3" by (meson rtranclp.rtrancl_into_rtrancl rtranclp.rtrancl_refl)
  then show ?thesis by (rule exI [of _ s3, OF conjI]) (simp add: s3_def h2)
qed

text \<open>A peer is announced at time 5; a query is about to be answered when its record has just expired.\<close>

lemma sample_expiring:
  "\<exists>s request c. service_run sample_server service_init s \<and> sv_swarms s = sample_swarms \<and>
     length (sv_handlers s) = 2 \<and> sv_handlers s ! 1 = Locking request 30000000005 sample_remote c \<and> tr_kind request = Peers"
proof -
  obtain request c where a: "handler_read sample_server sample_remote (sample_request_conn ''ANNOUNCE tok s p 7001 0,2'') = Timing request sample_remote c"
    "snd (handler_lock sample_server id 5 sample_remote request []) = sample_swarms" using sample_announce_read by blast
  obtain query d where q: "handler_read sample_server sample_remote (sample_request_conn ''PEERS tok s'') = Timing query sample_remote d" "tr_kind query = Peers"
    using sample_query_read by blast
  define s0 where "s0 = service_init\<lparr>sv_clock := 5\<rparr>"
  have "service_step sample_server service_init s0"
    using service_step.Pass [of 5 sample_server service_init] by (simp add: s0_def service_init_def)
  moreover obtain s1 where s1: "service_run sample_server s0 s1" "sv_handlers s1 = [Locking request 5 sample_remote c]" "sv_swarms s1 = []" "sv_clock s1 = 5"
    using service_arrives [OF a(1), of s0] by (auto simp: s0_def service_init_def)
  moreover define s2 where "s2 = service_lock sample_server id 0 request 5 sample_remote c s1"
  have "service_step sample_server s1 s2" unfolding s2_def by (rule service_step.Lock) (simp_all add: s1)
  moreover have s2: "sv_swarms s2 = sample_swarms" "length (sv_handlers s2) = 1" "sv_clock s2 = 5"
    using a(2) s1 by (auto simp: s2_def service_lock_def split: prod.splits)
  moreover define s3 where "s3 = s2\<lparr>sv_clock := 30000000005\<rparr>"
  have "service_step sample_server s2 s3"
    using service_step.Pass [of 30000000000 sample_server s2] by (simp add: s3_def s2)
  moreover obtain s where s: "service_run sample_server s3 s" "sv_handlers s = sv_handlers s3 @ [Locking query (sv_clock s3) sample_remote d]"
    "sv_swarms s = sv_swarms s3" using service_arrives [OF q(1)] by blast
  ultimately have "service_run sample_server service_init s" by (meson converse_rtranclp_into_rtranclp rtranclp_trans)
  with s s2 q(2) show ?thesis by (intro exI [of _ s] exI [of _ query] exI [of _ d]) (simp add: s3_def nth_append)
qed

theorem tracker_refines_directory_witness:
  "\<exists>s s' c. service_run sample_server service_init s \<and> service_step sample_server s s' \<and>
     directory (sv_swarms s) (''s'', ''p'') = Some (sample_record 5) \<and>
     sv_handlers s' ! 1 = Replying (Listed []) c \<and> directory (sv_swarms s') = Map.empty"
proof -
  let ?now = 30000000005
  obtain s request c where s: "service_run sample_server service_init s" "sv_swarms s = sample_swarms"
     "length (sv_handlers s) = 2" "sv_handlers s ! 1 = Locking request ?now sample_remote c" "tr_kind request = Peers" using sample_expiring by blast
  define s' where "s' = service_lock sample_server id 1 request ?now sample_remote c s"
  have step: "service_step sample_server s s'" unfolding s'_def by (rule service_step.Lock) (use s(3,4) in simp_all)
  have "sv_handlers s' ! 1 \<noteq> sv_handlers s ! 1" using s by (simp add: s'_def service_lock_def split: prod.splits)
  with tracker_refines_directory [OF sample_server_new s(1) step] s(3,4) obtain reply where
    reply: "sv_handlers s' ! 1 = Replying reply c"
      "dir_op sample_server ?now sample_remote request (directory sample_swarms) reply (directory (sv_swarms s'))"
    unfolding s(2) by (metis one_less_numeral_iff semiring_norm(76))
  have D: "directory sample_swarms (''s'', ''p'') = Some (sample_record 5)"
    and L: "dir_expire (ts_ttl sample_server) ?now (directory sample_swarms) = Map.empty"
    by (auto simp: directory_def registered_def sample_swarms_def dir_expire_def expired_def sample_record_def sample_server_def
        fun_eq_iff split: option.splits)
  from reply(2) have "reply = Listed [] \<and> directory (sv_swarms s') = Map.empty"
    using s(5) by cases (simp_all add: L dir_answers_def dir_peers_def)
  with reply(1) s(1,2) step D show ?thesis by metis
qed

theorem tracker_announce_end_to_end_witness:
  "\<exists>b cc' t'. client_announce sample_client sample_ad (\<lambda>_. Inr [sample_link b]) sample_fds = (Inr (), Some cc', t') \<and>
     b = sent (fst (handle_connection sample_server id 5 sample_remote (sample_request_conn ''ANNOUNCE tok s p 7001 0,2'') []))"
proof -
  let ?sc = "sample_request_conn ''ANNOUNCE tok s p 7001 0,2''"
  obtain sc' where served: "handle_connection sample_server id 5 sample_remote ?sc [] = (sc', sample_swarms)"
    using sample_announced by blast
  let ?net = "\<lambda>_ :: endpoint. Inr [sample_link (sent sc')]" and ?cc = "link_conn (sent sc')"
  have client: "tc_token sample_client = ''tok''" "tc_endpoint sample_client = sample_endpoint" "tc_timeout sample_client = 3000"
    by (simp_all add: sample_client_def)
  have conn: "connect_tcp ?net (tc_endpoint sample_client) (tc_timeout sample_client) sample_fds = (Inr ?cc, open_fd 5 sample_fds)"
    using sample_connect [of sample_endpoint ?net "sent sc'" sample_fds] by (simp add: client sample_endpoint_def)
  have ad: "safe_atom ''tok''" "safe_atom (ad_swarm_id sample_ad)" "safe_atom (ad_peer_id sample_ad)" "ad_listen_port sample_ad \<noteq> 0"
    "length (announce_header ''tok'' sample_ad ''0,2'') \<le> kMaxHeaderBytes"
    by (simp_all add: sample_header kMaxHeaderBytes_def) (simp_all add: sample_ad_def)
  obtain request where "parse_tracker_request (announce_header (tc_token sample_client) sample_ad ''0,2'') = Inr request"
    using announce_parses [OF ad(1-4) sample_encoded ad(5)] client(1) by auto
  from client_announce_sends [OF sample_encoded this conn link_conn_facts(3)]
  obtain r cc' where run: "client_announce sample_client sample_ad ?net sample_fds =
      (r, Some cc', socket_destroy (native_handle ?cc) (open_fd 5 sample_fds))" "sent cc' = announce_header ''tok'' sample_ad ''0,2'' @ [nl]"
    by (auto simp: client)
  have linked: "exchange ?cc cc' ?sc sc'"
    by (simp add: exchange_def link_conn_facts sample_request_conn_facts run(2) sample_header)
  have "dir_admits sample_limits (dir_expire 30 5 (directory [])) (ad_swarm_id sample_ad) (ad_peer_id sample_ad)"
    by (simp add: dir_admits_def dir_expire_def directory_def registered_def dir_peers_def dir_swarms_def sample_limits_def)
  with tracker_announce_end_to_end [OF sample_server_new tracker_reach.Tracker_init ad(1-4) sample_encoded ad(5) client(1) conn
      link_conn_facts(2,3) run(1) sample_request_conn_facts(2,3) served linked]
  have "r = Inr ()" by simp
  with run(1) served show ?thesis by (intro exI [of _ "sent sc'"] exI [of _ cc']) auto
qed

end
