(* ===== verification/Spec2Isabelle.thy ===== *)
theory Spec2Isabelle
  imports Programs Sharing Tracker_Service
begin

text \<open>
  SwarmSync is a peer-to-peer file distribution program in C++ (\<^verbatim>\<open>src/src\<close>, \<^verbatim>\<open>src/include/swarmsync\<close>,
  \<^verbatim>\<open>src/apps\<close>). A manifest describes a file: its size, its SHA-256, and the SHA-256 of each chunk. A tracker keeps, for each
  swarm (the digest of a manifest), the peers that announced themselves and the chunks they have. A peer server
  answers authorised requests for chunks. A downloader asks the tracker for peers, fetches and verifies the
  chunks with several worker threads, writes them into a partial file, keeps a resume file so that an interrupted download can go
  on, serves what it already has to others, and in the end verifies the whole file and renames it. Two programs, \<^verbatim>\<open>swarmsync\<close> and
  \<^verbatim>\<open>swarmsync-tracker\<close>, read the options and call these parts.

  \<^bold>\<open>The model.\<close> A \<^verbatim>\<open>struct\<close> is a record with the fields of the source, an exception is a value of the sum type \<open>result\<close>, \<^verbatim>\<open>uint16_t\<close>,
  \<^verbatim>\<open>uint32_t\<close> and \<^verbatim>\<open>uint64_t\<close> are words of that width, and byte strings are lists of characters. A loop is a recursive
  function; those that read a connection or a file recur on the script of the system calls or on the data that is left, so
  that they are total and no fuel is needed. What the operating system answers is an argument: the file system is a map
  from paths to files with faults and with the positions of the bytes that were not yet synced, each system call of a write has its answer in a record, a connection is a script of \<^verbatim>\<open>recv\<close> and
  \<^verbatim>\<open>send\<close> events, \<^verbatim>\<open>getaddrinfo\<close> gives a list of scripted attempts, and the open descriptors are a table. OpenSSL is
  a record of functions; what is used of it is that it computes some function \<open>H\<close> of the bytes that were
  fed to it into 32 bytes (\<open>evp_computes\<close>). Nothing is assumed about the answers of the network or of the tracker and the peers on
  it, but where a theorem is about what a helpful swarm brings about. Operations that write
  files return every state of the file system they pass through, which is what a crash of the process can leave behind; a failure of
  the power can moreover lose the unsynced bytes of such a state.
  Threads are step relations whose steps are the atomic operations and critical sections of the source, so that
  every interleaving is a run.

  \<^bold>\<open>The theories.\<close>
  \<^item> \<open>Swarm_Prelude\<close>: results, words, decimal numbers, streams, the file system, and the interfaces that several components share:
    a parser of unsigned numbers (\<open>unsigned_parser\<close>) and a reader of text records (\<open>record_reader\<close>), each interpreted on every copy in the source.
  \<^item> \<open>Crypto\<close> (\<^verbatim>\<open>crypto.cpp\<close>): hexadecimal text, digests of strings and files, comparison of tokens.
  \<^item> \<open>Manifest\<close> (\<^verbatim>\<open>manifest.cpp\<close>): making a manifest from a file, its text format, its checks, and the places and sizes of chunks.
  \<^item> \<open>Protocol\<close>, \<open>Wire\<close>, \<open>Sockets\<close> (\<^verbatim>\<open>protocol.cpp\<close>): the header grammar (\<open>field_splitter\<close> is its interface, also met by the tracker's
    response parser), reading and writing on a connection, and connecting, listening and accepting with the descriptor
    table (\<open>descriptor_source\<close>: what a scope that acquires a descriptor must give back).
  \<^item> \<open>Resume_Store\<close> (\<^verbatim>\<open>resume_store.cpp\<close>): the store of completed chunks as a set (\<open>chunk_ledger\<close>), its text, the atomic write
    of a file, and flushing while other threads mark chunks.
  \<^item> \<open>Tracker\<close> (\<^verbatim>\<open>tracker.cpp\<close>): the client, the registry with its limits and expiry, and the handling of a connection as a whole;
    \<open>Tracker_Service\<close>: the same handler in stages, run by many workers over one registry, and the abstract directory it implements.
  \<^item> \<open>Connection_Pool\<close>: the accepting thread, the queue and the worker threads of both servers, as one step relation.
  \<^item> \<open>Peer_Server\<close> (\<^verbatim>\<open>peer_server.cpp\<close>) and \<open>Server_Start\<close> (\<^verbatim>\<open>start\<close>, \<^verbatim>\<open>stop\<close> and \<^verbatim>\<open>endpoint\<close> of both servers).
  \<^item> \<open>Download\<close> (the functions of \<^verbatim>\<open>download.cpp\<close>): fetching with retries, revalidation, and the verified write of a chunk.
  \<^item> \<open>Coordinator\<close> (\<^verbatim>\<open>DownloadCoordinator\<close>): preparation, the worker threads, completion, the error path, and the whole run;
    \<open>Heartbeat\<close> is its heartbeat thread.
  \<^item> \<open>Delivery\<close>: what a completed download has delivered; \<open>Sharing\<close>: what a downloader gives to others while it runs, and what happens in a
    swarm that helps it.
  \<^item> \<open>Logging\<close> (\<^verbatim>\<open>common.cpp\<close>): time stamps, log lines and the error stream.
  \<^item> \<open>Cli\<close> (\<^verbatim>\<open>apps\<close>): the options and commands of both programs; \<open>Programs\<close>: their \<^verbatim>\<open>main\<close> functions with what they print and their
    exit codes. This theory adds the download program as a whole.

  \<^bold>\<open>What is shown.\<close> For a download: nothing but the old contents or a file with the manifest's digest ever appears under the final
  name; bytes that are accepted from a peer have the size and digest of the manifest; in every interleaving of the
  workers the chunks the store has are in the partial file and no two workers hold the same chunk; a crash in any
  state of the file system loses no chunk that the resume file claims, and a restart begins with exactly
  these; the bytes of a chunk are synced before the resume file claims it; the threads finish, within seven steps for each chunk and ten for each worker; when the manifest was made from a file and no
  chunk has a collision, a run without failures delivers exactly that file; where some listed peer delivers each chunk and the disk
  works, no run fails and every run ends with all chunks; and a chunk that was advertised is served from then on. For the resume store: it is a set of
  indexes, its text reads back, the write is atomic, and a clean store is what is on disk. For the servers: a peer sends only verified chunks and
  only to authorised requests; a request without the token neither reads nor changes the registry, the registry stays within its
  limits, the concurrent workers act on it as if they handled the connections one after the other, it implements a
  directory of live peers, and client and server understand each other: what the client's function sends is what the server's handler
  reads, and the reverse, however the two streams are segmented; the number of
  connections in flight is bounded. The pool of both servers has the condition variable with its sleeping
  threads and notifications, the mutex around its test, and the listener that \<^verbatim>\<open>accept\<close> blocks on until it is shut down; a blocked
  thread has no step, no wake-up is lost while the server runs, and when \<^verbatim>\<open>stop\<close> was called some thread can always go on until all
  have ended. For the sockets: no descriptor leaks, but for an exact condition under which
  one is closed twice. For the text formats: exact acceptance and round trips. For the programs: exactly the documented option
  syntax is accepted, ports are not truncated, a created manifest can be seeded, seeding and the tracker give back their descriptors, the
  exit code tells success from failure, a download that exits with zero has printed the path of a verified file, and the log is whole lines that
  read back.

  Three theorems state faults of the code: \<open>announce_chunk_limit\<close> (a partial peer with more than 4096 chunks cannot
  announce, and so cannot resume), \<open>connect_tcp_double_close\<close>, and \<open>scoped_address_blocks_discovery\<close> (one peer with a scoped IPv6 address
  hides a swarm). The worker theorems need that chunks and workers together are fewer than \<open>2 ^ 32\<close>, because the shared
  index is a 32-bit counter; a manifest has at most a million chunks.

  \<^bold>\<open>Not modelled.\<close> Elapsed time, which is printed as any number, and sleeping; the signal
  handlers, of which only the end of the waiting loops is seen; the conversion of the clock to calendar time;
  \<^verbatim>\<open>suppress_sigpipe\<close>, which is empty on the platforms with \<^verbatim>\<open>MSG_NOSIGNAL\<close>; running out of memory or threads; the Windows branches;
  hard and symbolic links; whether a rename has reached the device when the power fails, so that the old file may be there
  again; other processes that change the same files. Clocks and lifetimes are unbounded integers (a lifetime comes from a 32-bit number
  of seconds), a handler of a connection is taken to return, which the timeouts of its socket bring about, and the descriptors that
  server threads accept are counted by the pool and not in the descriptor table of a command. The peer server of a downloader reads the partial file
  while workers write it: each request sees one state of the file, and since it hashes what it read, a torn read is
  answered with an error.
\<close>

section \<open>The download command\<close>

lemma download_options_Inr:
  assumes "download_options env opts f = Inr config"
  shows "\<exists>manifest_path. map_of (op_values opts) ''--manifest'' = Some manifest_path \<and> manifest_load f manifest_path = Inr (dc_manifest config) \<and>
    map_of (op_values opts) ''--out-dir'' = Some (dc_output_directory config) \<and>
    option_number (option_optional (op_values opts) ''--workers'' ''4'') ''--workers'' = Inr (dc_worker_count config)"
  using assms by (auto simp: download_options_def result_simps option_require_Inr Let_def)

lemma download_command_final:
  assumes evp: "evp_computes evp H"
    and run: "download_command evp env run_env opts f (Inr res) states"
    and args: "map_of (op_values opts) ''--manifest'' = Some manifest_path" "manifest_load f manifest_path = Inr m"
      "map_of (op_values opts) ''--out-dir'' = Some dir"
    and swarm: "manifest_swarm_id evp m = Inr swarm_id"
    and name: "file_name m \<notin> {swarm_id @ ''.resume'', swarm_id @ ''.resume.tmp''}"
    and small: "\<forall>w. option_number (option_optional (op_values opts) ''--workers'' ''4'') ''--workers'' = Inr w \<longrightarrow>
      length (chunk_hashes m) + unat w < 2 ^ 32"
    and plain: "\<forall>p. plain f p"
  shows "dr_final_path res = path_append dir (file_name m) \<and>
    (\<exists>d. nodes (last states) (path_append dir (file_name m)) = Some (Regular d) \<and> hex_encode (H d) = file_sha256 m)"
  using run
proof (cases rule: download_command.cases)
  case (Runs config)
  then have new: "download_options env opts f = Inr config" "validate_config config = Inr ()"
    by (auto simp: result_simps coordinator_new_def)
  note C = download_options_Inr [OF new(1)]
  have m: "dc_manifest config = m" "dc_output_directory config = dir" using C args by auto
  then have path: "final_path config = path_append dir (file_name m)" by (simp add: final_path_def)
  have "dr_final_path res = final_path config \<and> final_ok config H (last states)"
    using download_run_final [OF new(2) evp _ _ _ _ _ _ Runs(2)] swarm name small plain C m by blast
  then show ?thesis by (simp add: path final_ok_def m)
qed

text \<open>
  C9. When \<^verbatim>\<open>swarmsync download\<close> exits with zero, the file is there and verified (\<^verbatim>\<open>main\<close> and \<^verbatim>\<open>download\<close> of
  \<^verbatim>\<open>apps/swarmsync_main.cpp\<close>, with all that they call): the program prints, in quotation marks, the path of the file named by
  the manifest given with \<^verbatim>\<open>--manifest\<close> in the directory given with \<^verbatim>\<open>--out-dir\<close>, and when it exits that file is there and hashes to the
  manifest's digest, whatever the tracker, the peers and the system calls did.
\<close>

theorem download_program_verified:
  assumes evp: "evp_computes evp H"
    and run: "swarmsync_program evp env mc args f p states" and command: "swarmsync_main args = Inr (Download opts)" and code: "pe_code p = 0"
    and args: "map_of (op_values opts) ''--manifest'' = Some manifest_path" "manifest_load f manifest_path = Inr m"
      "map_of (op_values opts) ''--out-dir'' = Some dir"
    and swarm: "manifest_swarm_id evp m = Inr swarm_id"
    and name: "file_name m \<notin> {swarm_id @ ''.resume'', swarm_id @ ''.resume.tmp''}"
    and small: "\<forall>w. option_number (option_optional (op_values opts) ''--workers'' ''4'') ''--workers'' = Inr w \<longrightarrow>
      length (chunk_hashes m) + unat w < 2 ^ 32"
    and plain: "\<forall>p. plain f p"
  shows "\<exists>rest d. pe_out p = ''Verified download completed: '' @ quoted (path_append dir (file_name m)) @ [nl] @ rest \<and>
    nodes (last states) (path_append dir (file_name m)) = Some (Regular d) \<and> hex_encode (H d) = file_sha256 m"
  using run
proof (cases rule: swarmsync_program.cases)
  case (Downloads options result elapsed logged)
  then have "options = opts" using command by simp
  with download_command_final [OF evp _ args swarm name small plain] Downloads(3)
  have "dr_final_path result = path_append dir (file_name m)"
    "\<exists>d. nodes (last states) (path_append dir (file_name m)) = Some (Regular d) \<and> hex_encode (H d) = file_sha256 m" by blast+
  then show ?thesis by (simp add: Downloads(1) program_ends_def download_text_def)
qed (use command code in \<open>simp_all add: program_ends_code\<close>)

definition sample_get :: options where
  "sample_get = \<lparr>op_values = [(''--manifest'', ''m''), (''--out-dir'', ''d''), (''--tracker-host'', ''127.0.0.1''),
     (''--tracker-port'', ''7000''), (''--listen-port'', ''0''), (''--peer-id'', ''me''), (''--token'', ''tok''), (''--workers'', ''1''),
     (''--retries'', ''2'')], op_help = False\<rparr>"

definition sample_disk :: fs where
  "sample_disk = write_node sample_finished ''m'' (manifest_text sample_seed)"

lemma sample_disk_facts:
  "nodes sample_disk ''m'' = Some (Regular (manifest_text sample_seed))"
  "nodes sample_disk (final_path sample_download) = Some (Regular ''abcdefgh'')" "nodes sample_disk ''d'' = Some Directory"
  using sample_paths_long(1) sample_made_dir(2) [OF sample_paths_long(1)]
  by (auto simp: sample_disk_def sample_finished_def node_simps)

lemma sample_disk_plain: "plain sample_disk p"
proof -
  have "length (manifest_text sample_seed) < 2 ^ 64"
    by (simp add: manifest_text_def sample_seed_def chunk_line_def dec.simps sample_digest_def upt_rec)
  then show ?thesis
    using make_directories_frame [OF sample_made]
    by (auto simp: plain_def sample_disk_def sample_finished_def node_simps empty_fs_def sample_made_def create_directories_def)
qed

lemma sample_get_options: "download_options sample_cli sample_get sample_disk = Inr sample_download"
proof -
  have load: "manifest_load sample_disk ''m'' = Inr sample_seed"
    using sample_disk_facts(1) sample_disk_plain [of "''m''"] sample_seed_valid
    by (simp add: manifest_load_def open_in_def plain_def manifest_parse_text)
  have numbers: "option_number ''7000'' x = Inr 7000" "option_number ''0'' x = Inr 0" "option_number ''1'' x = Inr 1"
    "option_number ''2'' x = Inr 2" "option_number ''1000'' x = Inr 1000" for x
    by (simp_all add: cp.parse_Inr is_digit_def dec_value_def digit_value_def)
  show ?thesis
    by (simp add: download_options_def sample_get_def sample_cli_def download_allowed_def allow_only_def option_require_def load
        option_port_def option_listen_port_def numbers option_token_def option_optional_def sample_download_def sample_endpoint_def)
qed

definition sample_args :: "string list" where
  "sample_args = [''download'', ''--manifest'', ''m'', ''--out-dir'', ''d'', ''--tracker-host'', ''127.0.0.1'', ''--tracker-port'', ''7000'',
     ''--listen-port'', ''0'', ''--peer-id'', ''me'', ''--token'', ''tok'', ''--workers'', ''1'', ''--retries'', ''2'']"

lemma sample_args_parsed: "swarmsync_main sample_args = Inr (Download sample_get)"
  by (simp add: swarmsync_main_def sample_args_def sample_get_def no_options_def starts_with_def)

theorem download_program_verified_witness:
  "\<exists>p states. swarmsync_program sample_evp sample_cli sample_machine sample_args sample_disk p states \<and> pe_code p = 0 \<and>
     (\<exists>d. nodes (last states) (path_append ''d'' ''a.bin'') = Some (Regular d) \<and> hex_encode (sample_digest d) = file_sha256 sample_seed)"
proof -
  let ?c = sample_download and ?f = sample_disk
  obtain swarm where swarm: "manifest_swarm_id sample_evp sample_seed = Inr swarm" using sample_swarm by blast
  have "sha256_file sample_evp ?f (final_path ?c) = Inr (file_sha256 sample_seed)"
    using sha256_file_plain [OF sample_evp_computes sample_disk_facts(2)] sample_disk_plain [of "final_path ?c"]
    by (simp add: plain_def sample_sha sample_seed_def)
  then have "open_download sample_evp sample_run_env ?c swarm ?f = (Already_there (final_path ?c), [?f])"
    using sample_disk_facts(2) by (simp add: open_download_def sample_download_facts fs_exists_def Let_def)
  then have "run_prepare sample_evp sample_run_env ?c ?f = (Already_there (final_path ?c), [?f])"
    using sample_made_again [OF sample_disk_facts(3)] swarm
    by (simp add: run_prepare_def sample_run_env_def sample_download_facts)
  then obtain res states where "download_run sample_evp sample_run_env ?c ?f (Inr res) states" using Present by blast
  moreover have "rbind (download_options sample_cli sample_get ?f) coordinator_new = Inr ?c"
    using sample_config by (simp add: sample_get_options coordinator_new_def)
  ultimately have run: "download_command sample_evp sample_cli sample_run_env sample_get ?f (Inr res) states" by (intro Runs)
  obtain mp where mp: "map_of (op_values sample_get) ''--manifest'' = Some mp" "manifest_load ?f mp = Inr sample_seed"
    "map_of (op_values sample_get) ''--out-dir'' = Some ''d''"
    "option_number (option_optional (op_values sample_get) ''--workers'' ''4'') ''--workers'' = Inr 1"
    using download_options_Inr [OF sample_get_options] by (auto simp: sample_download_facts)
  have "file_name sample_seed \<notin> {swarm @ ''.resume'', swarm @ ''.resume.tmp''}"
    using sample_name [OF swarm] by (simp add: sample_download_facts)
  moreover have program: "swarmsync_program sample_evp sample_cli sample_machine sample_args ?f (program_ends (download_text 5 res) [] (Inr ())) states"
    by (rule Downloads [OF sample_args_parsed]) (use run in \<open>simp add: sample_machine_def\<close>)
  moreover have "pe_code (program_ends (download_text 5 res) [] (Inr ())) = 0" by (simp add: program_ends_code)
  moreover have "file_name sample_seed = ''a.bin''" by (simp add: sample_seed_def)
  ultimately show ?thesis
    using download_program_verified [OF sample_evp_computes program sample_args_parsed _ mp(1-3) swarm] mp(4) sample_disk_plain
    by (fastforce simp: seed_chunks)
qed

end
